(* ===== verification/Prelude.thy ===== *)
theory Prelude
  imports Complex_Main
begin

section \<open>Prelude: values, errors and small library shared by every component\<close>

text \<open>
  The development's collections of rewrite rules, the error type, the sequencing
  combinators for operations that may raise, and the numeric helpers that the Python
  sources use everywhere.

  Numbers. Python's unbounded \<open>int\<close> is HOL \<open>int\<close> (or \<open>nat\<close> for protocol addresses,
  indices and list positions). Python's \<open>float\<close> is modelled by \<open>real\<close>: rounding of binary64
  arithmetic, infinities and NaN are not modelled, except where the source itself produces a
  NaN (the analytics features) or packs a value into 32 bits (theory F32).
\<close>

named_theorems bl_defs \<open>unfolding rules of the small accessor definitions\<close>
named_theorems run_simps \<open>execution rules of the effectful actions\<close>

subsection \<open>Errors as values\<close>

text \<open>
  Every exception class the modelled code raises or catches. \<open>Killed\<close> is no Python
  exception that the code handles: it stands for the end of the process (SIGKILL, or the
  \<open>CancelledError\<close> that shutdown injects), which no handler of the sources swallows.
\<close>

datatype exn =
    OSErr | PostgresErr | MqttErr
  | ValueErr | KeyErr | TypeErr | AttributeErr | OverflowErr | IndexErr
  | ValidationErr | ScheduleErr | JSONDecodeErr
  | Killed

fun bind_sum :: "'e + 'a \<Rightarrow> ('a \<Rightarrow> 'e + 'b) \<Rightarrow> 'e + 'b" where
  "bind_sum (Inl e) f = Inl e"
| "bind_sum (Inr x) f = f x"

lemma bind_sum_eq_Inr [simp]: "bind_sum m f = Inr y \<longleftrightarrow> (\<exists>x. m = Inr x \<and> f x = Inr y)"
  by (cases m) auto

lemma bind_sum_eq_Inl: "bind_sum m f = Inl e \<longleftrightarrow> m = Inl e \<or> (\<exists>x. m = Inr x \<and> f x = Inl e)"
  by (cases m) auto

text \<open>A list of fallible results: the first error wins, as an exception in a loop would.\<close>

fun collect :: "('a \<Rightarrow> 'e + 'b) \<Rightarrow> 'a list \<Rightarrow> 'e + 'b list" where
  "collect f [] = Inr []"
| "collect f (x # xs) = bind_sum (f x) (\<lambda>y. bind_sum (collect f xs) (\<lambda>ys. Inr (y # ys)))"

lemma collect_Inr_length: "collect f xs = Inr ys \<Longrightarrow> length ys = length xs"
  by (induction xs arbitrary: ys) auto

lemma collect_Inr_nth: "collect f xs = Inr ys \<Longrightarrow> i < length xs \<Longrightarrow> f (xs ! i) = Inr (ys ! i)"
proof (induction xs arbitrary: ys i)
  case Nil
  then show ?case by simp
next
  case (Cons x xs)
  then show ?case by (cases i) auto
qed

subsection \<open>Numeric helpers\<close>

text \<open>Python's \<open>int(x)\<close> on a float truncates towards zero.\<close>

definition py_int :: "real \<Rightarrow> int" where
  "py_int x = (if 0 \<le> x then \<lfloor>x\<rfloor> else \<lceil>x\<rceil>)"

lemma py_int_nonneg: "0 \<le> x \<Longrightarrow> py_int x = \<lfloor>x\<rfloor>"
  by (simp add: py_int_def)

lemma py_int_of_int [simp]: "py_int (of_int n) = n"
  by (simp add: py_int_def)

lemma py_int_numeral [simp]: "py_int (numeral n) = numeral n" "py_int (- numeral n) = - numeral n"
  "py_int 0 = 0" "py_int 1 = 1"
  by (simp_all add: py_int_def)

lemma py_int_gt_iff: "0 \<le> k \<Longrightarrow> k < py_int x \<longleftrightarrow> real_of_int (k + 1) \<le> x"
  unfolding py_int_def by (auto simp: le_floor_iff[symmetric]) linarith+

lemma py_int_error: "\<bar>real_of_int (py_int x) - x\<bar> < 1"
  unfolding py_int_def by auto linarith+

lemma py_int_mono: "x \<le> y \<Longrightarrow> py_int x \<le> py_int y"
  unfolding py_int_def by (auto intro: floor_mono ceiling_mono order_trans [of _ 0])

text \<open>The idiom \<open>max(lo, min(hi, x))\<close>.\<close>

definition clamp :: "'a::linorder \<Rightarrow> 'a \<Rightarrow> 'a \<Rightarrow> 'a" where
  "clamp lo hi x = max lo (min hi x)"

lemma clamp_bounds: "lo \<le> hi \<Longrightarrow> lo \<le> clamp lo hi x \<and> clamp lo hi x \<le> hi"
  by (simp add: clamp_def)

lemma clamp_ge [simp]: "lo \<le> clamp lo hi x"
  by (simp add: clamp_def)

lemma clamp_le [simp]: "lo \<le> hi \<Longrightarrow> clamp lo hi x \<le> hi"
  by (simp add: clamp_def)

lemma clamp_id: "lo \<le> x \<Longrightarrow> x \<le> hi \<Longrightarrow> clamp lo hi x = x"
  by (simp add: clamp_def)

lemma clamp_mono: "x \<le> y \<Longrightarrow> clamp lo hi x \<le> clamp lo hi y"
  by (auto simp: clamp_def max_def min_def)

lemma abs_clamp_sym: "0 \<le> (l::real) \<Longrightarrow> \<bar>clamp (- l) l x\<bar> \<le> l"
  by (auto simp: clamp_def)

subsection \<open>Lists\<close>

lemma list_all_update: "list_all P xs \<Longrightarrow> P x \<Longrightarrow> list_all P (xs[i := x])"
  by (metis in_set_conv_nth length_list_update list_all_length nth_list_update_eq nth_list_update_neq)

lemma last_filter_Cons: "filter P xs \<noteq> [] \<Longrightarrow> last (filter P (x # xs)) = last (filter P xs)"
  by simp

end
