(* ===== verification/F32.thy ===== *)
theory F32
  imports Prelude
begin

section \<open>Binary32 packing: \<open>struct.pack(">f", x)\<close> and its inverse\<close>

text \<open>
  The Modbus map carries setpoints as IEEE binary32 numbers. This theory models what
  Python's \<open>struct\<close> module does for the format \<open>f\<close>: a float is rounded to the nearest
  binary32 number, ties to even (\<open>f32_pack\<close>), or \<open>OverflowError\<close> is raised (\<open>None\<close>) when the
  rounded magnitude does not fit; the 32 bits read back as a float (\<open>f32_unpack\<close>), where
  \<open>None\<close> stands for the patterns that spell an infinity or a NaN. The model has one zero, so
  \<open>-0.0\<close> packs as \<open>+0.0\<close>.

  The lemmas show that packing the value of any finite pattern gives that value's pattern back
  (so re-sending a value that has been through the wire is exact) and bound the relative
  rounding error of one trip by \<open>2 powi -24\<close>.
\<close>

definition round_half_even :: "real \<Rightarrow> int" where
  "round_half_even x =
     (let f = \<lfloor>x\<rfloor>; d = x - of_int f in
      if d < 1 / 2 then f else if 1 / 2 < d then f + 1 else if even f then f else f + 1)"

lemma round_half_even_of_int [simp]: "round_half_even (of_int n) = n"
  by (simp add: round_half_even_def)

lemma round_half_even_error: "\<bar>of_int (round_half_even x) - x\<bar> \<le> 1 / 2"
  unfolding round_half_even_def Let_def by (auto simp: abs_le_iff; linarith)

lemma round_half_even_bounds:
  "of_int lo \<le> x \<Longrightarrow> x \<le> of_int hi \<Longrightarrow> lo \<le> round_half_even x \<and> round_half_even x \<le> hi"
proof -
  assume lo: "of_int lo \<le> x" and hi: "x \<le> of_int hi"
  have r: "\<bar>of_int (round_half_even x) - x\<bar> \<le> 1 / 2" by (rule round_half_even_error)
  have "of_int lo - 1 < (of_int (round_half_even x) :: real)" using lo r by linarith
  then have "lo - 1 < round_half_even x" by linarith
  moreover have "(of_int (round_half_even x) :: real) < of_int hi + 1" using hi r by linarith
  then have "round_half_even x < hi + 1" by linarith
  ultimately show ?thesis by simp
qed

text \<open>The exponent of a magnitude: the least one, from the subnormal range up, that covers it.\<close>

definition f32_exp :: "real \<Rightarrow> int option" where
  "f32_exp a = List.find (\<lambda>e. a < 2 powi (e + 1)) [-126..127]"

definition f32_mag :: "real \<Rightarrow> int option" where
  "f32_mag a = (case f32_exp a of
      None \<Rightarrow> None
    | Some e \<Rightarrow>
        (let b = (e + 126) * 2 ^ 23 + round_half_even (a * 2 powi (23 - e))
         in if 255 * 2 ^ 23 \<le> b then None else Some b))"

definition f32_mag_val :: "int \<Rightarrow> real" where
  "f32_mag_val b =
     (if b div 2 ^ 23 = 0 then of_int b * 2 powi (-149)
      else of_int (2 ^ 23 + b mod 2 ^ 23) * 2 powi (b div 2 ^ 23 - 150))"

definition f32_pack :: "real \<Rightarrow> int option" where
  "f32_pack x = map_option (\<lambda>b. if x < 0 then 2 ^ 31 + b else b) (f32_mag \<bar>x\<bar>)"

definition f32_unpack :: "int \<Rightarrow> real option" where
  "f32_unpack w =
     (let b = w mod 2 ^ 31 in
      if 255 * 2 ^ 23 \<le> b then None
      else Some (if 2 ^ 31 \<le> w then - f32_mag_val b else f32_mag_val b))"

subsection \<open>The exponent\<close>

lemma powi2_pos [simp]: "0 < (2::real) powi k"
  by simp

lemma powi2_mono: "i \<le> j \<Longrightarrow> (2::real) powi i \<le> 2 powi j"
  by (rule power_int_increasing) auto

lemma powi2_mult: "(2::real) powi i * 2 powi j = 2 powi (i + j)"
  by (simp add: power_int_add)

lemma find_upto_Some:
  "List.find P [i..j] = Some k \<longleftrightarrow> i \<le> k \<and> k \<le> j \<and> P k \<and> (\<forall>m. i \<le> m \<and> m < k \<longrightarrow> \<not> P m)"
proof (induction i j rule: upto.induct)
  case (1 i j)
  show ?case
  proof (cases "i \<le> j")
    case True
    have split: "(\<forall>m. i \<le> m \<and> m < k \<longrightarrow> \<not> P m) \<longleftrightarrow>
        (i < k \<longrightarrow> \<not> P i) \<and> (\<forall>m. i + 1 \<le> m \<and> m < k \<longrightarrow> \<not> P m)" for k
      by (metis add1_zle_eq order.order_iff_strict order_less_le_trans)
    show ?thesis
    proof (cases "P i")
      case True
      with \<open>i \<le> j\<close> show ?thesis by (subst upto.simps) (auto simp: not_less intro: order.antisym)
    next
      case False
      with 1 \<open>i \<le> j\<close> show ?thesis
        by (subst upto.simps) (auto simp: split, metis order.order_iff_strict add1_zle_eq)
    qed
  qed simp
qed

lemma f32_expI:
  assumes "-126 \<le> e" "e \<le> 127" "a < 2 powi (e + 1)" "e = -126 \<or> 2 powi e \<le> a"
  shows "f32_exp a = Some e"
proof -
  have "\<not> a < 2 powi (m + 1)" if m: "-126 \<le> m" "m < e" for m
  proof -
    from m assms(4) have "2 powi e \<le> a" by auto
    moreover from m have "(2::real) powi (m + 1) \<le> 2 powi e" by (intro powi2_mono) simp
    ultimately show ?thesis by simp
  qed
  with assms show ?thesis unfolding f32_exp_def find_upto_Some by blast
qed

lemma f32_expD:
  assumes "f32_exp a = Some e"
  shows "-126 \<le> e" "e \<le> 127" "a < 2 powi (e + 1)" "e = -126 \<or> 2 powi e \<le> a"
proof -
  from assms have *: "-126 \<le> e" "e \<le> 127" "a < 2 powi (e + 1)"
    "\<And>m. -126 \<le> m \<Longrightarrow> m < e \<Longrightarrow> \<not> a < 2 powi (m + 1)"
    unfolding f32_exp_def find_upto_Some by blast+
  then show "-126 \<le> e" "e \<le> 127" "a < 2 powi (e + 1)" by simp_all
  show "e = -126 \<or> 2 powi e \<le> a"
  proof (cases "e = -126")
    case False
    with *(1) have "-126 \<le> e - 1" by simp
    then show ?thesis using *(4) [of "e - 1"] by simp
  qed simp
qed

subsection \<open>Round trip\<close>

lemma f32_mag_val_nonneg: "0 \<le> b \<Longrightarrow> 0 \<le> f32_mag_val b"
  by (auto simp: f32_mag_val_def intro!: mult_nonneg_nonneg)

text \<open>Subnormal magnitudes, and the normal ones, are recognised exactly.\<close>

lemma f32_mag_mag_val_subnormal:
  assumes "0 \<le> b" "b < 2 ^ 23"
  shows "f32_mag (f32_mag_val b) = Some b"
proof -
  let ?a = "of_int b * 2 powi (-149) :: real"
  have "of_int b < (2::real) ^ 23" using assms(2) of_int_less_iff [of b "2 ^ 23", where 'a = real] by simp
  then have "?a < 2 ^ 23 * 2 powi (-149)" by (intro mult_strict_right_mono) simp_all
  also have "(2::real) ^ 23 * 2 powi (-149) = 2 powi (-126)"
    using powi2_mult [of 23 "-149"] by simp
  also have "\<dots> \<le> 2 powi (-126 + 1)" by (rule powi2_mono) simp
  finally have e: "f32_exp ?a = Some (-126)" by (intro f32_expI) simp_all
  have "?a * 2 powi (23 - -126) = of_int b * (2 powi (-149) * 2 powi 149)" by simp
  also have "\<dots> = of_int b" by (simp only: powi2_mult) simp
  finally have "round_half_even (?a * 2 powi (23 - -126)) = b" by simp
  with e assms show ?thesis by (simp add: f32_mag_def f32_mag_val_def)
qed

lemma f32_mag_mag_val_normal:
  assumes "2 ^ 23 \<le> b" "b < 255 * 2 ^ 23"
  shows "f32_mag (f32_mag_val b) = Some b"
proof -
  define E where "E = b div 2 ^ 23"
  define F where "F = b mod 2 ^ 23"
  have b: "b = E * 2 ^ 23 + F" by (simp add: E_def F_def)
  have E: "1 \<le> E" "E \<le> 254" 
    using assms zdiv_mono1 [of "2 ^ 23" b "2 ^ 23"] zdiv_mono1 [of b "255 * 2 ^ 23 - 1" "2 ^ 23"]
    by (simp_all add: E_def)
  have F: "0 \<le> F" "F < 2 ^ 23" by (simp_all add: F_def)
  let ?M = "of_int (2 ^ 23 + F) :: real"
  let ?a = "?M * 2 powi (E - 150)"
  have a: "f32_mag_val b = ?a"
    unfolding f32_mag_val_def E_def [symmetric] F_def [symmetric] using E(1) by simp
  have "?a < 2 ^ 24 * 2 powi (E - 150)" using F
    by (intro mult_strict_right_mono) simp_all
  also have "(2::real) ^ 24 * 2 powi (E - 150) = 2 powi (E - 126)"
    using powi2_mult [of 24 "E - 150"] by (simp add: add.commute)
  finally have hi: "?a < 2 powi (E - 127 + 1)" by simp
  have "(2::real) powi (E - 127) = 2 ^ 23 * 2 powi (E - 150)"
    using powi2_mult [of 23 "E - 150"] by (simp add: add.commute)
  also have "\<dots> \<le> ?a" using F by (intro mult_right_mono) simp_all
  finally have lo: "2 powi (E - 127) \<le> ?a" .
  have e: "f32_exp ?a = Some (E - 127)" using E hi lo by (intro f32_expI) simp_all
  have "?a * 2 powi (23 - (E - 127)) = ?M * (2 powi (E - 150) * 2 powi (150 - E))"
    by (simp add: algebra_simps)
  also have "\<dots> = ?M" by (simp only: powi2_mult) simp
  finally have r: "round_half_even (?a * 2 powi (23 - (E - 127))) = 2 ^ 23 + F"
    by (simp only: round_half_even_of_int)
  have "(E - 127 + 126) * 2 ^ 23 + (2 ^ 23 + F) = b" by (simp add: b algebra_simps)
  with e r assms show ?thesis by (simp add: f32_mag_def a Let_def)
qed

lemma f32_mag_mag_val: "0 \<le> b \<Longrightarrow> b < 255 * 2 ^ 23 \<Longrightarrow> f32_mag (f32_mag_val b) = Some b"
  using f32_mag_mag_val_subnormal f32_mag_mag_val_normal by (cases "b < 2 ^ 23") auto

lemma f32_pack_unpack:
  assumes "0 \<le> w" "w < 2 ^ 32" "f32_unpack w = Some x" "x \<noteq> 0"
  shows "f32_pack x = Some w"
proof -
  define b where "b = w mod 2 ^ 31"
  have b: "0 \<le> b" "b < 255 * 2 ^ 23"
    using assms(3) by (auto simp: b_def f32_unpack_def Let_def split: if_splits)
  have mag: "f32_mag (f32_mag_val b) = Some b" using b by (rule f32_mag_mag_val)
  have nn: "0 \<le> f32_mag_val b" using b(1) by (rule f32_mag_val_nonneg)
  show ?thesis
  proof (cases "2 ^ 31 \<le> w")
    case True
    then have x: "x = - f32_mag_val b"
      using assms(3) by (auto simp: b_def f32_unpack_def Let_def split: if_splits)
    have "b = w - 2 ^ 31" unfolding b_def using True assms(2)
      by (subst mod_pos_pos_trivial [symmetric, of "w - 2 ^ 31" "2 ^ 31"]) (auto simp: mod_diff_right_eq [symmetric])
    with x nn mag assms(4) show ?thesis by (auto simp: f32_pack_def)
  next
    case False
    then have x: "x = f32_mag_val b" and "w = b"
      using assms by (auto simp: b_def f32_unpack_def Let_def split: if_splits)
    with nn mag show ?thesis by (simp add: f32_pack_def)
  qed
qed

subsection \<open>The packed value and its error\<close>

lemma f32_mag_val_split:
  assumes "-126 \<le> e" "0 \<le> m" "m \<le> 2 ^ 24" "e = -126 \<or> 2 ^ 23 \<le> m"
  shows "f32_mag_val ((e + 126) * 2 ^ 23 + m) = of_int m * 2 powi (e - 23)"
proof -
  consider (sub) "m < 2 ^ 23" | (norm) "2 ^ 23 \<le> m" "m < 2 ^ 24" | (top) "m = 2 ^ 24"
    using assms(3) by linarith
  then show ?thesis
  proof cases
    case sub
    with assms have "e = -126" by simp
    with sub assms show ?thesis by (simp add: f32_mag_val_def)
  next
    case norm
    then have q: "m div 2 ^ 23 = 1" using div_pos_geq [of "2 ^ 23" m] by auto
    then have "m mod 2 ^ 23 = m - 2 ^ 23" using minus_div_mult_eq_mod [of m "2 ^ 23"] by simp
    with q have d: "((e + 126) * 2 ^ 23 + m) div 2 ^ 23 = e + 127"
      and r: "((e + 126) * 2 ^ 23 + m) mod 2 ^ 23 = m - 2 ^ 23"
      by (simp_all only: div_mult_self3 mod_mult_self3) simp
    have "e + 127 - 150 = e - 23" "2 ^ 23 + (m - 2 ^ 23) = m" "e + 127 \<noteq> 0" using assms(1) by simp_all
    then show ?thesis unfolding f32_mag_val_def d r by (simp only: if_False)
  next
    case top
    have d: "((e + 126) * 2 ^ 23 + m) div 2 ^ 23 = e + 128"
      and r: "((e + 126) * 2 ^ 23 + m) mod 2 ^ 23 = 0" using top by simp_all
    have "(2::real) ^ 23 * 2 powi (e - 22) = 2 ^ 24 * 2 powi (e - 23)"
      using powi2_mult [of 1 "e - 23"] by simp
    then show ?thesis using assms(1) top by (simp add: f32_mag_val_def d r)
  qed
qed

text \<open>What \<open>f32_mag\<close> returns: a pattern in range whose value is the rounded significand.\<close>

lemma f32_mag_cases:
  assumes "0 \<le> a" "f32_mag a = Some b"
  obtains e m where "f32_exp a = Some e" "m = round_half_even (a * 2 powi (23 - e))"
    "0 \<le> b" "b < 255 * 2 ^ 23" "f32_mag_val b = of_int m * 2 powi (e - 23)"
proof -
  obtain e where e: "f32_exp a = Some e"
    using assms(2) by (auto simp: f32_mag_def split: option.splits)
  define m where "m = round_half_even (a * 2 powi (23 - e))"
  have b: "b = (e + 126) * 2 ^ 23 + m" "b < 255 * 2 ^ 23"
    using assms(2) by (auto simp: f32_mag_def e m_def Let_def split: if_splits)
  note d = f32_expD [OF e]
  let ?y = "a * 2 powi (23 - e)"
  have "?y \<le> 2 powi (e + 1) * 2 powi (23 - e)" using d(3) by (intro mult_right_mono) simp_all
  also have "\<dots> = of_int (2 ^ 24)" by (simp only: powi2_mult) simp
  finally have hi: "?y \<le> of_int (2 ^ 24)" .
  have "of_int 0 \<le> ?y" using assms(1) by simp
  then have m: "0 \<le> m" "m \<le> 2 ^ 24"
    using round_half_even_bounds [of 0 ?y "2 ^ 24"] hi by (simp_all add: m_def)
  have "e = -126 \<or> 2 ^ 23 \<le> m"
  proof (cases "e = -126")
    case False
    with d(4) have "2 powi e \<le> a" by simp
    then have "2 powi e * 2 powi (23 - e) \<le> ?y" by (intro mult_right_mono) simp_all
    then have "of_int (2 ^ 23) \<le> ?y" by (simp only: powi2_mult) simp
    then show ?thesis using round_half_even_bounds [of "2 ^ 23" ?y "2 ^ 24"] hi by (simp add: m_def)
  qed simp
  then have "f32_mag_val b = of_int m * 2 powi (e - 23)"
    using f32_mag_val_split [OF d(1) m] b by simp
  moreover have "0 \<le> b" using b m d(1) by simp
  ultimately show ?thesis using that e m_def b(2) by blast
qed

lemma f32_pack_range: "f32_pack x = Some w \<Longrightarrow> 0 \<le> w \<and> w < 2 ^ 32"
  by (auto simp: f32_pack_def elim!: f32_mag_cases [rotated])

lemma f32_unpack_pack:
  assumes "f32_pack x = Some w"
  obtains b where "f32_mag \<bar>x\<bar> = Some b" "f32_unpack w = Some (sgn x * f32_mag_val b)"
proof -
  obtain b where b: "f32_mag \<bar>x\<bar> = Some b" "w = (if x < 0 then 2 ^ 31 + b else b)"
    using assms by (auto simp: f32_pack_def)
  obtain e m where r: "f32_exp \<bar>x\<bar> = Some e" "m = round_half_even (\<bar>x\<bar> * 2 powi (23 - e))"
    "0 \<le> b" "b < 255 * 2 ^ 23" "f32_mag_val b = of_int m * 2 powi (e - 23)"
    by (rule f32_mag_cases [OF abs_ge_zero b(1)])
  have z: "f32_mag_val b = 0" if "x = 0" using r(2,5) that by (simp add: round_half_even_def)
  have "f32_unpack w = Some (sgn x * f32_mag_val b)"
    using b(2) r(3,4) z by (auto simp: f32_unpack_def Let_def sgn_real_def)
  with b(1) that show ?thesis by blast
qed

text \<open>One trip over the wire: relative error at most \<open>2 powi -24\<close> in the normal range.\<close>

lemma f32_trip_error:
  assumes "f32_pack x = Some w" "2 powi (-126) \<le> \<bar>x\<bar>"
  obtains y where "f32_unpack w = Some y" "\<bar>y - x\<bar> \<le> \<bar>x\<bar> * 2 powi (-24)"
proof -
  obtain b where b: "f32_mag \<bar>x\<bar> = Some b" "f32_unpack w = Some (sgn x * f32_mag_val b)"
    using f32_unpack_pack [OF assms(1)] by blast
  obtain e m where r: "f32_exp \<bar>x\<bar> = Some e" "m = round_half_even (\<bar>x\<bar> * 2 powi (23 - e))"
    "0 \<le> b" "b < 255 * 2 ^ 23" "f32_mag_val b = of_int m * 2 powi (e - 23)"
    by (rule f32_mag_cases [OF abs_ge_zero b(1)])
  have lo: "2 powi e \<le> \<bar>x\<bar>" using f32_expD(4) [OF r(1)] assms(2) by auto
  have one: "(2::real) powi (23 - e) * 2 powi (e - 23) = 1" by (simp only: powi2_mult) simp
  have "\<bar>f32_mag_val b - \<bar>x\<bar>\<bar> = \<bar>(of_int m - \<bar>x\<bar> * 2 powi (23 - e)) * 2 powi (e - 23)\<bar>"
    using one by (simp add: r(5) left_diff_distrib mult.assoc)
  also have "\<dots> = \<bar>of_int m - \<bar>x\<bar> * 2 powi (23 - e)\<bar> * 2 powi (e - 23)"
    by (simp add: abs_mult)
  also have "\<dots> \<le> 1 / 2 * 2 powi (e - 23)"
    unfolding r(2) by (intro mult_right_mono round_half_even_error) simp
  also have "\<dots> = 2 powi e * 2 powi (-24)"
    using powi2_mult [of "-1" "e - 23"] powi2_mult [of e "-24"] by simp
  also have "\<dots> \<le> \<bar>x\<bar> * 2 powi (-24)" using lo by (intro mult_right_mono) simp_all
  finally have "\<bar>f32_mag_val b - \<bar>x\<bar>\<bar> \<le> \<bar>x\<bar> * 2 powi (-24)" .
  moreover have "\<bar>sgn x * f32_mag_val b - x\<bar> = \<bar>f32_mag_val b - \<bar>x\<bar>\<bar>"
    using assms(2) powi2_pos [of "-126"] by (cases "0 < x") (auto simp: sgn_real_def)
  ultimately show ?thesis using that [OF b(2)] by simp
qed

text \<open>Every value of moderate size fits.\<close>

lemma f32_pack_defined:
  assumes "\<bar>x\<bar> < 2 powi 127"
  shows "\<exists>w. f32_pack x = Some w"
proof -
  have "\<exists>e. f32_exp \<bar>x\<bar> = Some e \<and> e \<le> 126"
  proof -
    have "\<exists>e \<in> set [-126..127]. \<bar>x\<bar> < 2 powi (e + 1)"
      using assms by (intro bexI [of _ 126]) simp_all
    then obtain e where e: "f32_exp \<bar>x\<bar> = Some e"
      unfolding f32_exp_def by (metis find_None_iff not_None_eq)
    have "e \<le> 126"
    proof (rule ccontr)
      assume "\<not> e \<le> 126"
      with f32_expD(2) [OF e] have "e = 127" by simp
      with f32_expD(4) [OF e] assms show False by simp
    qed
    with e show ?thesis by blast
  qed
  then obtain e where e: "f32_exp \<bar>x\<bar> = Some e" "e \<le> 126" by blast
  note d = f32_expD [OF e(1)]
  let ?y = "\<bar>x\<bar> * 2 powi (23 - e)"
  have "?y \<le> 2 powi (e + 1) * 2 powi (23 - e)" using d(3) by (intro mult_right_mono) simp_all
  also have "\<dots> = of_int (2 ^ 24)" by (simp only: powi2_mult) simp
  finally have "round_half_even ?y \<le> 2 ^ 24"
    using round_half_even_bounds [of 0 ?y "2 ^ 24"] by simp
  then have "(e + 126) * 2 ^ 23 + round_half_even ?y < 255 * 2 ^ 23" using e(2) by simp
  then show ?thesis by (simp add: f32_pack_def f32_mag_def e(1) Let_def)
qed

text \<open>The values that are binary32 numbers, and what the wire can deliver.\<close>

definition f32_exact :: "real \<Rightarrow> bool" where
  "f32_exact x \<longleftrightarrow> (\<exists>w. f32_pack x = Some w \<and> f32_unpack w = Some x)"

lemma f32_exact_0 [simp]: "f32_exact 0"
proof -
  have "f32_pack 0 = Some 0"
    using f32_mag_mag_val [of 0] by (simp add: f32_pack_def f32_mag_val_def)
  moreover have "f32_unpack 0 = Some 0" by (simp add: f32_unpack_def f32_mag_val_def)
  ultimately show ?thesis unfolding f32_exact_def by blast
qed

lemma f32_exact_unpack:
  assumes "0 \<le> w" "w < 2 ^ 32" "f32_unpack w = Some x"
  shows "f32_exact x"
proof (cases "x = 0")
  case False
  with assms show ?thesis using f32_pack_unpack [OF assms False] by (auto simp: f32_exact_def)
qed simp

text \<open>A second trip changes nothing: what has been on the wire once is exact from then on.\<close>

lemma f32_trip_idem:
  assumes "f32_pack x = Some w" "f32_unpack w = Some y"
  shows "\<exists>w'. f32_pack y = Some w' \<and> f32_unpack w' = Some y"
  using f32_exact_unpack [OF _ _ assms(2)] f32_pack_range [OF assms(1)] by (simp add: f32_exact_def)

end
