(* ===== verification/Modbus_Maps.thy ===== *)
theory Modbus_Maps
  imports F32
begin

section \<open>The register map shared by cycler, chamber, orchestrator and watchdog\<close>

text \<open>
  \<open>batterylab/modbus_maps.py\<close> and the enums of \<open>batterylab/models.py\<close>: register
  addresses, modes, chemistry ids, the packing of floats and signed integers into
  registers, and the error codes. A register value is an \<open>int\<close>, an address a \<open>nat\<close>.
\<close>

subsection \<open>Modes and error codes\<close>

text \<open>\<open>ChannelMode\<close>, the literal strings \<open>idle, cc, cv, cp, rest\<close>.\<close>

datatype channel_mode = Idle | Cc | Cv | Cp | Rest

datatype error_code =
    NONE | OVERVOLTAGE | OVERTEMP | WATCHDOG_TIMEOUT | INTERNAL_SHORT | THERMAL_RUNAWAY | DEAD

fun error_code_int :: "error_code \<Rightarrow> int" where
  "error_code_int NONE = 0"
| "error_code_int OVERVOLTAGE = 1"
| "error_code_int OVERTEMP = 2"
| "error_code_int WATCHDOG_TIMEOUT = 3"
| "error_code_int INTERNAL_SHORT = 4"
| "error_code_int THERMAL_RUNAWAY = 5"
| "error_code_int DEAD = 6"

definition all_error_codes :: "error_code list" where
  "all_error_codes =
     [NONE, OVERVOLTAGE, OVERTEMP, WATCHDOG_TIMEOUT, INTERNAL_SHORT, THERMAL_RUNAWAY, DEAD]"

text \<open>\<open>ErrorCode(v)\<close>: the member with that value, \<open>None\<close> where Python raises \<open>ValueError\<close>.\<close>

definition error_code_of_int :: "int \<Rightarrow> error_code option" where
  "error_code_of_int v = List.find (\<lambda>e. error_code_int e = v) all_error_codes"

lemma error_code_of_int_int [simp]: "error_code_of_int (error_code_int e) = Some e"
  by (cases e) (simp_all add: error_code_of_int_def all_error_codes_def)

text \<open>\<open>ModbusMode\<close> and the two tables \<open>MODE_TO_STR\<close> and \<open>STR_TO_MODE\<close>.\<close>

definition mode_of_int :: "int \<Rightarrow> channel_mode option" where
  "mode_of_int v =
     (if v = 0 then Some Idle else if v = 1 then Some Cc else if v = 2 then Some Cv
      else if v = 3 then Some Cp else if v = 4 then Some Rest else None)"

fun mode_to_int :: "channel_mode \<Rightarrow> int" where
  "mode_to_int Idle = 0"
| "mode_to_int Cc = 1"
| "mode_to_int Cv = 2"
| "mode_to_int Cp = 3"
| "mode_to_int Rest = 4"

text \<open>Both readers of the MODE register fall back to \<open>idle\<close> on an unknown value.\<close>

definition mode_or_idle :: "int \<Rightarrow> channel_mode" where
  "mode_or_idle v = (case mode_of_int v of Some m \<Rightarrow> m | None \<Rightarrow> Idle)"

lemma mode_of_int_to_int [simp]: "mode_of_int (mode_to_int m) = Some m"
  by (cases m) (simp_all add: mode_of_int_def)

lemma mode_or_idle_to_int [simp]: "mode_or_idle (mode_to_int m) = m"
  by (simp add: mode_or_idle_def)

subsection \<open>Addresses\<close>

datatype channel_reg =
    MODE | SETPOINT_HI | SETPOINT_LO | VOLTAGE_MV | CURRENT_MA | TEMP_DC | SOC_PCTH | SOH_PCTH
  | SAFETY_V_MAX_MV | SAFETY_T_MAX_DC | WATCHDOG_KICK | WATCHDOG_STATUS | LAST_ERROR | CYCLE_COUNT

fun creg :: "channel_reg \<Rightarrow> nat" where
  "creg MODE = 0"
| "creg SETPOINT_HI = 1"
| "creg SETPOINT_LO = 2"
| "creg VOLTAGE_MV = 10"
| "creg CURRENT_MA = 11"
| "creg TEMP_DC = 12"
| "creg SOC_PCTH = 13"
| "creg SOH_PCTH = 14"
| "creg SAFETY_V_MAX_MV = 20"
| "creg SAFETY_T_MAX_DC = 21"
| "creg WATCHDOG_KICK = 30"
| "creg WATCHDOG_STATUS = 31"
| "creg LAST_ERROR = 40"
| "creg CYCLE_COUNT = 41"

datatype chassis_reg =
    CHASSIS_ID | FIRMWARE_VERSION_REG | TOTAL_CHANNELS | CHASSIS_WATCHDOG_STATUS
  | CHASSIS_WATCHDOG_KICK | PROTOCOL_VERSION_REG | CHEMISTRY

fun xreg :: "chassis_reg \<Rightarrow> nat" where
  "xreg CHASSIS_ID = 10000"
| "xreg FIRMWARE_VERSION_REG = 10001"
| "xreg TOTAL_CHANNELS = 10002"
| "xreg CHASSIS_WATCHDOG_STATUS = 10003"
| "xreg CHASSIS_WATCHDOG_KICK = 10004"
| "xreg PROTOCOL_VERSION_REG = 10005"
| "xreg CHEMISTRY = 10010"

definition PROTOCOL_VERSION :: int where "PROTOCOL_VERSION = 3"
definition FIRMWARE_VERSION :: int where "FIRMWARE_VERSION = 1"
definition CHANNEL_BLOCK_SIZE :: nat where "CHANNEL_BLOCK_SIZE = 50"
definition CHASSIS_BASE :: nat where "CHASSIS_BASE = 10000"

definition channel_base :: "nat \<Rightarrow> nat" where
  "channel_base idx = idx * CHANNEL_BLOCK_SIZE"

definition channel_addr :: "nat \<Rightarrow> channel_reg \<Rightarrow> nat" where
  "channel_addr idx reg = channel_base idx + creg reg"

lemmas addr_defs = channel_addr_def channel_base_def CHANNEL_BLOCK_SIZE_def CHASSIS_BASE_def

lemma creg_less_block: "creg r < CHANNEL_BLOCK_SIZE"
  by (cases r) (simp_all add: addr_defs)

lemma creg_inj: "creg r = creg s \<Longrightarrow> r = s"
  by (cases r; cases s) simp_all

lemma channel_addr_div [simp]: "channel_addr i r div CHANNEL_BLOCK_SIZE = i"
  using creg_less_block [of r] by (simp add: addr_defs)

lemma channel_addr_inj: "channel_addr i r = channel_addr j s \<Longrightarrow> i = j \<and> r = s"
  using creg_less_block [of r] creg_less_block [of s]
  by (metis channel_addr_def channel_addr_div add_left_cancel creg_inj)

lemma channel_addr_eq_iff [simp]: "channel_addr i r = channel_addr j s \<longleftrightarrow> i = j \<and> r = s"
  using channel_addr_inj by auto

text \<open>Channel blocks end below the chassis registers for every channel index up to 199.\<close>

lemma channel_addr_below_chassis: "i < 200 \<Longrightarrow> channel_addr i r < CHASSIS_BASE"
  using creg_less_block [of r] by (simp add: addr_defs)

lemma xreg_ge_base: "CHASSIS_BASE \<le> xreg r"
  by (cases r) (simp_all add: addr_defs)

lemma channel_addr_neq_xreg: "i < 200 \<Longrightarrow> channel_addr i r \<noteq> xreg x"
  using channel_addr_below_chassis [of i r] xreg_ge_base [of x] by simp

subsection \<open>Chemistry ids\<close>

datatype chemistry_id = NMC | LCO | NMC_SIC | LCO_SIC

fun chemistry_int :: "chemistry_id \<Rightarrow> int" where
  "chemistry_int NMC = 1"
| "chemistry_int LCO = 2"
| "chemistry_int NMC_SIC = 3"
| "chemistry_int LCO_SIC = 4"

text \<open>\<open>CHEMISTRY_ID_TO_NAME\<close>.\<close>

fun chemistry_id_to_name :: "chemistry_id \<Rightarrow> string" where
  "chemistry_id_to_name NMC = ''NMC''"
| "chemistry_id_to_name LCO = ''LCO''"
| "chemistry_id_to_name NMC_SIC = ''NMC+SiC''"
| "chemistry_id_to_name LCO_SIC = ''LCO+SiC''"

definition all_chemistry_ids :: "chemistry_id list" where
  "all_chemistry_ids = [NMC, LCO, NMC_SIC, LCO_SIC]"

definition chemistry_name_for_id :: "int \<Rightarrow> exn + string" where
  "chemistry_name_for_id value =
     (case List.find (\<lambda>c. chemistry_int c = value) all_chemistry_ids of
        Some c \<Rightarrow> Inr (chemistry_id_to_name c)
      | None \<Rightarrow> Inl ValueErr)"

text \<open>\<open>CHEMISTRY_NAME_TO_ID\<close> is the inverse dictionary; a missing name raises \<open>ValueError\<close>.\<close>

definition chemistry_id_for_name :: "string \<Rightarrow> exn + int" where
  "chemistry_id_for_name name =
     (case List.find (\<lambda>c. chemistry_id_to_name c = name) all_chemistry_ids of
        Some c \<Rightarrow> Inr (chemistry_int c)
      | None \<Rightarrow> Inl ValueErr)"

lemma chemistry_id_for_name_simps [simp]:
  "chemistry_id_for_name (chemistry_id_to_name c) = Inr (chemistry_int c)"
  by (cases c) (simp_all add: chemistry_id_for_name_def all_chemistry_ids_def)

lemma chemistry_name_for_id_simps [simp]:
  "chemistry_name_for_id (chemistry_int c) = Inr (chemistry_id_to_name c)"
  by (cases c) (simp_all add: chemistry_name_for_id_def all_chemistry_ids_def)

lemma chemistry_name_for_id_Inr:
  "chemistry_name_for_id v = Inr n \<Longrightarrow> \<exists>c. v = chemistry_int c \<and> n = chemistry_id_to_name c"
  by (auto simp: chemistry_name_for_id_def all_chemistry_ids_def split: option.splits if_splits
      intro: exI [of _ NMC] exI [of _ LCO] exI [of _ NMC_SIC] exI [of _ LCO_SIC])

lemma chemistry_id_for_name_Inr:
  "chemistry_id_for_name n = Inr v \<Longrightarrow> \<exists>c. v = chemistry_int c \<and> n = chemistry_id_to_name c"
  by (auto simp: chemistry_id_for_name_def all_chemistry_ids_def split: option.splits if_splits
      intro: exI [of _ NMC] exI [of _ LCO] exI [of _ NMC_SIC] exI [of _ LCO_SIC])

lemma chemistry_round_trip:
  "chemistry_id_for_name n = Inr v \<longleftrightarrow> chemistry_name_for_id v = Inr n"
  by (metis chemistry_id_for_name_Inr chemistry_id_for_name_simps chemistry_name_for_id_Inr
      chemistry_name_for_id_simps)

subsection \<open>Packing\<close>

text \<open>\<open>encode_f32\<close>: \<open>struct.pack(">f", x)\<close> split into two words, high word first.\<close>

definition encode_f32 :: "real \<Rightarrow> exn + int \<times> int" where
  "encode_f32 value =
     (case f32_pack value of
        None \<Rightarrow> Inl OverflowErr
      | Some raw \<Rightarrow> Inr (raw div 2 ^ 16, raw mod 2 ^ 16))"

text \<open>\<open>decode_f32\<close>: \<open>None\<close> for the bit patterns of infinities and NaNs.\<close>

definition decode_f32 :: "int \<Rightarrow> int \<Rightarrow> real option" where
  "decode_f32 hi lo = f32_unpack (hi mod 2 ^ 16 * 2 ^ 16 + lo mod 2 ^ 16)"

definition to_int16_signed :: "int \<Rightarrow> int" where
  "to_int16_signed v = (if v < 0 then 2 ^ 16 + v else v) mod 2 ^ 16"

definition from_int16_signed :: "int \<Rightarrow> int" where
  "from_int16_signed v = (let v = v mod 2 ^ 16 in if 2 ^ 15 \<le> v then v - 2 ^ 16 else v)"

text \<open>\<open>_u16_clamp\<close> of both Modbus servers: truncate, then clamp into one register.\<close>

definition u16_clamp :: "real \<Rightarrow> int" where
  "u16_clamp v = clamp 0 65535 (py_int v)"

lemma u16_clamp_range: "0 \<le> u16_clamp v \<and> u16_clamp v \<le> 65535"
  by (simp add: u16_clamp_def)

lemma to_int16_signed_range: "0 \<le> to_int16_signed v \<and> to_int16_signed v < 2 ^ 16"
  by (simp add: to_int16_signed_def)

lemma to_int16_signed_mod: "to_int16_signed v = v mod 2 ^ 16"
  by (simp add: to_int16_signed_def)

text \<open>The int16 trip wraps: it is the identity exactly on the signed range.\<close>

lemma int16_trip: "from_int16_signed (to_int16_signed v) = (v + 2 ^ 15) mod 2 ^ 16 - 2 ^ 15"
proof -
  have "(v + 32768) mod 65536 = (v mod 65536 + 32768) mod 65536" by (simp add: mod_add_left_eq)
  moreover have "0 \<le> v mod 65536" "v mod 65536 < 65536" by simp_all
  ultimately show ?thesis
    by (auto simp: from_int16_signed_def to_int16_signed_mod Let_def mod_pos_geq mod_pos_pos_trivial)
qed

lemma int16_trip_iff: "from_int16_signed (to_int16_signed v) = v \<longleftrightarrow> - (2 ^ 15) \<le> v \<and> v < 2 ^ 15"
proof
  assume "from_int16_signed (to_int16_signed v) = v"
  then have "v = (v + 2 ^ 15) mod 2 ^ 16 - 2 ^ 15" by (simp only: int16_trip)
  then show "- (2 ^ 15) \<le> v \<and> v < 2 ^ 15"
    using pos_mod_bound [of 65536 "v + 32768"] pos_mod_sign [of 65536 "v + 32768"] by simp
next
  assume "- (2 ^ 15) \<le> v \<and> v < 2 ^ 15"
  then show "from_int16_signed (to_int16_signed v) = v" by (simp add: int16_trip)
qed

lemma encode_f32_words:
  "encode_f32 x = Inr (hi, lo) \<Longrightarrow>
    \<exists>w. f32_pack x = Some w \<and> hi = w div 2 ^ 16 \<and> lo = w mod 2 ^ 16 \<and>
      0 \<le> hi \<and> hi < 2 ^ 16 \<and> 0 \<le> lo \<and> lo < 2 ^ 16 \<and> hi * 2 ^ 16 + lo = w"
  using f32_pack_range by (fastforce simp: encode_f32_def split: option.splits)

lemma decode_encode: "encode_f32 x = Inr (hi, lo) \<Longrightarrow> decode_f32 hi lo = f32_unpack (the (f32_pack x))"
  by (auto simp: decode_f32_def dest!: encode_f32_words)

text \<open>What a receiver decodes from an encoded value, named: the value after one trip.\<close>

definition f32_trip :: "real \<Rightarrow> real" where
  "f32_trip x = (case f32_pack x of Some w \<Rightarrow> the (f32_unpack w) | None \<Rightarrow> x)"

lemma decode_encode_trip:
  assumes "encode_f32 x = Inr (hi, lo)"
  shows "decode_f32 hi lo = Some (f32_trip x)"
proof -
  obtain w where w: "f32_pack x = Some w" using encode_f32_words [OF assms] by blast
  then obtain b where "f32_unpack w = Some (sgn x * f32_mag_val b)" by (rule f32_unpack_pack)
  with w show ?thesis by (simp add: decode_encode [OF assms] f32_trip_def)
qed

lemma encode_f32_Inr_iff: "(\<exists>p. encode_f32 x = Inr p) \<longleftrightarrow> (\<exists>w. f32_pack x = Some w)"
  by (auto simp: encode_f32_def split: option.splits)

lemma f32_trip_again:
  assumes "encode_f32 x = Inr p"
  shows "\<exists>q. encode_f32 (f32_trip x) = Inr q \<and> f32_trip (f32_trip x) = f32_trip x"
proof -
  obtain w where w: "f32_pack x = Some w" using assms encode_f32_Inr_iff by blast
  obtain b where b: "f32_unpack w = Some (sgn x * f32_mag_val b)" by (rule f32_unpack_pack [OF w])
  have y: "f32_trip x = sgn x * f32_mag_val b" using w b by (simp add: f32_trip_def)
  obtain w' where "f32_pack (f32_trip x) = Some w'" "f32_unpack w' = Some (f32_trip x)"
    using f32_trip_idem [OF w b] y by auto
  then show ?thesis by (auto simp: encode_f32_def f32_trip_def)
qed

lemma encode_f32_small: "\<bar>x\<bar> < 2 powi 127 \<Longrightarrow> \<exists>hi lo. encode_f32 x = Inr (hi, lo)"
  using f32_pack_defined [of x] encode_f32_Inr_iff [of x] by auto

lemma f32_exact_trip [simp]: "f32_exact x \<Longrightarrow> f32_trip x = x"
  by (auto simp: f32_exact_def f32_trip_def)

lemma f32_exact_encode: "f32_exact x \<Longrightarrow> \<exists>hi lo. encode_f32 x = Inr (hi, lo)"
  by (auto simp: f32_exact_def encode_f32_def)

lemma f32_exact_decode: "decode_f32 hi lo = Some x \<Longrightarrow> f32_exact x"
proof -
  assume d: "decode_f32 hi lo = Some x"
  have "0 \<le> hi mod 65536" "hi mod 65536 \<le> 65535" "0 \<le> lo mod 65536" "lo mod 65536 \<le> 65535"
    using pos_mod_bound [of 65536 hi] pos_mod_bound [of 65536 lo] by simp_all
  then have "0 \<le> hi mod 65536 * 65536 + lo mod 65536" "hi mod 65536 * 65536 + lo mod 65536 < 2 ^ 32"
    by simp_all
  moreover have "f32_unpack (hi mod 65536 * 65536 + lo mod 65536) = Some x"
    using d by (simp add: decode_f32_def)
  ultimately show ?thesis by (rule f32_exact_unpack)
qed

lemma f32_exact_of_trip: "encode_f32 x = Inr p \<Longrightarrow> f32_exact (f32_trip x)"
  using decode_encode_trip f32_exact_decode by (metis surj_pair)

end
