(* ===== verification/Chemistry.thy ===== *)
theory Chemistry
  imports Modbus_Maps
begin

section \<open>Chemistry parameters\<close>

text \<open>
  \<open>batterylab/chemistry.py\<close>: the parameter record, the open-circuit-voltage table lookup,
  the series resistance, the four shipped chemistries and the lookup by name.

  \<open>numpy.interp\<close> is not under src/. It is a parameter \<open>np\<close> of every definition that
  looks a voltage up, and the locale \<open>linear_interpolation\<close> states the one documented
  fact the code relies on: between two neighbouring sample points the result is the
  linear interpolant. \<open>lin_interp\<close> is a function with that property.
\<close>

record chemistry_params =
  chem_name :: string
  ocv_25c :: "real list"
  capacity_ah_nominal :: real
  r0_25c_ohm :: real
  r1_ohm :: real
  c1_farad :: real
  h_a_w_per_k :: real
  thermal_mass_j_per_k :: real
  v_max_mv :: int
  thermal_runaway_c :: real
  anode :: string
  max_charge_c_rate :: real
  anode_swelling_factor :: real
  k_cal :: real
  k_cyc :: real
  k_lam :: real
  r0_temp_coef_per_c :: real

definition NMC_OCV :: "real list" where
  "NMC_OCV = [3.00, 3.45, 3.55, 3.62, 3.70, 3.78, 3.88, 4.00, 4.14, 4.28, 4.40]"

definition LCO_OCV :: "real list" where
  "LCO_OCV = [3.00, 3.55, 3.65, 3.72, 3.78, 3.85, 3.92, 4.02, 4.14, 4.26, 4.35]"

definition SOC_GRID :: "real list" where
  "SOC_GRID = map (\<lambda>i. real i / 10) [0..<11]"

type_synonym np_interp = "real \<Rightarrow> real list \<Rightarrow> real list \<Rightarrow> real"

definition ocv_lookup :: "np_interp \<Rightarrow> chemistry_params \<Rightarrow> real \<Rightarrow> real \<Rightarrow> real" where
  "ocv_lookup np chem soc t_c =
     (let soc = clamp 0 1 soc;
          v = np soc SOC_GRID (ocv_25c chem)
      in v + 0.0003 * (t_c - 25))"

definition r0 :: "chemistry_params \<Rightarrow> real \<Rightarrow> real \<Rightarrow> real" where
  "r0 chem soc t_c =
     (let edge = (max 0 (0.1 - soc) + max 0 (soc - 0.9)) * 5;
          base = r0_25c_ohm chem * (1 + 0.5 * edge);
          scaled = base * (1 + r0_temp_coef_per_c chem * (t_c - 25))
      in max scaled 0.0001)"

text \<open>The dataclass defaults, then the four entries of \<open>CHEMISTRIES\<close>.\<close>

definition chem_NMC :: chemistry_params where
  "chem_NMC =
     \<lparr>chem_name = ''NMC'', ocv_25c = NMC_OCV, capacity_ah_nominal = 3, r0_25c_ohm = 0.030,
      r1_ohm = 0.015, c1_farad = 2000, h_a_w_per_k = 0.4, thermal_mass_j_per_k = 80,
      v_max_mv = 4400, thermal_runaway_c = 130, anode = ''graphite'', max_charge_c_rate = 3,
      anode_swelling_factor = 1, k_cal = 0.0000001, k_cyc = 0.006, k_lam = 0.0004,
      r0_temp_coef_per_c = - 0.005\<rparr>"

definition chem_LCO :: chemistry_params where
  "chem_LCO =
     \<lparr>chem_name = ''LCO'', ocv_25c = LCO_OCV, capacity_ah_nominal = 3, r0_25c_ohm = 0.040,
      r1_ohm = 0.015, c1_farad = 2000, h_a_w_per_k = 0.4, thermal_mass_j_per_k = 80,
      v_max_mv = 4350, thermal_runaway_c = 150, anode = ''graphite'', max_charge_c_rate = 3,
      anode_swelling_factor = 1, k_cal = 0.00000008, k_cyc = 0.007, k_lam = 0.0005,
      r0_temp_coef_per_c = - 0.005\<rparr>"

definition chem_NMC_SIC :: chemistry_params where
  "chem_NMC_SIC =
     \<lparr>chem_name = ''NMC+SiC'', ocv_25c = NMC_OCV, capacity_ah_nominal = 3.45, r0_25c_ohm = 0.030,
      r1_ohm = 0.015, c1_farad = 2000, h_a_w_per_k = 0.4, thermal_mass_j_per_k = 80,
      v_max_mv = 4400, thermal_runaway_c = 130, anode = ''silicon_carbon'', max_charge_c_rate = 1.5,
      anode_swelling_factor = 1.5, k_cal = 0.0000001, k_cyc = 0.006, k_lam = 0.0004,
      r0_temp_coef_per_c = - 0.005\<rparr>"

definition chem_LCO_SIC :: chemistry_params where
  "chem_LCO_SIC =
     \<lparr>chem_name = ''LCO+SiC'', ocv_25c = LCO_OCV, capacity_ah_nominal = 3.45, r0_25c_ohm = 0.040,
      r1_ohm = 0.015, c1_farad = 2000, h_a_w_per_k = 0.4, thermal_mass_j_per_k = 80,
      v_max_mv = 4350, thermal_runaway_c = 150, anode = ''silicon_carbon'', max_charge_c_rate = 1.5,
      anode_swelling_factor = 1.5, k_cal = 0.00000008, k_cyc = 0.007, k_lam = 0.0005,
      r0_temp_coef_per_c = - 0.005\<rparr>"

lemmas chem_defs = chem_NMC_def chem_LCO_def chem_NMC_SIC_def chem_LCO_SIC_def

definition CHEMISTRIES :: "(string \<times> chemistry_params) list" where
  "CHEMISTRIES =
     [(''NMC'', chem_NMC), (''LCO'', chem_LCO), (''NMC+SiC'', chem_NMC_SIC), (''LCO+SiC'', chem_LCO_SIC)]"

definition get_chemistry :: "string \<Rightarrow> exn + chemistry_params" where
  "get_chemistry name =
     (case map_of CHEMISTRIES name of Some c \<Rightarrow> Inr c | None \<Rightarrow> Inl ValueErr)"

subsection \<open>Well-formed parameters\<close>

text \<open>What the physics needs of a parameter set; every shipped chemistry has it.\<close>

definition chem_ok :: "chemistry_params \<Rightarrow> bool" where
  "chem_ok c \<longleftrightarrow>
     length (ocv_25c c) = 11 \<and> sorted (ocv_25c c) \<and>
     0 < capacity_ah_nominal c \<and> 0 < r0_25c_ohm c \<and> 0 < r1_ohm c \<and> 0 < c1_farad c \<and>
     0 < h_a_w_per_k c \<and> 0 < thermal_mass_j_per_k c \<and> 0 < max_charge_c_rate c \<and>
     0 < anode_swelling_factor c \<and> 0 \<le> k_cal c \<and> 0 \<le> k_cyc c \<and> 0 \<le> k_lam c"

lemma chem_ok_shipped: "(n, c) \<in> set CHEMISTRIES \<Longrightarrow> chem_ok c \<and> chem_name c = n"
  by (auto simp: CHEMISTRIES_def chem_ok_def chem_defs NMC_OCV_def LCO_OCV_def)

lemma get_chemistry_ok: "get_chemistry n = Inr c \<Longrightarrow> chem_ok c \<and> chem_name c = n"
  by (auto simp: get_chemistry_def split: option.splits dest!: map_of_SomeD chem_ok_shipped)

lemma get_chemistry_id [simp]: "\<exists>c. get_chemistry (chemistry_id_to_name i) = Inr c"
  by (cases i) (simp_all add: get_chemistry_def CHEMISTRIES_def)

text \<open>A name has parameters exactly when it has a wire id.\<close>

lemma get_chemistry_iff_id: "(\<exists>c. get_chemistry n = Inr c) \<longleftrightarrow> (\<exists>v. chemistry_id_for_name n = Inr v)"
proof
  assume "\<exists>c. get_chemistry n = Inr c"
  then have "n \<in> chemistry_id_to_name ` {NMC, LCO, NMC_SIC, LCO_SIC}"
    by (auto simp: get_chemistry_def CHEMISTRIES_def split: if_splits)
  then show "\<exists>v. chemistry_id_for_name n = Inr v"
    by (elim imageE) (simp only: chemistry_id_for_name_simps, blast)
next
  assume "\<exists>v. chemistry_id_for_name n = Inr v"
  then show "\<exists>c. get_chemistry n = Inr c" using chemistry_id_for_name_Inr by fastforce
qed

lemma r0_pos: "0.0001 \<le> r0 c s t" "0 < r0 c s t"
  by (auto simp: r0_def Let_def)

subsection \<open>The interpolation interface\<close>

locale linear_interpolation =
  fixes interp :: "real \<Rightarrow> real list \<Rightarrow> real list \<Rightarrow> real"
  assumes between:
    "length ys = length xs \<Longrightarrow> sorted_wrt (<) xs \<Longrightarrow> Suc i < length xs \<Longrightarrow>
      xs ! i \<le> x \<Longrightarrow> x \<le> xs ! Suc i \<Longrightarrow>
      interp x xs ys = ys ! i + (ys ! Suc i - ys ! i) * ((x - xs ! i) / (xs ! Suc i - xs ! i))"
begin

lemma segment_bounds:
  assumes "length ys = length xs" "sorted_wrt (<) xs" "sorted ys" "Suc i < length xs"
    and "xs ! i \<le> x" "x \<le> xs ! Suc i"
  shows "ys ! i \<le> interp x xs ys" "interp x xs ys \<le> ys ! Suc i"
proof -
  let ?d = "xs ! Suc i - xs ! i" and ?t = "(x - xs ! i) / (xs ! Suc i - xs ! i)"
  have d: "0 < ?d" using assms(2,4) by (simp add: sorted_wrt_iff_nth_less)
  have y: "0 \<le> ys ! Suc i - ys ! i" using assms(1,3,4) by (simp add: sorted_iff_nth_Suc)
  have t: "0 \<le> ?t" "?t \<le> 1" using assms(5,6) d by simp_all
  have e: "interp x xs ys = ys ! i + (ys ! Suc i - ys ! i) * ?t"
    using between [OF assms(1,2,4,5,6)] .
  show "ys ! i \<le> interp x xs ys" using mult_nonneg_nonneg [OF y t(1)] by (simp add: e)
  have "(ys ! Suc i - ys ! i) * ?t \<le> ys ! Suc i - ys ! i" using mult_left_mono [OF t(2) y] by simp
  then show "interp x xs ys \<le> ys ! Suc i" by (simp add: e)
qed

lemma segment_mono:
  assumes "length ys = length xs" "sorted_wrt (<) xs" "sorted ys" "Suc i < length xs"
    and "xs ! i \<le> x" "x \<le> y" "y \<le> xs ! Suc i"
  shows "interp x xs ys \<le> interp y xs ys"
proof -
  have d: "0 < xs ! Suc i - xs ! i" using assms(2,4) by (simp add: sorted_wrt_iff_nth_less)
  have y: "0 \<le> ys ! Suc i - ys ! i" using assms(1,3,4) by (simp add: sorted_iff_nth_Suc)
  have "(x - xs ! i) / (xs ! Suc i - xs ! i) \<le> (y - xs ! i) / (xs ! Suc i - xs ! i)"
    using assms(6) d by (simp add: divide_right_mono)
  from mult_left_mono [OF this y] show ?thesis
    using between [OF assms(1,2,4,5)] between [OF assms(1,2,4) _ assms(7)] assms(5,6,7) by simp
qed

lemma find_segment:
  fixes xs :: "real list"
  assumes "sorted_wrt (<) xs" "xs ! 0 \<le> x" "x \<le> xs ! (length xs - 1)" "2 \<le> length xs"
  obtains i where "Suc i < length xs" "xs ! i \<le> x" "x \<le> xs ! Suc i"
proof -
  define k where "k = (LEAST k. x \<le> xs ! k)"
  have k: "x \<le> xs ! k" "k \<le> length xs - 1"
    unfolding k_def using assms(3) by (rule LeastI, rule Least_le)
  have below: "xs ! j < x" if "j < k" for j
    using not_less_Least [of j "\<lambda>k. x \<le> xs ! k"] that by (simp add: k_def not_le)
  show ?thesis
  proof (cases k)
    case 0
    with k(1) assms(2) have "x = xs ! 0" by simp
    moreover have "xs ! 0 < xs ! 1" using assms(1,4) by (simp add: sorted_wrt_iff_nth_less)
    ultimately show ?thesis using that [of 0] assms(4) by simp
  next
    case (Suc i)
    with below [of i] have "xs ! i \<le> x" by simp
    with k Suc assms(4) show ?thesis using that [of i] by simp
  qed
qed

lemma interp_mono:
  assumes "length ys = length xs" "sorted_wrt (<) xs" "sorted ys" "2 \<le> length xs"
    and "xs ! 0 \<le> x" "x \<le> y" "y \<le> xs ! (length xs - 1)"
  shows "interp x xs ys \<le> interp y xs ys"
proof -
  obtain i where i: "Suc i < length xs" "xs ! i \<le> x" "x \<le> xs ! Suc i"
    using find_segment [OF assms(2,5) _ assms(4)] assms(6,7) by (metis order_trans)
  obtain j where j: "Suc j < length xs" "xs ! j \<le> y" "y \<le> xs ! Suc j"
    using find_segment [OF assms(2) _ assms(7,4)] assms(5,6) by (metis order_trans)
  consider (same) "i = j" | (lt) "i < j" | (gt) "j < i" by linarith
  then show ?thesis
  proof cases
    case same
    with i j assms show ?thesis by (intro segment_mono [of ys xs i]) simp_all
  next
    case lt
    have "interp x xs ys \<le> ys ! Suc i" using segment_bounds [OF assms(1-3) i] by simp
    also have "\<dots> \<le> ys ! j" using assms(1,3) lt j(1) by (intro sorted_nth_mono) simp_all
    also have "\<dots> \<le> interp y xs ys" using segment_bounds [OF assms(1-3) j] by simp
    finally show ?thesis .
  next
    case gt
    have "xs ! Suc j \<le> xs ! i" using assms(2) gt i(1)
      by (cases "Suc j = i") (auto simp: sorted_wrt_iff_nth_less intro: less_imp_le)
    with i(2) j(3) assms(6) have "x = y" by simp
    then show ?thesis by simp
  qed
qed

lemma interp_at_node:
  assumes "length ys = length xs" "sorted_wrt (<) xs" "2 \<le> length xs" "k < length xs"
  shows "interp (xs ! k) xs ys = ys ! k"
proof (cases k)
  case 0
  have "xs ! 0 < xs ! Suc 0" using assms(2,3) by (simp add: sorted_wrt_iff_nth_less)
  then show ?thesis using between [OF assms(1,2), of 0 "xs ! 0"] assms(3) 0 by simp
next
  case (Suc i)
  have "xs ! i < xs ! Suc i" using assms(2,4) Suc by (simp add: sorted_wrt_iff_nth_less)
  then show ?thesis using between [OF assms(1,2), of i "xs ! k"] assms(4) Suc by simp
qed

end

text \<open>An interpolant with the documented behaviour, also at both ends of the table.\<close>

fun lin_interp :: np_interp where
  "lin_interp x (a # b # xs) (c # d # ys) =
     (if x \<le> a then c
      else if x \<le> b then c + (d - c) * ((x - a) / (b - a))
      else lin_interp x (b # xs) (d # ys))"
| "lin_interp x [a] (c # _) = c"
| "lin_interp x _ _ = 0"

lemma lin_interp_between:
  "length ys = length xs \<Longrightarrow> sorted_wrt (<) xs \<Longrightarrow> Suc i < length xs \<Longrightarrow>
    xs ! i \<le> x \<Longrightarrow> x \<le> xs ! Suc i \<Longrightarrow>
    lin_interp x xs ys = ys ! i + (ys ! Suc i - ys ! i) * ((x - xs ! i) / (xs ! Suc i - xs ! i))"
proof (induction x xs ys arbitrary: i rule: lin_interp.induct)
  case (1 x a b xs c d ys)
  show ?case
  proof (cases i)
    case 0
    with 1 show ?thesis by auto
  next
    case (Suc j)
    with "1.prems" have "b \<le> (b # xs) ! j"
      by (cases j) (auto simp: less_imp_le)
    with "1.prems" Suc have x: "b \<le> x" "a < b" by auto
    show ?thesis
    proof (cases "x = b")
      case True
      have "b < xs ! k" if "j = Suc k" for k
        using "1.prems" Suc that by simp
      moreover have "(b # xs) ! j \<le> b" using "1.prems" Suc True by simp
      ultimately have "j = 0" by (cases j) force+
      with True x Suc "1.prems" show ?thesis by simp
    next
      case False
      with x have "\<not> x \<le> a" "\<not> x \<le> b" by simp_all
      with 1 Suc show ?thesis by simp
    qed
  qed
qed auto

interpretation lin: linear_interpolation lin_interp
  by unfold_locales (rule lin_interp_between)

subsection \<open>The OCV curve\<close>

lemma SOC_GRID_simps: "SOC_GRID = [0, 0.1, 0.2, 0.3, 0.4, 0.5, 0.6, 0.7, 0.8, 0.9, 1]"
  by (simp add: SOC_GRID_def upt_rec)

lemma SOC_GRID_facts:
  "length SOC_GRID = 11" "sorted_wrt (<) SOC_GRID" "SOC_GRID ! 0 = 0" "SOC_GRID ! 10 = 1"
  by (simp_all add: SOC_GRID_simps)

context linear_interpolation
begin

lemma ocv_mono:
  assumes "chem_ok chem" "s \<le> s'"
  shows "ocv_lookup interp chem s t \<le> ocv_lookup interp chem s' t"
  using assms interp_mono [of "ocv_25c chem" SOC_GRID "clamp 0 1 s" "clamp 0 1 s'"] clamp_mono [of s s' 0 1]
  by (simp add: ocv_lookup_def chem_ok_def SOC_GRID_facts)

lemma ocv_ends:
  assumes "chem_ok chem"
  shows "ocv_lookup interp chem 0 25 = ocv_25c chem ! 0" "ocv_lookup interp chem 1 25 = ocv_25c chem ! 10"
  using assms interp_at_node [of "ocv_25c chem" SOC_GRID 0] interp_at_node [of "ocv_25c chem" SOC_GRID 10]
  by (simp_all add: ocv_lookup_def chem_ok_def SOC_GRID_facts clamp_def)

end

end
