(* ===== verification/Degradation.thy ===== *)
theory Degradation
  imports Chemistry
begin

section \<open>Aging\<close>

text \<open>
  \<open>batterylab/degradation.py\<close>: the aging state of a cell and the three loss mechanisms.
  Each function of the source mutates the state and returns the capacity lost in the step;
  here it returns that loss paired with the new state.
\<close>

record aging_state =
  q_loss_lli :: real
  q_loss_lam :: real
  cumulative_throughput_ah :: real
  sim_seconds_elapsed :: real
  age_cycle_count :: int
  last_cycle_dod :: real

definition aging_new :: aging_state where
  "aging_new = \<lparr>q_loss_lli = 0, q_loss_lam = 0, cumulative_throughput_ah = 0,
     sim_seconds_elapsed = 0, age_cycle_count = 0, last_cycle_dod = 0\<rparr>"

definition step_calendar_lli ::
  "chemistry_params \<Rightarrow> aging_state \<Rightarrow> real \<Rightarrow> real \<Rightarrow> real \<Rightarrow> real \<times> aging_state" where
  "step_calendar_lli chem age dt_s soc t_c =
     (let age = age\<lparr>sim_seconds_elapsed := sim_seconds_elapsed age + dt_s\<rparr>;
          soc_factor = sqrt (max soc 0);
          t_factor = exp ((t_c - 25) / 12);
          sqrt_term = 0.5 / max (sqrt (sim_seconds_elapsed age)) 1;
          delta = k_cal chem * dt_s * sqrt_term * soc_factor * t_factor
      in (delta, age\<lparr>q_loss_lli := q_loss_lli age + delta\<rparr>))"

definition step_throughput_lli ::
  "chemistry_params \<Rightarrow> aging_state \<Rightarrow> real \<Rightarrow> real \<times> aging_state" where
  "step_throughput_lli chem age delta_throughput_ah =
     (let age = age\<lparr>cumulative_throughput_ah := cumulative_throughput_ah age + \<bar>delta_throughput_ah\<bar>\<rparr>;
          delta = k_cyc chem * sqrt (cumulative_throughput_ah age / capacity_ah_nominal chem)
            - k_cyc chem * sqrt (max 0 (cumulative_throughput_ah age - \<bar>delta_throughput_ah\<bar>)
                                 / capacity_ah_nominal chem);
          delta = max delta 0 * anode_swelling_factor chem
      in (delta, age\<lparr>q_loss_lli := q_loss_lli age + delta\<rparr>))"

definition on_cycle_complete :: "chemistry_params \<Rightarrow> aging_state \<Rightarrow> real \<Rightarrow> real \<times> aging_state" where
  "on_cycle_complete chem age dod =
     (let age = age\<lparr>age_cycle_count := age_cycle_count age + 1, last_cycle_dod := dod\<rparr>;
          delta = k_lam chem * dod ^ 2
      in (delta, age\<lparr>q_loss_lam := q_loss_lam age + delta\<rparr>))"

definition soh :: "chemistry_params \<Rightarrow> aging_state \<Rightarrow> real" where
  "soh chem age =
     (let q_eff = capacity_ah_nominal chem - q_loss_lli age - q_loss_lam age
      in clamp 0 1 (q_eff / capacity_ah_nominal chem))"

subsection \<open>Loss is never negative, health never recovers\<close>

definition age_ok :: "aging_state \<Rightarrow> bool" where
  "age_ok a \<longleftrightarrow> 0 \<le> q_loss_lli a \<and> 0 \<le> q_loss_lam a \<and> 0 \<le> cumulative_throughput_ah a \<and>
     0 \<le> sim_seconds_elapsed a \<and> 0 \<le> age_cycle_count a"

text \<open>\<open>a'\<close> has lost at least as much as \<open>a\<close>.\<close>

definition aged_from :: "aging_state \<Rightarrow> aging_state \<Rightarrow> bool" where
  "aged_from a a' \<longleftrightarrow> q_loss_lli a \<le> q_loss_lli a' \<and> q_loss_lam a \<le> q_loss_lam a' \<and>
     cumulative_throughput_ah a \<le> cumulative_throughput_ah a' \<and>
     sim_seconds_elapsed a \<le> sim_seconds_elapsed a' \<and> age_cycle_count a \<le> age_cycle_count a'"

lemma aged_from_refl [simp]: "aged_from a a"
  by (simp add: aged_from_def)

lemma aged_from_trans: "aged_from a b \<Longrightarrow> aged_from b c \<Longrightarrow> aged_from a c"
  by (auto simp: aged_from_def)

lemma age_ok_aged: "age_ok a \<Longrightarrow> aged_from a b \<Longrightarrow> age_ok b"
  by (auto simp: age_ok_def aged_from_def)

lemma age_ok_new [simp]: "age_ok aging_new"
  by (simp add: age_ok_def aging_new_def)

lemma soh_range: "0 \<le> soh c a \<and> soh c a \<le> 1"
  by (simp add: soh_def Let_def)

lemma soh_new: "chem_ok c \<Longrightarrow> soh c aging_new = 1"
  by (simp add: soh_def aging_new_def chem_ok_def clamp_def)

lemma soh_antimono:
  assumes "chem_ok c" "aged_from a b"
  shows "soh c b \<le> soh c a"
  unfolding soh_def Let_def using assms
  by (intro clamp_mono divide_right_mono) (auto simp: aged_from_def chem_ok_def)

lemma step_calendar_lli_aged:
  assumes "chem_ok c" "0 \<le> dt"
  shows "aged_from a (snd (step_calendar_lli c a dt s t))" "0 \<le> fst (step_calendar_lli c a dt s t)"
proof -
  have "0 \<le> k_cal c * dt * (0.5 / max (sqrt (sim_seconds_elapsed a + dt)) 1) * sqrt (max s 0)
      * exp ((t - 25) / 12)"
    using assms by (intro mult_nonneg_nonneg) (auto simp: chem_ok_def)
  with assms show "aged_from a (snd (step_calendar_lli c a dt s t))"
    "0 \<le> fst (step_calendar_lli c a dt s t)"
    by (auto simp: step_calendar_lli_def Let_def aged_from_def)
qed

lemma step_throughput_lli_aged:
  assumes "chem_ok c"
  shows "aged_from a (snd (step_throughput_lli c a d))" "0 \<le> fst (step_throughput_lli c a d)"
  using assms by (auto simp: step_throughput_lli_def Let_def aged_from_def chem_ok_def)

lemma on_cycle_complete_aged:
  assumes "chem_ok c"
  shows "aged_from a (snd (on_cycle_complete c a dod))" "0 \<le> fst (on_cycle_complete c a dod)"
  using assms by (auto simp: on_cycle_complete_def Let_def aged_from_def chem_ok_def)

subsection \<open>Cycling loss in closed form\<close>

text \<open>
  The increments telescope: however the throughput is cut into ticks, the total cycling
  loss is \<open>swelling * k_cyc * sqrt (throughput / capacity)\<close>.
\<close>

fun throughput_run :: "chemistry_params \<Rightarrow> aging_state \<Rightarrow> real list \<Rightarrow> aging_state" where
  "throughput_run chem age [] = age"
| "throughput_run chem age (d # ds) = throughput_run chem (snd (step_throughput_lli chem age d)) ds"

definition cyc_loss :: "chemistry_params \<Rightarrow> real \<Rightarrow> real" where
  "cyc_loss chem q = anode_swelling_factor chem * (k_cyc chem * sqrt (q / capacity_ah_nominal chem))"

lemma step_throughput_lli_delta:
  assumes "chem_ok c" "0 \<le> cumulative_throughput_ah a"
  shows "fst (step_throughput_lli c a d) =
    cyc_loss c (cumulative_throughput_ah a + \<bar>d\<bar>) - cyc_loss c (cumulative_throughput_ah a)"
proof -
  let ?q = "cumulative_throughput_ah a" and ?C = "capacity_ah_nominal c"
  have "sqrt (?q / ?C) \<le> sqrt ((?q + \<bar>d\<bar>) / ?C)"
    using assms by (simp add: chem_ok_def divide_right_mono)
  then have "k_cyc c * sqrt (?q / ?C) \<le> k_cyc c * sqrt ((?q + \<bar>d\<bar>) / ?C)"
    using assms(1) by (intro mult_left_mono) (simp_all add: chem_ok_def)
  with assms(2) show ?thesis
    by (simp add: step_throughput_lli_def Let_def cyc_loss_def algebra_simps max_def)
qed

lemma throughput_run_loss:
  assumes "chem_ok c" "0 \<le> cumulative_throughput_ah a"
  shows "q_loss_lli (throughput_run c a ds) = q_loss_lli a
      + (cyc_loss c (cumulative_throughput_ah a + (\<Sum>d\<leftarrow>ds. \<bar>d\<bar>)) - cyc_loss c (cumulative_throughput_ah a))"
  using assms(2)
proof (induction ds arbitrary: a)
  case Nil
  then show ?case by simp
next
  case (Cons d ds)
  let ?b = "snd (step_throughput_lli c a d)"
  have b: "cumulative_throughput_ah ?b = cumulative_throughput_ah a + \<bar>d\<bar>"
    "q_loss_lli ?b = q_loss_lli a + fst (step_throughput_lli c a d)"
    by (simp_all add: step_throughput_lli_def Let_def)
  with Cons.prems have "0 \<le> cumulative_throughput_ah ?b" by simp
  from Cons.IH [OF this] show ?case
    by (simp add: b step_throughput_lli_delta [OF assms(1) Cons.prems] add.assoc)
qed

end
