(* ===== verification/Ecm.thy ===== *)
theory Ecm
  imports Degradation
begin

section \<open>The equivalent-circuit cell\<close>

text \<open>
  \<open>batterylab/ecm.py\<close> and the \<open>CellState\<close> contract of \<open>models.py\<close>. \<open>ecm_step\<close> is one
  physics tick, composed of the electro-thermal update, the aging tick and the cycle
  boundary detection in the order of the source. Building a \<open>CellState\<close> checks the two
  range constraints of the pydantic model and raises \<open>ValidationError\<close> otherwise; the
  invariant \<open>cell_ok\<close> shows that this never happens.
\<close>

record cell_state =
  st_voltage_v :: real
  st_current_a :: real
  st_temperature_c :: real
  st_soc :: real
  st_soh :: real
  st_cycle_count :: int
  st_latched_error :: error_code

definition make_cell_state :: "cell_state \<Rightarrow> exn + cell_state" where
  "make_cell_state s =
     (if 0 \<le> st_soc s \<and> st_soc s \<le> 1 \<and> 0 \<le> st_soh s \<and> st_soh s \<le> 1 then Inr s
      else Inl ValidationErr)"

record ecm_cell =
  cell_chem :: chemistry_params
  cell_capacity_ah :: real
  cell_soc :: real
  cell_temperature_c :: real
  cell_v_rc :: real
  cell_age :: aging_state
  cell_fault :: "string option"
  cell_latched_error :: error_code
  aging_accum_s :: real
  last_step_current :: real
  at_top :: bool
  cycle_top_soc :: real
  cycle_bottom_soc :: real

definition ecm_cell_new :: "chemistry_params \<Rightarrow> real \<Rightarrow> real \<Rightarrow> ecm_cell" where
  "ecm_cell_new chem capacity soc =
     \<lparr>cell_chem = chem, cell_capacity_ah = capacity, cell_soc = soc, cell_temperature_c = 25,
      cell_v_rc = 0, cell_age = aging_new, cell_fault = None, cell_latched_error = NONE,
      aging_accum_s = 0, last_step_current = 0, at_top = True,
      cycle_top_soc = 0.5, cycle_bottom_soc = 0.5\<rparr>"

definition cell_soh :: "ecm_cell \<Rightarrow> real" where
  "cell_soh c = soh (cell_chem c) (cell_age c)"

definition q_effective :: "ecm_cell \<Rightarrow> real" where
  "q_effective c = max (capacity_ah_nominal (cell_chem c) * cell_soh c) 0.001"

definition inject_fault :: "string \<Rightarrow> ecm_cell \<Rightarrow> exn + ecm_cell" where
  "inject_fault name c =
     (if name \<notin> {''internal_short'', ''thermal_runaway'', ''swelling'', ''dead''} then Inl ValueErr
      else Inr (c\<lparr>cell_fault := Some name\<rparr>))"

definition read_state_latched :: "np_interp \<Rightarrow> bool \<Rightarrow> ecm_cell \<Rightarrow> exn + cell_state" where
  "read_state_latched np latched c =
     (let ocv = ocv_lookup np (cell_chem c) (cell_soc c) (cell_temperature_c c);
          current = (if latched then 0 else last_step_current c);
          voltage = (if latched then ocv - cell_v_rc c
            else ocv - current * r0 (cell_chem c) (cell_soc c) (cell_temperature_c c) - cell_v_rc c)
      in make_cell_state
           \<lparr>st_voltage_v = voltage, st_current_a = current,
            st_temperature_c = cell_temperature_c c, st_soc = cell_soc c, st_soh = cell_soh c,
            st_cycle_count = age_cycle_count (cell_age c), st_latched_error = cell_latched_error c\<rparr>)"

definition ecm_read_state :: "np_interp \<Rightarrow> ecm_cell \<Rightarrow> exn + cell_state" where
  "ecm_read_state np c = read_state_latched np (cell_latched_error c \<noteq> NONE) c"

subsection \<open>One tick\<close>

text \<open>The series resistance the heat balance uses, faults included.\<close>

definition step_r0 :: "ecm_cell \<Rightarrow> real" where
  "step_r0 c =
     (if cell_fault c = Some ''internal_short'' then 0.001
      else
        let r = r0 (cell_chem c) (cell_soc c) (cell_temperature_c c) in
        if cell_fault c = Some ''swelling'' \<and> 0.7 < cell_soc c
        then r * (1 + 0.01 * (sim_seconds_elapsed (cell_age c) / 86400)) else r)"

definition electrothermal :: "real \<Rightarrow> real \<Rightarrow> real \<Rightarrow> ecm_cell \<Rightarrow> ecm_cell" where
  "electrothermal current_a dt_s ambient_c c =
     (let chem = cell_chem c;
          r = step_r0 c;
          dsoc = - current_a * dt_s / (3600 * q_effective c);
          c = c\<lparr>cell_soc := clamp 0 1 (cell_soc c + dsoc)\<rparr>;
          dv_rc = (current_a / c1_farad chem - cell_v_rc c / (r1_ohm chem * c1_farad chem)) * dt_s;
          c = c\<lparr>cell_v_rc := cell_v_rc c + dv_rc\<rparr>;
          q_gen = current_a ^ 2 * r;
          dt_temp = (q_gen - h_a_w_per_k chem * (cell_temperature_c c - ambient_c))
                    / thermal_mass_j_per_k chem
      in c\<lparr>cell_temperature_c := cell_temperature_c c + dt_temp * dt_s\<rparr>)"

definition aging_tick :: "real \<Rightarrow> real \<Rightarrow> ecm_cell \<Rightarrow> ecm_cell" where
  "aging_tick current_a dt_s c =
     (let c = c\<lparr>aging_accum_s := aging_accum_s c + dt_s\<rparr>;
          delta_throughput = \<bar>current_a\<bar> * dt_s / 3600;
          c = c\<lparr>cell_age := snd (step_throughput_lli (cell_chem c) (cell_age c) delta_throughput)\<rparr>
      in if 1 \<le> aging_accum_s c
         then c\<lparr>cell_age := snd (step_calendar_lli (cell_chem c) (cell_age c) (aging_accum_s c)
                  (cell_soc c) (cell_temperature_c c)),
                aging_accum_s := 0\<rparr>
         else c)"

definition cycle_boundary :: "ecm_cell \<Rightarrow> ecm_cell" where
  "cycle_boundary c =
     (if at_top c \<and> cell_soc c < 0.95
      then c\<lparr>cycle_top_soc := cell_soc c, cycle_bottom_soc := cell_soc c, at_top := False\<rparr>
      else if \<not> at_top c \<and> 0.95 < cell_soc c
      then
        let dod = cycle_top_soc c - cycle_bottom_soc c;
            c = (if 0.5 < dod
                 then c\<lparr>cell_age := snd (on_cycle_complete (cell_chem c) (cell_age c) dod)\<rparr> else c)
        in c\<lparr>at_top := True\<rparr>
      else if \<not> at_top c
      then c\<lparr>cycle_bottom_soc := min (cycle_bottom_soc c) (cell_soc c)\<rparr>
      else c)"

definition ecm_step :: "np_interp \<Rightarrow> real \<Rightarrow> real \<Rightarrow> real \<Rightarrow> ecm_cell \<Rightarrow> (exn + cell_state) \<times> ecm_cell" where
  "ecm_step np current_a dt_s ambient_c c =
     (if cell_latched_error c \<noteq> NONE then (read_state_latched np True c, c)
      else
        let current_a = (if cell_fault c = Some ''dead'' then 0 else current_a);
            c = electrothermal current_a dt_s ambient_c c
        in if thermal_runaway_c (cell_chem c) < cell_temperature_c c
           then let c = c\<lparr>cell_latched_error := THERMAL_RUNAWAY\<rparr> in (read_state_latched np True c, c)
           else let c = aging_tick current_a dt_s c;
                    c = cycle_boundary c;
                    c = c\<lparr>last_step_current := current_a\<rparr>
                in (read_state_latched np False c, c))"

subsection \<open>Frame facts\<close>

lemma electrothermal_frame [simp]:
  "cell_chem (electrothermal i dt a c) = cell_chem c"
  "cell_age (electrothermal i dt a c) = cell_age c"
  "cell_fault (electrothermal i dt a c) = cell_fault c"
  "cell_latched_error (electrothermal i dt a c) = cell_latched_error c"
  "aging_accum_s (electrothermal i dt a c) = aging_accum_s c"
  by (simp_all add: electrothermal_def Let_def)

lemma aging_tick_frame [simp]:
  "cell_chem (aging_tick i dt c) = cell_chem c"
  "cell_soc (aging_tick i dt c) = cell_soc c"
  "cell_temperature_c (aging_tick i dt c) = cell_temperature_c c"
  "cell_fault (aging_tick i dt c) = cell_fault c"
  "cell_latched_error (aging_tick i dt c) = cell_latched_error c"
  by (simp_all add: aging_tick_def Let_def)

lemma cycle_boundary_frame [simp]:
  "cell_chem (cycle_boundary c) = cell_chem c"
  "cell_soc (cycle_boundary c) = cell_soc c"
  "cell_temperature_c (cycle_boundary c) = cell_temperature_c c"
  "cell_fault (cycle_boundary c) = cell_fault c"
  "cell_latched_error (cycle_boundary c) = cell_latched_error c"
  "aging_accum_s (cycle_boundary c) = aging_accum_s c"
  by (simp_all add: cycle_boundary_def Let_def)

lemma ecm_step_frame [simp]:
  "cell_chem (snd (ecm_step np i dt a c)) = cell_chem c"
  "cell_fault (snd (ecm_step np i dt a c)) = cell_fault c"
  by (simp_all add: ecm_step_def Let_def)

subsection \<open>The invariant\<close>

definition cell_ok :: "ecm_cell \<Rightarrow> bool" where
  "cell_ok c \<longleftrightarrow> chem_ok (cell_chem c) \<and> 0 \<le> cell_soc c \<and> cell_soc c \<le> 1 \<and> age_ok (cell_age c) \<and>
     0 \<le> aging_accum_s c"

lemma cell_ok_new: "chem_ok chem \<Longrightarrow> 0 \<le> s \<Longrightarrow> s \<le> 1 \<Longrightarrow> cell_ok (ecm_cell_new chem q s)"
  by (simp add: cell_ok_def ecm_cell_new_def)

lemma cell_soh_range: "0 \<le> cell_soh c \<and> cell_soh c \<le> 1"
  by (simp add: cell_soh_def soh_range)

lemma q_effective_pos: "0 < q_effective c"
  by (simp add: q_effective_def)

lemma read_state_latched_ok: "cell_ok c \<Longrightarrow> \<exists>s. read_state_latched np l c = Inr s"
  by (simp add: read_state_latched_def Let_def make_cell_state_def cell_ok_def cell_soh_range)

lemma ecm_read_state_ok: "cell_ok c \<Longrightarrow> \<exists>s. ecm_read_state np c = Inr s"
  by (simp add: ecm_read_state_def read_state_latched_ok)

lemma ecm_read_state_Inr:
  "ecm_read_state np c = Inr s \<Longrightarrow>
    st_temperature_c s = cell_temperature_c c \<and> st_soc s = cell_soc c \<and> st_soh s = cell_soh c \<and>
    st_latched_error s = cell_latched_error c \<and>
    st_current_a s = (if cell_latched_error c \<noteq> NONE then 0 else last_step_current c) \<and>
    0 \<le> st_soc s \<and> st_soc s \<le> 1 \<and> 0 \<le> st_soh s \<and> st_soh s \<le> 1"
  by (auto simp: ecm_read_state_def read_state_latched_def Let_def make_cell_state_def split: if_splits)

lemma electrothermal_soc: "0 \<le> cell_soc (electrothermal i dt a c) \<and> cell_soc (electrothermal i dt a c) \<le> 1"
  by (simp add: electrothermal_def Let_def)

lemma aging_tick_aged:
  assumes "chem_ok (cell_chem c)" "0 \<le> dt" "0 \<le> aging_accum_s c"
  shows "aged_from (cell_age c) (cell_age (aging_tick i dt c))" "0 \<le> aging_accum_s (aging_tick i dt c)"
proof -
  let ?a = "snd (step_throughput_lli (cell_chem c) (cell_age c) (\<bar>i\<bar> * dt / 3600))"
  have "aged_from (cell_age c) ?a" using assms(1) by (rule step_throughput_lli_aged)
  moreover have "aged_from ?a (snd (step_calendar_lli (cell_chem c) ?a (aging_accum_s c + dt)
      (cell_soc c) (cell_temperature_c c)))"
    using assms by (intro step_calendar_lli_aged) simp_all
  ultimately show "aged_from (cell_age c) (cell_age (aging_tick i dt c))"
    by (auto simp: aging_tick_def Let_def intro: aged_from_trans)
  show "0 \<le> aging_accum_s (aging_tick i dt c)"
    using assms by (simp add: aging_tick_def Let_def)
qed

lemma cycle_boundary_aged:
  "chem_ok (cell_chem c) \<Longrightarrow> aged_from (cell_age c) (cell_age (cycle_boundary c))"
  by (auto simp: cycle_boundary_def Let_def on_cycle_complete_aged)

lemma ecm_step_aged:
  assumes "cell_ok c" "0 \<le> dt"
  shows "aged_from (cell_age c) (cell_age (snd (ecm_step np i dt a c)))"
proof -
  define j where "j = (if cell_fault c = Some ''dead'' then 0 else i)"
  let ?e = "electrothermal j dt a c"
  have "aged_from (cell_age ?e) (cell_age (aging_tick j dt ?e))"
    using assms by (intro aging_tick_aged) (simp_all add: cell_ok_def)
  moreover have "aged_from (cell_age (aging_tick j dt ?e)) (cell_age (cycle_boundary (aging_tick j dt ?e)))"
    using assms by (intro cycle_boundary_aged) (simp add: cell_ok_def)
  ultimately have "aged_from (cell_age c) (cell_age (cycle_boundary (aging_tick j dt ?e)))"
    using aged_from_trans by simp
  then show ?thesis by (simp add: ecm_step_def Let_def j_def)
qed

lemma ecm_step_ok:
  assumes "cell_ok c" "0 \<le> dt"
  shows "cell_ok (snd (ecm_step np i dt a c))"
proof -
  have "age_ok (cell_age (snd (ecm_step np i dt a c)))"
    using assms age_ok_aged ecm_step_aged by (auto simp: cell_ok_def)
  moreover have "0 \<le> aging_accum_s (snd (ecm_step np i dt a c))"
    using assms aging_tick_aged(2) by (auto simp: ecm_step_def Let_def cell_ok_def)
  ultimately show ?thesis
    using assms electrothermal_soc by (auto simp: ecm_step_def Let_def cell_ok_def)
qed

lemma ecm_step_returns:
  assumes "cell_ok c" "0 \<le> dt"
  shows "\<exists>s. fst (ecm_step np i dt a c) = Inr s"
proof -
  have "cell_ok (snd (ecm_step np i dt a c))" using assms by (rule ecm_step_ok)
  then show ?thesis using read_state_latched_ok
    by (fastforce simp: ecm_step_def Let_def split: if_splits)
qed

lemma ecm_step_soh: "cell_ok c \<Longrightarrow> 0 \<le> dt \<Longrightarrow> cell_soh (snd (ecm_step np i dt a c)) \<le> cell_soh c"
  using ecm_step_aged [of c dt np i a] soh_antimono by (auto simp: cell_soh_def cell_ok_def)

lemma ecm_step_latched [simp]: "cell_latched_error c \<noteq> NONE \<Longrightarrow> snd (ecm_step np i dt a c) = c"
  by (simp add: ecm_step_def)

lemma ecm_step_latch_keeps:
  "cell_latched_error c \<noteq> NONE \<Longrightarrow> cell_latched_error (snd (ecm_step np i dt a c)) = cell_latched_error c"
  by simp

subsection \<open>Runs of ticks\<close>

fun ecm_run :: "np_interp \<Rightarrow> (real \<times> real \<times> real) list \<Rightarrow> ecm_cell \<Rightarrow> ecm_cell" where
  "ecm_run np [] c = c"
| "ecm_run np ((i, dt, a) # xs) c = ecm_run np xs (snd (ecm_step np i dt a c))"

lemma ecm_run_ok: "cell_ok c \<Longrightarrow> \<forall>(i, dt, a) \<in> set xs. 0 \<le> dt \<Longrightarrow> cell_ok (ecm_run np xs c)"
  by (induction np xs c rule: ecm_run.induct) (auto simp: ecm_step_ok)

lemma ecm_run_soh:
  "cell_ok c \<Longrightarrow> \<forall>(i, dt, a) \<in> set xs. 0 \<le> dt \<Longrightarrow> cell_soh (ecm_run np xs c) \<le> cell_soh c"
proof (induction np xs c rule: ecm_run.induct)
  case (2 np i dt a xs c)
  then have "cell_soh (ecm_run np xs (snd (ecm_step np i dt a c))) \<le> cell_soh (snd (ecm_step np i dt a c))"
    by (auto simp: ecm_step_ok)
  also have "\<dots> \<le> cell_soh c" using 2 by (auto intro: ecm_step_soh)
  finally show ?case by simp
qed simp

subsection \<open>Thermal balance\<close>

lemma electrothermal_temperature:
  "cell_temperature_c (electrothermal i dt a c) = cell_temperature_c c
     + (i ^ 2 * step_r0 c - h_a_w_per_k (cell_chem c) * (cell_temperature_c c - a))
       / thermal_mass_j_per_k (cell_chem c) * dt"
  by (simp add: electrothermal_def Let_def)

text \<open>
  One Euler step is a convex combination of the temperature and the equilibrium the heat
  source drives to, as long as the step is shorter than the thermal time constant.
\<close>

lemma electrothermal_convex:
  fixes c i a dt
  defines "l \<equiv> h_a_w_per_k (cell_chem c) * dt / thermal_mass_j_per_k (cell_chem c)"
  assumes "chem_ok (cell_chem c)"
  shows "cell_temperature_c (electrothermal i dt a c) =
    (1 - l) * cell_temperature_c c + l * (a + i ^ 2 * step_r0 c / h_a_w_per_k (cell_chem c))"
  using assms by (simp add: electrothermal_temperature chem_ok_def field_simps)

lemma convex_le: "(0::real) \<le> l \<Longrightarrow> l \<le> 1 \<Longrightarrow> x \<le> u \<Longrightarrow> y \<le> u \<Longrightarrow> (1 - l) * x + l * y \<le> u"
  using convex_bound_le [of x u y "1 - l" l] by simp

lemma convex_ge: "(0::real) \<le> l \<Longrightarrow> l \<le> 1 \<Longrightarrow> u \<le> x \<Longrightarrow> u \<le> y \<Longrightarrow> u \<le> (1 - l) * x + l * y"
  using convex_le [of l "- x" "- u" "- y"] by simp

text \<open>Without an injected fault, series resistance is at most 56.25 milliohm above 0 C.\<close>

lemma r0_bound:
  assumes "(n, chem) \<in> set CHEMISTRIES" "0 \<le> s" "s \<le> 1" "0 \<le> t"
  shows "r0 chem s t \<le> 0.05625"
proof -
  define edge where "edge = max 0 (0.1 - s) + max 0 (s - 0.9)"
  define base where "base = r0_25c_ohm chem * (1 + 0.5 * (edge * 5))"
  have e: "0 \<le> edge" "edge \<le> 0.1"
    using assms(2,3) by (auto simp: edge_def max_def)
  have r: "0 < r0_25c_ohm chem" "r0_25c_ohm chem \<le> 0.04" "r0_temp_coef_per_c chem = - 0.005"
    using assms(1) by (auto simp: CHEMISTRIES_def chem_defs)
  have "base \<le> 0.04 * 1.25" unfolding base_def
    using e r by (intro mult_mono) simp_all
  moreover have "0 \<le> base" unfolding base_def using e r by (intro mult_nonneg_nonneg) auto
  moreover have "1 + r0_temp_coef_per_c chem * (t - 25) \<le> 1.125" using assms(4) r by simp
  ultimately have "base * (1 + r0_temp_coef_per_c chem * (t - 25)) \<le> base * 1.125"
    and "base * 1.125 \<le> 0.05 * 1.125"
    by (simp_all only: mult_left_mono) simp
  then show ?thesis by (simp add: r0_def Let_def base_def edge_def)
qed

definition thermal_safe :: "ecm_cell \<Rightarrow> bool" where
  "thermal_safe c \<longleftrightarrow> cell_ok c \<and> (\<exists>n. (n, cell_chem c) \<in> set CHEMISTRIES) \<and>
     cell_fault c \<noteq> Some ''internal_short'' \<and> cell_fault c \<noteq> Some ''swelling'' \<and>
     0 \<le> cell_temperature_c c \<and> cell_temperature_c c \<le> 80 \<and> cell_latched_error c = NONE"

lemma thermal_safe_electrothermal:
  assumes "thermal_safe c" "\<bar>i\<bar> \<le> 10.5" "0 \<le> a" "a \<le> 60" "0 \<le> dt" "dt \<le> 200"
  shows "0 \<le> cell_temperature_c (electrothermal i dt a c) \<and> cell_temperature_c (electrothermal i dt a c) \<le> 80"
proof -
  from assms(1) obtain n where n: "(n, cell_chem c) \<in> set CHEMISTRIES" and ok: "cell_ok c"
    and f: "step_r0 c = r0 (cell_chem c) (cell_soc c) (cell_temperature_c c)"
    and t: "0 \<le> cell_temperature_c c" "cell_temperature_c c \<le> 80"
    by (auto simp: thermal_safe_def step_r0_def Let_def)
  have hm: "h_a_w_per_k (cell_chem c) = 0.4" "thermal_mass_j_per_k (cell_chem c) = 80"
    using n by (auto simp: CHEMISTRIES_def chem_defs)
  define l where "l = h_a_w_per_k (cell_chem c) * dt / thermal_mass_j_per_k (cell_chem c)"
  have l: "0 \<le> l" "l \<le> 1" using assms(5,6) by (simp_all add: l_def hm)
  have r: "0 \<le> step_r0 c" "step_r0 c \<le> 0.05625"
    using f n ok t r0_bound [OF n] r0_pos [of "cell_chem c" "cell_soc c" "cell_temperature_c c"]
    by (auto simp: cell_ok_def)
  have "i ^ 2 \<le> 10.5 ^ 2" using assms(2) by (subst abs_le_square_iff [symmetric]) simp
  with r have "i ^ 2 * step_r0 c \<le> 10.5 ^ 2 * 0.05625" by (intro mult_mono) simp_all
  then have q: "a + i ^ 2 * step_r0 c / h_a_w_per_k (cell_chem c) \<le> 80"
    using assms(4) by (simp add: hm power2_eq_square)
  have q0: "0 \<le> a + i ^ 2 * step_r0 c / h_a_w_per_k (cell_chem c)"
    using assms(3) r by (simp add: hm)
  show ?thesis
    using electrothermal_convex [of c i dt a] ok convex_le [OF l t(2) q] convex_ge [OF l t(1) q0]
    by (simp add: l_def cell_ok_def)
qed

lemma thermal_safe_step:
  assumes "thermal_safe c" "\<bar>i\<bar> \<le> 10.5" "0 \<le> a" "a \<le> 60" "0 \<le> dt" "dt \<le> 200"
  shows "thermal_safe (snd (ecm_step np i dt a c))"
proof -
  define j where "j = (if cell_fault c = Some ''dead'' then 0 else i)"
  have "\<bar>j\<bar> \<le> 10.5" using assms(2) by (simp add: j_def)
  then have t: "0 \<le> cell_temperature_c (electrothermal j dt a c)" "cell_temperature_c (electrothermal j dt a c) \<le> 80"
    using thermal_safe_electrothermal [OF assms(1) _ assms(3-6)] by auto
  have "130 \<le> thermal_runaway_c (cell_chem c)"
    using assms(1) by (auto simp: thermal_safe_def CHEMISTRIES_def chem_defs)
  with t have nr: "\<not> thermal_runaway_c (cell_chem c) < cell_temperature_c (electrothermal j dt a c)" by simp
  have "cell_ok (snd (ecm_step np i dt a c))" using assms ecm_step_ok by (simp add: thermal_safe_def)
  with assms(1) t nr show ?thesis
    by (simp add: thermal_safe_def ecm_step_def Let_def j_def [symmetric])
qed

end
