(* ===== verification/Channel.thy ===== *)
theory Channel
  imports Ecm
begin

section \<open>A cycler channel\<close>

text \<open>
  \<open>cycler/channel.py\<close>: one cell, its control law and its safety latch. A method that reads
  \<open>time.monotonic()\<close> takes the clock value \<open>now\<close> as an argument; a method that mutates the
  channel returns the new channel.
\<close>

record channel =
  ch_idx :: nat
  ch_cell :: ecm_cell
  ch_mode :: channel_mode
  ch_setpoint :: real
  ch_safety_v_max_mv :: int
  ch_safety_t_max_dc :: int
  ch_last_kick_wall_s :: real
  ch_latched_error :: error_code
  ch_cycle_index :: int
  ch_last_published_mode :: "channel_mode option"
  ch_cv_kp :: real
  ch_cv_current_limit_a :: real

text \<open>The constructor call of \<open>cycler.main\<close>: index, cell and \<open>safety_v_max_mv\<close> are given.\<close>

definition channel_new :: "real \<Rightarrow> nat \<Rightarrow> ecm_cell \<Rightarrow> int \<Rightarrow> channel" where
  "channel_new now idx cell v_max =
     \<lparr>ch_idx = idx, ch_cell = cell, ch_mode = Idle, ch_setpoint = 0, ch_safety_v_max_mv = v_max,
      ch_safety_t_max_dc = 600, ch_last_kick_wall_s = now, ch_latched_error = NONE,
      ch_cycle_index = 0, ch_last_published_mode = None, ch_cv_kp = 9, ch_cv_current_limit_a = 6\<rparr>"

definition kick_watchdog :: "real \<Rightarrow> channel \<Rightarrow> channel" where
  "kick_watchdog now ch = ch\<lparr>ch_last_kick_wall_s := now\<rparr>"

definition apply_command ::
  "real \<Rightarrow> channel_mode \<Rightarrow> real \<Rightarrow> int \<Rightarrow> int \<Rightarrow> channel \<Rightarrow> bool \<times> channel" where
  "apply_command now mode setpoint v_max t_max ch =
     (if ch_latched_error ch \<noteq> NONE \<and> mode \<noteq> Idle then (False, ch)
      else
        let changed = (ch_mode ch \<noteq> mode \<or> 0.000000001 < \<bar>ch_setpoint ch - setpoint\<bar>
              \<or> ch_safety_v_max_mv ch \<noteq> v_max \<or> ch_safety_t_max_dc ch \<noteq> t_max)
        in if \<not> changed then (False, ch)
           else (True, kick_watchdog now
                  (ch\<lparr>ch_mode := mode, ch_setpoint := setpoint,
                      ch_safety_v_max_mv := v_max, ch_safety_t_max_dc := t_max\<rparr>)))"

definition set_cycle_index :: "int \<Rightarrow> channel \<Rightarrow> channel" where
  "set_cycle_index idx ch = ch\<lparr>ch_cycle_index := max 0 idx\<rparr>"

definition channel_reset :: "channel \<Rightarrow> channel" where
  "channel_reset ch = ch\<lparr>ch_latched_error := NONE, ch_mode := Idle, ch_setpoint := 0\<rparr>"

definition halt :: "error_code \<Rightarrow> channel \<Rightarrow> channel" where
  "halt error ch =
     (let ch = (if ch_latched_error ch = NONE then ch\<lparr>ch_latched_error := error\<rparr> else ch)
      in ch\<lparr>ch_mode := Idle, ch_setpoint := 0\<rparr>)"

definition channel_read_state :: "np_interp \<Rightarrow> channel \<Rightarrow> exn + cell_state" where
  "channel_read_state np ch = ecm_read_state np (ch_cell ch)"

definition desired_current_a :: "channel \<Rightarrow> cell_state \<Rightarrow> real" where
  "desired_current_a ch state =
     (if ch_latched_error ch \<noteq> NONE then 0
      else if ch_mode ch = Idle \<or> ch_mode ch = Rest then 0
      else if ch_mode ch = Cc then ch_setpoint ch
      else if ch_mode ch = Cv then
        (let err = st_voltage_v state - ch_setpoint ch;
             i = ch_cv_kp ch * err
         in clamp (- ch_cv_current_limit_a ch) (ch_cv_current_limit_a ch) i)
      else if ch_mode ch = Cp then
        (let v = max (st_voltage_v state) 1;
             i = ch_setpoint ch / v
         in clamp (- ch_cv_current_limit_a ch) (ch_cv_current_limit_a ch) i)
      else 0)"

definition watchdog_expired :: "real \<Rightarrow> real \<Rightarrow> channel \<Rightarrow> bool" where
  "watchdog_expired now threshold_s ch =
     (if ch_mode ch = Idle then False else threshold_s < now - ch_last_kick_wall_s ch)"

subsection \<open>The latch\<close>

lemma halt_simps [simp]:
  "ch_mode (halt e ch) = Idle" "ch_setpoint (halt e ch) = 0" "ch_cell (halt e ch) = ch_cell ch"
  "ch_idx (halt e ch) = ch_idx ch" "ch_last_kick_wall_s (halt e ch) = ch_last_kick_wall_s ch"
  "ch_safety_v_max_mv (halt e ch) = ch_safety_v_max_mv ch"
  "ch_safety_t_max_dc (halt e ch) = ch_safety_t_max_dc ch"
  "ch_cycle_index (halt e ch) = ch_cycle_index ch"
  "ch_cv_current_limit_a (halt e ch) = ch_cv_current_limit_a ch"
  "ch_latched_error (halt e ch) = (if ch_latched_error ch = NONE then e else ch_latched_error ch)"
  by (simp_all add: halt_def Let_def)

lemma halt_changes: "ch_latched_error ch = NONE \<Longrightarrow> e \<noteq> NONE \<Longrightarrow> halt e ch \<noteq> ch"
  by (metis halt_simps(10))

lemma halt_idem: "e \<noteq> NONE \<Longrightarrow> halt e' (halt e ch) = halt e ch"
  by (simp add: halt_def Let_def)

lemma kick_watchdog_simps [simp]:
  "ch_mode (kick_watchdog n ch) = ch_mode ch" "ch_setpoint (kick_watchdog n ch) = ch_setpoint ch"
  "ch_cell (kick_watchdog n ch) = ch_cell ch" "ch_latched_error (kick_watchdog n ch) = ch_latched_error ch"
  "ch_last_kick_wall_s (kick_watchdog n ch) = n" "ch_idx (kick_watchdog n ch) = ch_idx ch"
  "ch_safety_v_max_mv (kick_watchdog n ch) = ch_safety_v_max_mv ch"
  "ch_safety_t_max_dc (kick_watchdog n ch) = ch_safety_t_max_dc ch"
  "ch_cycle_index (kick_watchdog n ch) = ch_cycle_index ch"
  "ch_cv_current_limit_a (kick_watchdog n ch) = ch_cv_current_limit_a ch"
  by (simp_all add: kick_watchdog_def)

lemma set_cycle_index_simps [simp]:
  "ch_mode (set_cycle_index n ch) = ch_mode ch" "ch_setpoint (set_cycle_index n ch) = ch_setpoint ch"
  "ch_cell (set_cycle_index n ch) = ch_cell ch" "ch_latched_error (set_cycle_index n ch) = ch_latched_error ch"
  "ch_cycle_index (set_cycle_index n ch) = max 0 n" "ch_idx (set_cycle_index n ch) = ch_idx ch"
  "ch_last_kick_wall_s (set_cycle_index n ch) = ch_last_kick_wall_s ch"
  "ch_safety_v_max_mv (set_cycle_index n ch) = ch_safety_v_max_mv ch"
  "ch_safety_t_max_dc (set_cycle_index n ch) = ch_safety_t_max_dc ch"
  "ch_cv_current_limit_a (set_cycle_index n ch) = ch_cv_current_limit_a ch"
  by (simp_all add: set_cycle_index_def)

lemma apply_command_frame [simp]:
  "ch_cell (snd (apply_command n m s v t ch)) = ch_cell ch"
  "ch_idx (snd (apply_command n m s v t ch)) = ch_idx ch"
  "ch_latched_error (snd (apply_command n m s v t ch)) = ch_latched_error ch"
  "ch_cycle_index (snd (apply_command n m s v t ch)) = ch_cycle_index ch"
  "ch_cv_current_limit_a (snd (apply_command n m s v t ch)) = ch_cv_current_limit_a ch"
  "ch_cv_kp (snd (apply_command n m s v t ch)) = ch_cv_kp ch"
  by (simp_all add: apply_command_def Let_def kick_watchdog_def)

text \<open>The invariant of a channel: a latched channel is idle, and its cell is well formed.\<close>

definition channel_ok :: "channel \<Rightarrow> bool" where
  "channel_ok ch \<longleftrightarrow> cell_ok (ch_cell ch) \<and> (ch_latched_error ch \<noteq> NONE \<longrightarrow> ch_mode ch = Idle) \<and>
     0 \<le> ch_cv_current_limit_a ch \<and> 0 \<le> ch_cycle_index ch"

lemma channel_ok_new: "cell_ok c \<Longrightarrow> channel_ok (channel_new now i c v)"
  by (simp add: channel_ok_def channel_new_def)

lemma channel_ok_halt: "channel_ok ch \<Longrightarrow> channel_ok (halt e ch)"
  by (simp add: channel_ok_def)

lemma channel_ok_kick: "channel_ok ch \<Longrightarrow> channel_ok (kick_watchdog n ch)"
  by (simp add: channel_ok_def)

lemma channel_ok_set_cycle_index: "channel_ok ch \<Longrightarrow> channel_ok (set_cycle_index n ch)"
  by (simp add: channel_ok_def)

lemma channel_ok_apply_command: "channel_ok ch \<Longrightarrow> channel_ok (snd (apply_command n m s v t ch))"
  by (auto simp: channel_ok_def apply_command_def Let_def)

lemma channel_ok_read: "channel_ok ch \<Longrightarrow> \<exists>s. channel_read_state np ch = Inr s"
  by (simp add: channel_read_state_def channel_ok_def ecm_read_state_ok)

lemmas channel_ok_intros = channel_ok_halt channel_ok_kick channel_ok_set_cycle_index channel_ok_apply_command

lemma desired_current_idle: "ch_mode ch = Idle \<Longrightarrow> desired_current_a ch s = 0"
  by (simp add: desired_current_a_def)

lemma desired_current_latched: "ch_latched_error ch \<noteq> NONE \<Longrightarrow> desired_current_a ch s = 0"
  by (simp add: desired_current_a_def)

lemma desired_current_bound:
  assumes "0 \<le> ch_cv_current_limit_a ch"
  shows "\<bar>desired_current_a ch s\<bar> \<le> (if ch_mode ch = Cc then \<bar>ch_setpoint ch\<bar> else ch_cv_current_limit_a ch)"
  using assms abs_clamp_sym by (auto simp: desired_current_a_def Let_def)

subsection \<open>Commands\<close>

text \<open>What an accepted command leaves behind.\<close>

lemma apply_command_accepts:
  assumes "ch_latched_error ch = NONE \<or> m = Idle"
  shows "ch_mode (snd (apply_command n m s v t ch)) = m"
    "\<bar>ch_setpoint (snd (apply_command n m s v t ch)) - s\<bar> \<le> 0.000000001"
    "ch_safety_v_max_mv (snd (apply_command n m s v t ch)) = v"
    "ch_safety_t_max_dc (snd (apply_command n m s v t ch)) = t"
  using assms by (auto simp: apply_command_def Let_def)

lemma apply_command_refuses:
  "ch_latched_error ch \<noteq> NONE \<Longrightarrow> m \<noteq> Idle \<Longrightarrow> apply_command n m s v t ch = (False, ch)"
  by (simp add: apply_command_def)

lemma apply_command_again:
  "apply_command n' m s v t (snd (apply_command n m s v t ch)) = (False, snd (apply_command n m s v t ch))"
  by (auto simp: apply_command_def Let_def kick_watchdog_def)

end
