(* ===== verification/Safety.thy ===== *)
theory Safety
  imports Channel
begin

section \<open>The cycler's safety loops\<close>

text \<open>
  \<open>cycler/safety.py\<close>, \<open>cycler/ambient.py\<close> and the channel construction of
  \<open>cycler/main.py\<close>. Each endless coroutine is modelled by the body of its loop, one
  iteration as a function of the clock and the shared state; the sleeps between iterations
  are where the other coroutines run, which the step relation of theory Chassis models.
\<close>

subsection \<open>The chassis dead-man\<close>

record kick_state =
  ks_last_kick_wall_s :: real
  ks_tripped :: bool

definition kick_state_new :: "real \<Rightarrow> kick_state" where
  "kick_state_new now = \<lparr>ks_last_kick_wall_s = now, ks_tripped = False\<rparr>"

definition ks_kick :: "real \<Rightarrow> kick_state \<Rightarrow> kick_state" where
  "ks_kick now k = k\<lparr>ks_last_kick_wall_s := now\<rparr>"

definition ks_expired :: "real \<Rightarrow> real \<Rightarrow> kick_state \<Rightarrow> bool" where
  "ks_expired now threshold_s k \<longleftrightarrow> threshold_s < now - ks_last_kick_wall_s k"

definition chassis_watchdog_tick ::
  "real \<Rightarrow> real \<Rightarrow> channel list \<Rightarrow> kick_state \<Rightarrow> channel list \<times> kick_state" where
  "chassis_watchdog_tick now threshold_s channels is_kicked =
     (if ks_expired now threshold_s is_kicked
      then (map (\<lambda>ch. if ch_mode ch \<noteq> Idle \<and> ch_latched_error ch = NONE
                       then halt WATCHDOG_TIMEOUT ch else ch) channels,
            is_kicked\<lparr>ks_tripped := True\<rparr>)
      else (channels, is_kicked\<lparr>ks_tripped := False\<rparr>))"

subsection \<open>The per-channel safety loop\<close>

definition safety_tick :: "np_interp \<Rightarrow> real \<Rightarrow> real \<Rightarrow> channel \<Rightarrow> exn + channel" where
  "safety_tick np now threshold_s ch =
     bind_sum (channel_read_state np ch) (\<lambda>state. Inr
       (if ch_latched_error ch = NONE then
          (let v_mv = py_int (st_voltage_v state * 1000);
               t_dc = py_int (st_temperature_c state * 10)
           in if ch_safety_v_max_mv ch < v_mv then halt OVERVOLTAGE ch
              else if ch_safety_t_max_dc ch < t_dc then halt OVERTEMP ch
              else if watchdog_expired now threshold_s ch then halt WATCHDOG_TIMEOUT ch
              else if st_latched_error state \<noteq> NONE then halt (st_latched_error state) ch
              else ch)
        else ch))"

subsection \<open>The physics loop\<close>

definition cell_tick :: "np_interp \<Rightarrow> real \<Rightarrow> real \<Rightarrow> channel \<Rightarrow> exn + channel" where
  "cell_tick np dt_sim ambient_c ch =
     bind_sum (channel_read_state np ch) (\<lambda>state.
       if ch_latched_error ch = NONE then
         (let current_a = desired_current_a ch state;
              (r, cell) = ecm_step np current_a dt_sim ambient_c (ch_cell ch);
              ch = ch\<lparr>ch_cell := cell\<rparr>
          in bind_sum r (\<lambda>_. bind_sum (channel_read_state np ch) (\<lambda>new_state. Inr
               (if st_latched_error new_state \<noteq> NONE then halt (st_latched_error new_state) ch else ch))))
       else
         (let (r, cell) = ecm_step np 0 dt_sim ambient_c (ch_cell ch)
          in bind_sum r (\<lambda>_. Inr (ch\<lparr>ch_cell := cell\<rparr>))))"

subsection \<open>Ambient temperature\<close>

record ambient_state =
  amb_value_c :: real
  amb_has_received :: bool

definition ambient_new :: "real \<Rightarrow> ambient_state" where
  "ambient_new default_c = \<lparr>amb_value_c = default_c, amb_has_received = False\<rparr>"

definition ambient_get :: "ambient_state \<Rightarrow> real" where
  "ambient_get a = amb_value_c a"

definition ambient_update :: "real \<Rightarrow> ambient_state \<Rightarrow> ambient_state" where
  "ambient_update c a = a\<lparr>amb_value_c := c, amb_has_received := True\<rparr>"

subsection \<open>Boot\<close>

definition make_channels :: "real \<Rightarrow> nat \<Rightarrow> string \<Rightarrow> exn + channel list" where
  "make_channels now n chemistry =
     bind_sum (get_chemistry chemistry) (\<lambda>chem. Inr
       (map (\<lambda>idx. channel_new now idx (ecm_cell_new chem (capacity_ah_nominal chem) 0.5) (v_max_mv chem))
         [0..<n]))"

lemma make_channels_ok: "make_channels now n chem = Inr chs \<Longrightarrow> list_all channel_ok chs \<and> length chs = n"
  by (auto simp: make_channels_def list_all_iff intro!: channel_ok_new cell_ok_new dest: get_chemistry_ok)

lemma make_channels_chem:
  "make_channels now n chem = Inr chs \<Longrightarrow> i < n \<Longrightarrow>
    chem_name (cell_chem (ch_cell (chs ! i))) = chem \<and>
    ch_safety_v_max_mv (chs ! i) = v_max_mv (cell_chem (ch_cell (chs ! i)))"
  by (auto simp: make_channels_def channel_new_def ecm_cell_new_def dest: get_chemistry_ok)

subsection \<open>What one iteration guarantees\<close>

text \<open>Any condition of the safety loop: over-voltage, over-temperature, silence or a cell latch.\<close>

definition hazard :: "np_interp \<Rightarrow> real \<Rightarrow> real \<Rightarrow> channel \<Rightarrow> bool" where
  "hazard np now threshold_s ch \<longleftrightarrow>
     (case channel_read_state np ch of
        Inl _ \<Rightarrow> False
      | Inr s \<Rightarrow> ch_safety_v_max_mv ch < py_int (st_voltage_v s * 1000)
          \<or> ch_safety_t_max_dc ch < py_int (st_temperature_c s * 10)
          \<or> watchdog_expired now threshold_s ch \<or> st_latched_error s \<noteq> NONE)"

lemma safety_tick_returns: "channel_ok ch \<Longrightarrow> \<exists>ch'. safety_tick np now th ch = Inr ch'"
  using channel_ok_read [of ch np] by (auto simp: safety_tick_def)

lemma safety_tick_cases:
  assumes "safety_tick np now th ch = Inr ch'"
  shows "ch' = ch \<or> (\<exists>e. e \<noteq> NONE \<and> ch_latched_error ch = NONE \<and> ch' = halt e ch)"
  using assms by (auto simp: safety_tick_def Let_def split: if_splits)

lemma safety_tick_ok: "channel_ok ch \<Longrightarrow> safety_tick np now th ch = Inr ch' \<Longrightarrow> channel_ok ch'"
  by (auto dest!: safety_tick_cases intro: channel_ok_halt)

lemma safety_tick_latches_iff:
  assumes "safety_tick np now th ch = Inr ch'" "ch_latched_error ch = NONE"
  shows "ch_latched_error ch' \<noteq> NONE \<longleftrightarrow> hazard np now th ch"
proof -
  obtain s where s: "channel_read_state np ch = Inr s"
    using assms(1) by (auto simp: safety_tick_def)
  have eq: "ch' = (if ch_safety_v_max_mv ch < py_int (st_voltage_v s * 1000) then halt OVERVOLTAGE ch
      else if ch_safety_t_max_dc ch < py_int (st_temperature_c s * 10) then halt OVERTEMP ch
      else if watchdog_expired now th ch then halt WATCHDOG_TIMEOUT ch
      else if st_latched_error s \<noteq> NONE then halt (st_latched_error s) ch else ch)"
    (is "_ = (if ?a then _ else if ?b then _ else if ?c then _ else if ?d then _ else _)")
    using assms s unfolding safety_tick_def Let_def by (simp only: bind_sum.simps simp_thms if_True sum.inject)
  have "hazard np now th ch \<longleftrightarrow> ?a \<or> ?b \<or> ?c \<or> ?d" by (simp add: hazard_def s)
  then show ?thesis
    unfolding eq using assms(2) by (cases ?a; cases ?b; cases ?c; cases ?d) (simp_all only: if_True if_False halt_simps, simp_all)
qed

lemma cell_tick_returns:
  assumes "channel_ok ch" "0 \<le> dt"
  shows "\<exists>ch'. cell_tick np dt amb ch = Inr ch'"
proof -
  obtain s where s: "channel_read_state np ch = Inr s" using assms channel_ok_read by blast
  have "\<exists>r. fst (ecm_step np i dt amb (ch_cell ch)) = Inr r" for i
    using assms by (intro ecm_step_returns) (simp_all add: channel_ok_def)
  moreover have "\<exists>r. channel_read_state np (ch\<lparr>ch_cell := snd (ecm_step np i dt amb (ch_cell ch))\<rparr>) = Inr r" for i
    using assms ecm_read_state_ok ecm_step_ok by (simp add: channel_read_state_def channel_ok_def)
  ultimately show ?thesis using s by (fastforce simp: cell_tick_def Let_def split_beta)
qed

lemma cell_tick_cases:
  assumes "cell_tick np dt amb ch = Inr ch'"
  obtains i s where "channel_read_state np ch = Inr s" "i = desired_current_a ch s"
    "ch_cell ch' = snd (ecm_step np i dt amb (ch_cell ch))"
    "ch' = ch\<lparr>ch_cell := ch_cell ch'\<rparr> \<or> (\<exists>e. e \<noteq> NONE \<and> ch' = halt e (ch\<lparr>ch_cell := ch_cell ch'\<rparr>))"
proof -
  obtain s where s: "channel_read_state np ch = Inr s"
    using assms by (auto simp: cell_tick_def)
  have "ch_cell ch' = snd (ecm_step np (desired_current_a ch s) dt amb (ch_cell ch)) \<and>
      (ch' = ch\<lparr>ch_cell := ch_cell ch'\<rparr> \<or> (\<exists>e. e \<noteq> NONE \<and> ch' = halt e (ch\<lparr>ch_cell := ch_cell ch'\<rparr>)))"
    using assms s by (auto simp: cell_tick_def Let_def split_beta desired_current_latched split: if_splits)
  with that [OF s refl] show ?thesis by blast
qed

lemma cell_tick_ok:
  assumes "channel_ok ch" "0 \<le> dt" "cell_tick np dt amb ch = Inr ch'"
  shows "channel_ok ch'"
proof -
  obtain i s where c: "ch_cell ch' = snd (ecm_step np i dt amb (ch_cell ch))"
    "ch' = ch\<lparr>ch_cell := ch_cell ch'\<rparr> \<or> (\<exists>e. e \<noteq> NONE \<and> ch' = halt e (ch\<lparr>ch_cell := ch_cell ch'\<rparr>))"
    by (rule cell_tick_cases [OF assms(3)])
  have "cell_ok (ch_cell ch')" using assms c(1) ecm_step_ok by (simp add: channel_ok_def)
  then have "channel_ok (ch\<lparr>ch_cell := ch_cell ch'\<rparr>)" using assms(1) by (simp add: channel_ok_def)
  with c(2) show ?thesis using channel_ok_halt by metis
qed

text \<open>Neither loop ever clears a latch, and neither activates an idle channel.\<close>

lemma safety_tick_keeps_latch:
  "safety_tick np now th ch = Inr ch' \<Longrightarrow> ch_latched_error ch \<noteq> NONE \<Longrightarrow> ch' = ch"
  by (auto dest: safety_tick_cases)

lemma cell_tick_keeps_latch:
  assumes "cell_tick np dt amb ch = Inr ch'"
  shows "ch_latched_error ch \<noteq> NONE \<Longrightarrow> ch_latched_error ch' = ch_latched_error ch"
    "ch_mode ch = Idle \<Longrightarrow> ch_mode ch' = Idle" "ch_idx ch' = ch_idx ch"
    "ch_last_kick_wall_s ch' = ch_last_kick_wall_s ch"
  by (rule cell_tick_cases [OF assms]; force)+

lemma chassis_watchdog_tick_length [simp]:
  "length (fst (chassis_watchdog_tick now th chs k)) = length chs"
  by (simp add: chassis_watchdog_tick_def)

lemma chassis_watchdog_tick_nth:
  "i < length chs \<Longrightarrow> fst (chassis_watchdog_tick now th chs k) ! i =
    (if ks_expired now th k \<and> ch_mode (chs ! i) \<noteq> Idle \<and> ch_latched_error (chs ! i) = NONE
     then halt WATCHDOG_TIMEOUT (chs ! i) else chs ! i)"
  by (simp add: chassis_watchdog_tick_def)

lemma chassis_watchdog_tick_ok:
  "list_all channel_ok chs \<Longrightarrow> list_all channel_ok (fst (chassis_watchdog_tick now th chs k))"
  by (auto simp: list_all_length chassis_watchdog_tick_nth channel_ok_halt)

text \<open>Chassis silence: every channel is idle right after the watchdog's pass.\<close>

lemma chassis_watchdog_tick_idle:
  assumes "list_all channel_ok chs" "ks_expired now th k" "i < length chs"
  shows "ch_mode (fst (chassis_watchdog_tick now th chs k) ! i) = Idle"
  using assms by (auto simp: chassis_watchdog_tick_nth list_all_length channel_ok_def)

end
