(* ===== verification/Chassis_Block.thy ===== *)
theory Chassis_Block
  imports Safety
begin

section \<open>The cycler's Modbus data block\<close>

text \<open>
  \<open>cycler/modbus_server.py\<close>: the register store of one chassis, the dispatch of register
  writes into the channels, the chemistry swap and the mirror loop.

  The store class \<open>ModbusSparseDataBlock\<close> belongs to pymodbus and is a parameter \<open>R\<close> of every
  definition: its constructor, \<open>setValues\<close> and \<open>getValues\<close>. The locale \<open>sparse_block\<close> states
  what the code relies on: a sparse block is a dictionary of the addresses it was built with.

  A setpoint whose 32 bits spell an infinity or a NaN has no counterpart in the real-valued
  model. The dispatcher records such a write in the ghost field \<open>cb_nonfinite\<close> and leaves the
  channel alone; nothing is claimed about the code once that field is set.
\<close>

record 's sparse_ops =
  sp_init :: "(nat \<times> int) list \<Rightarrow> 's"
  sp_set :: "'s \<Rightarrow> nat \<Rightarrow> int list \<Rightarrow> 's"
  sp_get :: "'s \<Rightarrow> nat \<Rightarrow> nat \<Rightarrow> int list"

definition sp_rd :: "'s sparse_ops \<Rightarrow> 's \<Rightarrow> nat \<Rightarrow> int" where
  "sp_rd R s a = hd (sp_get R s a 1)"

locale sparse_block =
  fixes R :: "'s sparse_ops" and has :: "'s \<Rightarrow> nat \<Rightarrow> bool"
  assumes has_init: "has (sp_init R xs) a \<longleftrightarrow> a \<in> fst ` set xs"
    and has_set: "(\<forall>k < length vs. has s (a + k)) \<Longrightarrow> has (sp_set R s a vs) b \<longleftrightarrow> has s b"
    and get_block: "(\<forall>k < n. has s (a + k)) \<Longrightarrow> sp_get R s a n = map (\<lambda>k. sp_rd R s (a + k)) [0..<n]"
    and rd_set: "(\<forall>k < length vs. has s (a + k)) \<Longrightarrow> has s b \<Longrightarrow>
      sp_rd R (sp_set R s a vs) b = (if a \<le> b \<and> b < a + length vs then vs ! (b - a) else sp_rd R s b)"

record 's chassis_block =
  cb_store :: 's
  cb_channels :: "channel list"
  cb_kick :: kick_state
  cb_nonfinite :: bool

definition upd_channel :: "nat \<Rightarrow> (channel \<Rightarrow> channel) \<Rightarrow> 's chassis_block \<Rightarrow> 's chassis_block" where
  "upd_channel i f cb = cb\<lparr>cb_channels := (cb_channels cb)[i := f (cb_channels cb ! i)]\<rparr>"

subsection \<open>Construction\<close>

definition block_addresses :: "nat \<Rightarrow> (nat \<times> int) list" where
  "block_addresses n =
     concat (map (\<lambda>i. map (\<lambda>off. (channel_base i + off, 0)) [0..<CHANNEL_BLOCK_SIZE]) [0..<n])
     @ map (\<lambda>off. (CHASSIS_BASE + off, 0)) [0..<20]"

fun write_all :: "'s sparse_ops \<Rightarrow> (nat \<times> int list) list \<Rightarrow> 's \<Rightarrow> 's" where
  "write_all R [] s = s"
| "write_all R ((a, vs) # ws) s = write_all R ws (sp_set R s a vs)"

definition block_init ::
  "'s sparse_ops \<Rightarrow> channel list \<Rightarrow> kick_state \<Rightarrow> int \<Rightarrow> exn + 's chassis_block" where
  "block_init R channels kick_state chassis_id =
     (let s = sp_init R (block_addresses (length channels));
          s = write_all R
            [(xreg CHASSIS_ID, [chassis_id]), (xreg FIRMWARE_VERSION_REG, [FIRMWARE_VERSION]),
             (xreg TOTAL_CHANNELS, [int (length channels)]), (xreg PROTOCOL_VERSION_REG, [PROTOCOL_VERSION])] s
      in bind_sum
           (if channels = [] then Inr s
            else bind_sum (chemistry_id_for_name (chem_name (cell_chem (ch_cell (channels ! 0)))))
              (\<lambda>v. Inr (sp_set R s (xreg CHEMISTRY) [v])))
           (\<lambda>s. Inr
              \<lparr>cb_store = write_all R
                 (concat (map (\<lambda>i.
                    [(channel_base i + creg SAFETY_V_MAX_MV, [ch_safety_v_max_mv (channels ! i)]),
                     (channel_base i + creg SAFETY_T_MAX_DC, [ch_safety_t_max_dc (channels ! i)])])
                    [0..<length channels])) s,
               cb_channels = channels, cb_kick = kick_state, cb_nonfinite = False\<rparr>))"

subsection \<open>Write dispatch\<close>

definition swap_chemistry :: "chemistry_params \<Rightarrow> channel \<Rightarrow> channel" where
  "swap_chemistry chem ch = ch\<lparr>ch_cell := ecm_cell_new chem (capacity_ah_nominal chem) 0.5,
     ch_mode := Idle, ch_setpoint := 0, ch_latched_error := NONE,
     ch_safety_v_max_mv := v_max_mv chem, ch_cycle_index := 0\<rparr>"

definition set_chemistry :: "int \<Rightarrow> 's chassis_block \<Rightarrow> exn + 's chassis_block" where
  "set_chemistry chem_id_value cb =
     (case chemistry_name_for_id chem_id_value of
        Inl _ \<Rightarrow> Inr cb
      | Inr name \<Rightarrow>
          if cb_channels cb = [] then Inr cb
          else
            let current = chem_name (cell_chem (ch_cell (cb_channels cb ! 0))) in
            if current = name then Inr cb
            else bind_sum (get_chemistry name) (\<lambda>chem.
              Inr (cb\<lparr>cb_channels := map (swap_chemistry chem) (cb_channels cb)\<rparr>)))"

definition dispatch_channel :: "'s sparse_ops \<Rightarrow> real \<Rightarrow> nat \<Rightarrow> nat \<Rightarrow> 's chassis_block \<Rightarrow> 's chassis_block" where
  "dispatch_channel R now idx offset cb =
     (let base = channel_base idx; s = cb_store cb in
      if offset = creg WATCHDOG_KICK then upd_channel idx (kick_watchdog now) cb
      else if offset = creg CYCLE_COUNT then
        upd_channel idx (set_cycle_index (sp_rd R s (base + creg CYCLE_COUNT))) cb
      else if offset \<in> {creg MODE, creg SETPOINT_HI, creg SETPOINT_LO, creg SAFETY_V_MAX_MV, creg SAFETY_T_MAX_DC} then
        (let mode_v = sp_rd R s (base + creg MODE);
             sp_words = sp_get R s (base + creg SETPOINT_HI) 2;
             v_max = sp_rd R s (base + creg SAFETY_V_MAX_MV);
             t_max = sp_rd R s (base + creg SAFETY_T_MAX_DC);
             mode = mode_or_idle mode_v
         in case decode_f32 (sp_words ! 0) (sp_words ! 1) of
              None \<Rightarrow> cb\<lparr>cb_nonfinite := True\<rparr>
            | Some sp \<Rightarrow> upd_channel idx (\<lambda>ch. snd (apply_command now mode sp v_max t_max ch)) cb)
      else cb)"

definition dispatch :: "'s sparse_ops \<Rightarrow> real \<Rightarrow> nat \<Rightarrow> 's chassis_block \<Rightarrow> exn + 's chassis_block" where
  "dispatch R now addr cb =
     (if CHASSIS_BASE \<le> addr then
        (if addr = xreg CHASSIS_WATCHDOG_KICK then Inr (cb\<lparr>cb_kick := ks_kick now (cb_kick cb)\<rparr>)
         else if addr = xreg CHEMISTRY then set_chemistry (sp_rd R (cb_store cb) (xreg CHEMISTRY)) cb
         else Inr cb)
      else
        let idx = addr div CHANNEL_BLOCK_SIZE in
        if length (cb_channels cb) \<le> idx then Inr cb
        else Inr (dispatch_channel R now idx (addr - channel_base idx) cb))"

fun dispatch_all :: "'s sparse_ops \<Rightarrow> real \<Rightarrow> nat list \<Rightarrow> 's chassis_block \<Rightarrow> exn + 's chassis_block" where
  "dispatch_all R now [] cb = Inr cb"
| "dispatch_all R now (a # as) cb = bind_sum (dispatch R now a cb) (dispatch_all R now as)"

definition set_values ::
  "'s sparse_ops \<Rightarrow> real \<Rightarrow> nat \<Rightarrow> int list \<Rightarrow> 's chassis_block \<Rightarrow> exn + 's chassis_block" where
  "set_values R now address values cb =
     (let cb = cb\<lparr>cb_store := sp_set R (cb_store cb) address values\<rparr>
      in dispatch_all R now (map (\<lambda>offset. address + offset) [0..<length values]) cb)"

subsection \<open>The mirror loop\<close>

definition mirror_writes :: "nat \<Rightarrow> channel \<Rightarrow> cell_state \<Rightarrow> int \<times> int \<Rightarrow> (nat \<times> int list) list" where
  "mirror_writes i ch s sp =
     (let base = channel_base i in
      [(base + creg MODE, [mode_to_int (ch_mode ch)]),
       (base + creg SETPOINT_HI, [fst sp, snd sp]),
       (base + creg VOLTAGE_MV, [u16_clamp (st_voltage_v s * 1000)]),
       (base + creg CURRENT_MA, [to_int16_signed (py_int (st_current_a s * 1000))]),
       (base + creg TEMP_DC, [u16_clamp (st_temperature_c s * 10)]),
       (base + creg SOC_PCTH, [u16_clamp (st_soc s * 10000)]),
       (base + creg SOH_PCTH, [u16_clamp (st_soh s * 10000)]),
       (base + creg WATCHDOG_STATUS, [if ch_latched_error ch = WATCHDOG_TIMEOUT then 1 else 0]),
       (base + creg LAST_ERROR, [error_code_int (ch_latched_error ch)]),
       (base + creg CYCLE_COUNT, [u16_clamp (of_int (ch_cycle_index ch))])])"

fun mirror_channels ::
  "np_interp \<Rightarrow> 's sparse_ops \<Rightarrow> nat \<Rightarrow> channel list \<Rightarrow> 's \<Rightarrow> exn + 's" where
  "mirror_channels np R i [] s = Inr s"
| "mirror_channels np R i (ch # chs) s =
     bind_sum (channel_read_state np ch) (\<lambda>st.
     bind_sum (encode_f32 (ch_setpoint ch)) (\<lambda>sp.
       mirror_channels np R (Suc i) chs (write_all R (mirror_writes i ch st sp) s)))"

definition mirror_tick :: "np_interp \<Rightarrow> 's sparse_ops \<Rightarrow> 's chassis_block \<Rightarrow> exn + 's chassis_block" where
  "mirror_tick np R cb =
     bind_sum (mirror_channels np R 0 (cb_channels cb) (cb_store cb)) (\<lambda>s.
       let s = sp_set R s (xreg CHASSIS_WATCHDOG_STATUS) [if ks_tripped (cb_kick cb) then 1 else 0] in
       if cb_channels cb = [] then Inr (cb\<lparr>cb_store := s\<rparr>)
       else bind_sum (chemistry_id_for_name (chem_name (cell_chem (ch_cell (cb_channels cb ! 0))))) (\<lambda>v.
         Inr (cb\<lparr>cb_store := sp_set R s (xreg CHEMISTRY) [v]\<rparr>)))"

subsection \<open>A dictionary is such a store\<close>

definition dict_ops :: "(nat \<Rightarrow> int option) sparse_ops" where
  "dict_ops = \<lparr>sp_init = map_of,
     sp_set = (\<lambda>m a vs b. if a \<le> b \<and> b < a + length vs then Some (vs ! (b - a)) else m b),
     sp_get = (\<lambda>m a n. map (\<lambda>k. case m (a + k) of Some v \<Rightarrow> v | None \<Rightarrow> 0) [0..<n])\<rparr>"

interpretation dict: sparse_block dict_ops "\<lambda>m a. m a \<noteq> None"
proof unfold_locales
  fix xs :: "(nat \<times> int) list" and a
  show "sp_init dict_ops xs a \<noteq> None \<longleftrightarrow> a \<in> fst ` set xs"
    by (simp add: dict_ops_def map_of_eq_None_iff)
next
  fix vs :: "int list" and s :: "nat \<Rightarrow> int option" and a b
  assume *: "\<forall>k < length vs. s (a + k) \<noteq> None"
  have "s b \<noteq> None" if "a \<le> b" "b < a + length vs"
    using * [rule_format, of "b - a"] that by simp
  then show "sp_set dict_ops s a vs b \<noteq> None \<longleftrightarrow> s b \<noteq> None"
    by (simp add: dict_ops_def)
next
  fix n a and s :: "nat \<Rightarrow> int option"
  show "sp_get dict_ops s a n = map (\<lambda>k. sp_rd dict_ops s (a + k)) [0..<n]"
    by (simp add: dict_ops_def sp_rd_def)
next
  fix vs :: "int list" and s :: "nat \<Rightarrow> int option" and a b
  show "sp_rd dict_ops (sp_set dict_ops s a vs) b
      = (if a \<le> b \<and> b < a + length vs then vs ! (b - a) else sp_rd dict_ops s b)"
    by (simp add: dict_ops_def sp_rd_def)
qed

subsection \<open>Reading back what was written\<close>

text \<open>The value a list of writes leaves at an address: the last write that covers it.\<close>

fun last_write :: "(nat \<times> int list) list \<Rightarrow> nat \<Rightarrow> int \<Rightarrow> int" where
  "last_write [] b d = d"
| "last_write ((a, vs) # ws) b d = last_write ws b (if a \<le> b \<and> b < a + length vs then vs ! (b - a) else d)"

lemma last_write_outside:
  "(\<And>a vs. (a, vs) \<in> set ws \<Longrightarrow> \<not> (a \<le> b \<and> b < a + length vs)) \<Longrightarrow> last_write ws b d = d"
proof (induction ws arbitrary: d)
  case (Cons w ws)
  obtain a vs where "w = (a, vs)" by (cases w)
  with Cons.prems have n: "\<not> (a \<le> b \<and> b < a + length vs)" by simp
  have "last_write ws b d = d" using Cons.prems by (intro Cons.IH) simp
  with n \<open>w = (a, vs)\<close> show ?case by auto
qed simp

text \<open>Addresses a store has: the blocks of \<open>n\<close> channels and the twenty chassis registers.\<close>

definition covers :: "('s \<Rightarrow> nat \<Rightarrow> bool) \<Rightarrow> nat \<Rightarrow> 's \<Rightarrow> bool" where
  "covers has n s \<longleftrightarrow>
     (\<forall>i < n. \<forall>k < CHANNEL_BLOCK_SIZE. has s (channel_base i + k)) \<and> (\<forall>k < 20. has s (CHASSIS_BASE + k))"

lemma covers_creg: "covers has n s \<Longrightarrow> i < n \<Longrightarrow> has s (channel_base i + creg r)"
  using creg_less_block by (auto simp: covers_def)

lemma covers_setpoint: "covers has n s \<Longrightarrow> i < n \<Longrightarrow> k < 2 \<Longrightarrow> has s (channel_base i + creg SETPOINT_HI + k)"
  by (auto simp: covers_def CHANNEL_BLOCK_SIZE_def add.assoc simp del: One_nat_def)

lemma covers_xreg: "covers has n s \<Longrightarrow> has s (xreg r)"
  unfolding covers_def by (elim conjE allE [of _ "xreg r - CHASSIS_BASE"]) (cases r; simp add: CHASSIS_BASE_def)

definition writes_in :: "('s \<Rightarrow> nat \<Rightarrow> bool) \<Rightarrow> 's \<Rightarrow> nat \<Rightarrow> int list \<Rightarrow> bool" where
  "writes_in has s a vs \<longleftrightarrow> (\<forall>k < length vs. has s (a + k))"

lemma writes_in_single [simp]: "writes_in has s a [v] \<longleftrightarrow> has s a"
  by (simp add: writes_in_def)

lemma writes_in_pair [simp]: "writes_in has s a [v, w] \<longleftrightarrow> has s a \<and> has s (a + 1)"
  by (auto simp: writes_in_def less_Suc_eq)

context sparse_block
begin

lemma has_sp_set [simp]: "writes_in has s a vs \<Longrightarrow> has (sp_set R s a vs) b \<longleftrightarrow> has s b"
  using has_set by (simp add: writes_in_def)

lemma writes_in_sp_set: "writes_in has s a vs \<Longrightarrow> writes_in has (sp_set R s a vs) b ws \<longleftrightarrow> writes_in has s b ws"
  unfolding writes_in_def [of _ _ b] by simp

lemma rd_sp_set:
  "writes_in has s a vs \<Longrightarrow> has s b \<Longrightarrow>
    sp_rd R (sp_set R s a vs) b = (if a \<le> b \<and> b < a + length vs then vs ! (b - a) else sp_rd R s b)"
  using rd_set by (simp add: writes_in_def)

lemma covers_sp_set: "writes_in has s a vs \<Longrightarrow> covers has n (sp_set R s a vs) \<longleftrightarrow> covers has n s"
  by (simp add: covers_def)

lemma write_all_has:
  "(\<And>a vs. (a, vs) \<in> set ws \<Longrightarrow> writes_in has s a vs) \<Longrightarrow> has (write_all R ws s) b \<longleftrightarrow> has s b"
proof (induction ws arbitrary: s)
  case (Cons w ws)
  obtain a vs where w: "w = (a, vs)" by (cases w)
  with Cons.prems have i: "writes_in has s a vs" by simp
  have "has (write_all R ws (sp_set R s a vs)) b \<longleftrightarrow> has (sp_set R s a vs) b"
    using Cons.prems by (intro Cons.IH) (simp add: writes_in_sp_set [OF i])
  with i w show ?case by simp
qed simp

lemma write_all_rd:
  "(\<And>a vs. (a, vs) \<in> set ws \<Longrightarrow> writes_in has s a vs) \<Longrightarrow> has s b \<Longrightarrow>
    sp_rd R (write_all R ws s) b = last_write ws b (sp_rd R s b)"
proof (induction ws arbitrary: s)
  case (Cons w ws)
  obtain a vs where w: "w = (a, vs)" by (cases w)
  with Cons.prems have i: "writes_in has s a vs" by simp
  have "sp_rd R (write_all R ws (sp_set R s a vs)) b = last_write ws b (sp_rd R (sp_set R s a vs) b)"
    using Cons.prems i by (intro Cons.IH) (simp_all add: writes_in_sp_set [OF i])
  with i w show ?case using Cons.prems by (simp add: rd_sp_set)
qed simp

lemma get_two:
  "has s a \<Longrightarrow> has s (Suc a) \<Longrightarrow> sp_get R s a 2 = [sp_rd R s a, sp_rd R s (Suc a)]"
  using get_block [of 2 s a] by (simp add: numeral_2_eq_2 less_Suc_eq)

lemma mirror_writes_in:
  assumes "covers has n s" "i < n" "(a, vs) \<in> set (mirror_writes i ch st sp)"
  shows "writes_in has s a vs"
proof -
  have "has s (channel_base i + creg SETPOINT_HI + 1)" using covers_setpoint [OF assms(1,2), of 1] by simp
  then show ?thesis using assms(3) covers_creg [OF assms(1,2)]
    by (auto simp: mirror_writes_def Let_def simp del: creg.simps)
qed

lemma mirror_channels_spec:
  assumes "mirror_channels np R j chs s = Inr s'" "covers has n s" "j + length chs \<le> n"
  shows "covers has n s' \<and> (\<forall>b. has s b \<longrightarrow> sp_rd R s' b =
    (if j \<le> b div CHANNEL_BLOCK_SIZE \<and> b div CHANNEL_BLOCK_SIZE < j + length chs
     then let i = b div CHANNEL_BLOCK_SIZE; ch = chs ! (i - j)
          in last_write (mirror_writes i ch (projr (channel_read_state np ch))
               (projr (encode_f32 (ch_setpoint ch)))) b (sp_rd R s b)
     else sp_rd R s b))"
  using assms
proof (induction chs arbitrary: j s)
  case Nil
  then show ?case by simp
next
  case (Cons ch chs)
  obtain st sp where st: "channel_read_state np ch = Inr st" "encode_f32 (ch_setpoint ch) = Inr sp"
    and rest: "mirror_channels np R (Suc j) chs (write_all R (mirror_writes j ch st sp) s) = Inr s'"
    using Cons.prems(1) by auto
  let ?w = "mirror_writes j ch st sp" and ?s = "write_all R (mirror_writes j ch st sp) s"
  have j: "j < n" using Cons.prems(3) by simp
  have wi: "(a, vs) \<in> set ?w \<Longrightarrow> writes_in has s a vs" for a vs
    using mirror_writes_in [OF Cons.prems(2) j] by blast
  have h: "has ?s b \<longleftrightarrow> has s b" for b using wi by (rule write_all_has)
  have cov: "covers has n ?s" using Cons.prems(2) by (simp add: covers_def h)
  have out: "last_write ?w b d = d" if "b div CHANNEL_BLOCK_SIZE \<noteq> j" for b d
  proof (rule last_write_outside)
    fix a vs assume "(a, vs) \<in> set ?w"
    then have "a div 50 = j" "(a + length vs - 1) div 50 = j" "0 < length vs"
      by (auto simp: mirror_writes_def Let_def channel_base_def CHANNEL_BLOCK_SIZE_def)
    with that show "\<not> (a \<le> b \<and> b < a + length vs)"
      unfolding CHANNEL_BLOCK_SIZE_def
      by (metis Suc_pred' add_gr_0 div_le_mono le_antisym less_Suc_eq_le)
  qed
  have rd: "has s b \<Longrightarrow> sp_rd R ?s b = last_write ?w b (sp_rd R s b)" for b
    using wi by (rule write_all_rd)
  from Cons.IH [OF rest cov] Cons.prems(3)
  have IH: "covers has n s'" "\<And>b. has s b \<Longrightarrow> sp_rd R s' b =
      (if Suc j \<le> b div CHANNEL_BLOCK_SIZE \<and> b div CHANNEL_BLOCK_SIZE < Suc j + length chs
       then let i = b div CHANNEL_BLOCK_SIZE; ch = chs ! (i - Suc j)
            in last_write (mirror_writes i ch (projr (channel_read_state np ch))
               (projr (encode_f32 (ch_setpoint ch)))) b (sp_rd R ?s b)
       else sp_rd R ?s b)"
    by (simp_all add: h)
  show ?case
  proof (intro conjI allI impI, rule IH(1))
    fix b assume hb: "has s b"
    consider "b div CHANNEL_BLOCK_SIZE = j" | "b div CHANNEL_BLOCK_SIZE < j" | "j < b div CHANNEL_BLOCK_SIZE"
      by linarith
    then show "sp_rd R s' b =
      (if j \<le> b div CHANNEL_BLOCK_SIZE \<and> b div CHANNEL_BLOCK_SIZE < j + length (ch # chs)
       then let i = b div CHANNEL_BLOCK_SIZE; c = (ch # chs) ! (i - j)
            in last_write (mirror_writes i c (projr (channel_read_state np c))
               (projr (encode_f32 (ch_setpoint c)))) b (sp_rd R s b)
       else sp_rd R s b)"
      by cases (simp_all add: IH(2) [OF hb] rd [OF hb] out st Let_def nth_Cons' Suc_diff_Suc not_less)
  qed
qed

end

end
