(* ===== verification/Chassis.thy ===== *)
theory Chassis
  imports Chassis_Block
begin

section \<open>One cycler container as a state machine\<close>

text \<open>
  The coroutines of \<open>cycler/main.py\<close> run on one event loop and interleave only where they
  sleep, so a run of the container is a sequence of events: one iteration of some loop, one
  Modbus write, one ambient message, or the passing of wall time. \<open>chassis_exec\<close> is the step
  of each event; \<open>chassis_run\<close> a run. Every ordering of the events is covered.
\<close>

record 's chassis_sys =
  sys_block :: "'s chassis_block"
  sys_ambient :: ambient_state
  sys_now :: real

datatype chassis_event =
    Advance real | CellTick nat | SafetyTick nat | WatchdogTick | MirrorTick
  | WriteRegs nat "int list" | AmbientMsg real

record chassis_cfg =
  cfg_dt_sim :: real
  cfg_channel_threshold_s :: real
  cfg_chassis_threshold_s :: real

definition on_channel ::
  "nat \<Rightarrow> (channel \<Rightarrow> exn + channel) \<Rightarrow> 's chassis_sys \<Rightarrow> exn + 's chassis_sys" where
  "on_channel i f sys =
     bind_sum (f (cb_channels (sys_block sys) ! i)) (\<lambda>ch.
       Inr (sys\<lparr>sys_block := upd_channel i (\<lambda>_. ch) (sys_block sys)\<rparr>))"

fun chassis_exec ::
  "np_interp \<Rightarrow> 's sparse_ops \<Rightarrow> chassis_cfg \<Rightarrow> chassis_event \<Rightarrow> 's chassis_sys \<Rightarrow> exn + 's chassis_sys" where
  "chassis_exec np R cfg (Advance d) sys = Inr (sys\<lparr>sys_now := sys_now sys + d\<rparr>)"
| "chassis_exec np R cfg (CellTick i) sys =
     on_channel i (cell_tick np (cfg_dt_sim cfg) (ambient_get (sys_ambient sys))) sys"
| "chassis_exec np R cfg (SafetyTick i) sys =
     on_channel i (safety_tick np (sys_now sys) (cfg_channel_threshold_s cfg)) sys"
| "chassis_exec np R cfg WatchdogTick sys =
     (let cb = sys_block sys;
          (chs, k) = chassis_watchdog_tick (sys_now sys) (cfg_chassis_threshold_s cfg) (cb_channels cb) (cb_kick cb)
      in Inr (sys\<lparr>sys_block := cb\<lparr>cb_channels := chs, cb_kick := k\<rparr>\<rparr>))"
| "chassis_exec np R cfg MirrorTick sys =
     bind_sum (mirror_tick np R (sys_block sys)) (\<lambda>cb. Inr (sys\<lparr>sys_block := cb\<rparr>))"
| "chassis_exec np R cfg (WriteRegs a vs) sys =
     bind_sum (set_values R (sys_now sys) a vs (sys_block sys)) (\<lambda>cb. Inr (sys\<lparr>sys_block := cb\<rparr>))"
| "chassis_exec np R cfg (AmbientMsg c) sys = Inr (sys\<lparr>sys_ambient := ambient_update c (sys_ambient sys)\<rparr>)"

fun chassis_run ::
  "np_interp \<Rightarrow> 's sparse_ops \<Rightarrow> chassis_cfg \<Rightarrow> chassis_event list \<Rightarrow> 's chassis_sys \<Rightarrow> exn + 's chassis_sys" where
  "chassis_run np R cfg [] sys = Inr sys"
| "chassis_run np R cfg (e # es) sys = bind_sum (chassis_exec np R cfg e sys) (chassis_run np R cfg es)"

abbreviation sys_channels :: "'s chassis_sys \<Rightarrow> channel list" where
  "sys_channels sys \<equiv> cb_channels (sys_block sys)"

abbreviation sys_store :: "'s chassis_sys \<Rightarrow> 's" where
  "sys_store sys \<equiv> cb_store (sys_block sys)"

text \<open>
  The events a container with \<open>n\<close> channels can see: existing channels, writes inside the
  register map (pymodbus rejects the others), time forward.
\<close>

definition mapped :: "nat \<Rightarrow> nat \<Rightarrow> bool" where
  "mapped n a \<longleftrightarrow> a < n * CHANNEL_BLOCK_SIZE \<or> CHASSIS_BASE \<le> a \<and> a < CHASSIS_BASE + 20"

fun event_ok :: "nat \<Rightarrow> chassis_event \<Rightarrow> bool" where
  "event_ok n (Advance d) \<longleftrightarrow> 0 \<le> d"
| "event_ok n (CellTick i) \<longleftrightarrow> i < n"
| "event_ok n (SafetyTick i) \<longleftrightarrow> i < n"
| "event_ok n (WriteRegs a vs) \<longleftrightarrow> list_all (\<lambda>k. mapped n (a + k)) [0..<length vs]"
| "event_ok n _ \<longleftrightarrow> True"

subsection \<open>The invariant\<close>

text \<open>
  Every channel is well formed, all cells have the same shipped chemistry, every setpoint is a
  binary32 number (so it can be mirrored), and the store has all the registers.
\<close>

definition channels_ok :: "channel list \<Rightarrow> bool" where
  "channels_ok chs \<longleftrightarrow> list_all channel_ok chs \<and> list_all (\<lambda>ch. f32_exact (ch_setpoint ch)) chs \<and>
     (\<exists>c. (chem_name c, c) \<in> set CHEMISTRIES \<and> list_all (\<lambda>ch. cell_chem (ch_cell ch) = c) chs)"

definition block_ok :: "('s \<Rightarrow> nat \<Rightarrow> bool) \<Rightarrow> 's chassis_block \<Rightarrow> bool" where
  "block_ok has cb \<longleftrightarrow> channels_ok (cb_channels cb) \<and> length (cb_channels cb) \<le> 200 \<and>
     covers has (length (cb_channels cb)) (cb_store cb)"

text \<open>An update of one channel that keeps it well formed and its cell's chemistry.\<close>

definition channel_step :: "channel \<Rightarrow> channel \<Rightarrow> bool" where
  "channel_step ch ch' \<longleftrightarrow> (channel_ok ch \<longrightarrow> channel_ok ch') \<and>
     cell_chem (ch_cell ch') = cell_chem (ch_cell ch) \<and>
     (f32_exact (ch_setpoint ch) \<longrightarrow> f32_exact (ch_setpoint ch')) \<and>
     (ch_latched_error ch \<noteq> NONE \<longrightarrow> ch_latched_error ch' = ch_latched_error ch)"

lemma channel_step_refl [simp]: "channel_step ch ch"
  by (simp add: channel_step_def)

lemma channel_step_halt [simp]: "channel_step ch (halt e ch)"
  by (simp add: channel_step_def channel_ok_halt)

lemma channel_step_kick [simp]: "channel_step ch (kick_watchdog n ch)"
  by (simp add: channel_step_def channel_ok_kick)

lemma channel_step_cycle [simp]: "channel_step ch (set_cycle_index n ch)"
  by (simp add: channel_step_def channel_ok_set_cycle_index)

lemma channel_step_apply: "f32_exact s \<Longrightarrow> channel_step ch (snd (apply_command n m s v t ch))"
proof -
  assume "f32_exact s"
  moreover have "ch_setpoint (snd (apply_command n m s v t ch)) \<in> {s, ch_setpoint ch}"
    by (simp add: apply_command_def Let_def)
  ultimately show ?thesis by (auto simp: channel_step_def channel_ok_apply_command)
qed

lemma channel_step_safety: "safety_tick np now th ch = Inr ch' \<Longrightarrow> channel_step ch ch'"
  by (auto dest!: safety_tick_cases)

lemma channel_step_cell:
  assumes "0 \<le> dt" "cell_tick np dt amb ch = Inr ch'"
  shows "channel_step ch ch'"
proof -
  obtain i s where c: "ch_cell ch' = snd (ecm_step np i dt amb (ch_cell ch))"
    "ch' = ch\<lparr>ch_cell := ch_cell ch'\<rparr> \<or> (\<exists>e. e \<noteq> NONE \<and> ch' = halt e (ch\<lparr>ch_cell := ch_cell ch'\<rparr>))"
    by (rule cell_tick_cases [OF assms(2)])
  from c(2) have "f32_exact (ch_setpoint ch) \<longrightarrow> f32_exact (ch_setpoint ch')"
    by (metis channel.select_convs(4) channel.surjective channel.update_convs(2) f32_exact_0 halt_simps(2))
  with c(1) show ?thesis
    using cell_tick_ok [OF _ assms] cell_tick_keeps_latch(1) [OF assms(2)] by (simp add: channel_step_def)
qed

lemma channels_ok_upd:
  assumes "channels_ok chs" "i < length chs" "channel_step (chs ! i) ch"
  shows "channels_ok (chs[i := ch])"
proof -
  obtain c where c: "(chem_name c, c) \<in> set CHEMISTRIES" "list_all (\<lambda>ch. cell_chem (ch_cell ch) = c) chs"
    using assms(1) by (auto simp: channels_ok_def)
  have "list_all (\<lambda>ch. cell_chem (ch_cell ch) = c) (chs[i := ch])"
    using c(2) assms(2,3) by (intro list_all_update) (auto simp: list_all_length channel_step_def)
  with c(1) assms show ?thesis
    by (auto simp: channels_ok_def list_all_length nth_list_update channel_step_def)
qed

lemma channels_ok_map:
  assumes "channels_ok chs" "\<And>ch. ch \<in> set chs \<Longrightarrow> channel_step ch (f ch)"
  shows "channels_ok (map f chs)"
  using assms by (fastforce simp: channels_ok_def list_all_iff channel_step_def)

lemma channels_ok_nth: "channels_ok chs \<Longrightarrow> i < length chs \<Longrightarrow> channel_ok (chs ! i) \<and> f32_exact (ch_setpoint (chs ! i))"
  by (auto simp: channels_ok_def list_all_length)

lemma channels_ok_chem: "channels_ok chs \<Longrightarrow> chs \<noteq> [] \<Longrightarrow>
    \<exists>v. chemistry_id_for_name (chem_name (cell_chem (ch_cell (chs ! 0)))) = Inr v"
proof -
  assume a: "channels_ok chs" "chs \<noteq> []"
  then obtain c where "(chem_name c, c) \<in> set CHEMISTRIES" "cell_chem (ch_cell (chs ! 0)) = c"
    by (auto simp: channels_ok_def list_all_length)
  then have "chem_name (cell_chem (ch_cell (chs ! 0))) \<in> chemistry_id_to_name ` UNIV"
    by (auto simp: CHEMISTRIES_def image_iff intro: exI [of _ NMC] exI [of _ LCO] exI [of _ NMC_SIC] exI [of _ LCO_SIC])
  then show ?thesis by force
qed

lemma channels_ok_swap:
  assumes "get_chemistry n = Inr c" "channels_ok chs"
  shows "channels_ok (map (swap_chemistry c) chs)"
proof -
  have c: "chem_ok c" "(chem_name c, c) \<in> set CHEMISTRIES"
    using assms(1) get_chemistry_ok [OF assms(1)]
    by (auto simp: get_chemistry_def dest: map_of_SomeD split: option.splits)
  have "channel_ok (swap_chemistry c ch)" if "channel_ok ch" for ch
    using that c(1) by (simp add: channel_ok_def swap_chemistry_def cell_ok_new)
  then have "list_all channel_ok (map (swap_chemistry c) chs)"
    using assms(2) by (simp add: channels_ok_def list_all_iff)
  moreover have "list_all (\<lambda>ch. cell_chem (ch_cell ch) = c) (map (swap_chemistry c) chs)"
    "list_all (\<lambda>ch. f32_exact (ch_setpoint ch)) (map (swap_chemistry c) chs)"
    by (simp_all add: list_all_iff swap_chemistry_def ecm_cell_new_def)
  ultimately show ?thesis using c(2) unfolding channels_ok_def by blast
qed

subsection \<open>Register writes keep the invariant\<close>

lemma upd_channel_simps [simp]:
  "cb_store (upd_channel i f cb) = cb_store cb" "cb_kick (upd_channel i f cb) = cb_kick cb"
  "cb_nonfinite (upd_channel i f cb) = cb_nonfinite cb"
  "length (cb_channels (upd_channel i f cb)) = length (cb_channels cb)"
  "cb_channels (upd_channel i f cb) = (cb_channels cb)[i := f (cb_channels cb ! i)]"
  by (simp_all add: upd_channel_def)

lemma block_ok_upd:
  "block_ok has cb \<Longrightarrow> i < length (cb_channels cb) \<Longrightarrow> channel_step (cb_channels cb ! i) (f (cb_channels cb ! i)) \<Longrightarrow>
    block_ok has (upd_channel i f cb)"
  by (simp add: block_ok_def channels_ok_upd)

lemma block_ok_nonfinite [simp]: "block_ok has (cb\<lparr>cb_nonfinite := b\<rparr>) = block_ok has cb"
  by (simp add: block_ok_def)

lemma dispatch_channel_ok:
  assumes "block_ok has cb" "i < length (cb_channels cb)"
  shows "block_ok has (dispatch_channel R now i off cb)"
    "cb_store (dispatch_channel R now i off cb) = cb_store cb"
    "length (cb_channels (dispatch_channel R now i off cb)) = length (cb_channels cb)"
proof -
  show "block_ok has (dispatch_channel R now i off cb)"
    using assms by (auto simp: dispatch_channel_def Let_def f32_exact_decode channel_step_apply
        intro!: block_ok_upd split: option.splits)
qed (simp_all add: dispatch_channel_def Let_def split: option.splits)

text \<open>A dispatched write changes a channel by a well-formed step, or swaps every cell.\<close>

lemma dispatch_channel_step:
  assumes "i < length (cb_channels cb)" "j < length (cb_channels cb)"
  shows "channel_step (cb_channels cb ! j) (cb_channels (dispatch_channel R now i off cb) ! j)"
  using assms by (auto simp: dispatch_channel_def Let_def nth_list_update f32_exact_decode channel_step_apply
      split: option.splits)

lemma set_chemistry_ok:
  assumes "block_ok has cb"
  shows "\<exists>cb'. set_chemistry v cb = Inr cb' \<and> block_ok has cb' \<and> cb_store cb' = cb_store cb \<and>
    length (cb_channels cb') = length (cb_channels cb)"
proof (cases "chemistry_name_for_id v")
  case (Inl e)
  with assms show ?thesis by (simp add: set_chemistry_def)
next
  case (Inr n)
  then obtain c where "get_chemistry n = Inr c"
    using chemistry_name_for_id_Inr get_chemistry_id by blast
  with Inr assms show ?thesis
    by (cases "cb_channels cb = []") (simp_all add: set_chemistry_def Let_def block_ok_def channels_ok_swap)
qed

lemma dispatch_ok:
  assumes "block_ok has cb"
  shows "\<exists>cb'. dispatch R now addr cb = Inr cb' \<and> block_ok has cb' \<and> cb_store cb' = cb_store cb \<and>
    length (cb_channels cb') = length (cb_channels cb)"
  using assms set_chemistry_ok [OF assms] dispatch_channel_ok [OF assms]
  by (simp add: dispatch_def Let_def not_le) (simp add: block_ok_def)

lemma dispatch_all_ok:
  "block_ok has cb \<Longrightarrow> \<exists>cb'. dispatch_all R now as cb = Inr cb' \<and> block_ok has cb' \<and>
    cb_store cb' = cb_store cb \<and> length (cb_channels cb') = length (cb_channels cb)"
proof (induction as arbitrary: cb)
  case (Cons a as)
  then obtain cb1 where "dispatch R now a cb = Inr cb1" "block_ok has cb1" "cb_store cb1 = cb_store cb"
    "length (cb_channels cb1) = length (cb_channels cb)"
    using dispatch_ok [OF Cons.prems] by blast
  with Cons.IH [of cb1] show ?case by auto
qed simp

text \<open>Only a write to CHEMISTRY can clear a latch.\<close>

lemma dispatch_keeps_latch:
  assumes "dispatch R now a cb = Inr cb'" "a \<noteq> xreg CHEMISTRY" "j < length (cb_channels cb)"
    "ch_latched_error (cb_channels cb ! j) \<noteq> NONE"
  shows "ch_latched_error (cb_channels cb' ! j) = ch_latched_error (cb_channels cb ! j) \<and>
    length (cb_channels cb') = length (cb_channels cb)"
proof (cases "CHASSIS_BASE \<le> a \<or> length (cb_channels cb) \<le> a div CHANNEL_BLOCK_SIZE")
  case True
  with assms(1,2) have "cb_channels cb' = cb_channels cb"
    by (auto simp: dispatch_def Let_def split: if_splits)
  then show ?thesis by simp
next
  case False
  then have "cb' = dispatch_channel R now (a div CHANNEL_BLOCK_SIZE)
      (a - channel_base (a div CHANNEL_BLOCK_SIZE)) cb"
    using assms(1) by (simp add: dispatch_def Let_def)
  with False assms(3,4) dispatch_channel_step [of "a div CHANNEL_BLOCK_SIZE" cb j R now]
  show ?thesis by (simp add: channel_step_def dispatch_channel_def Let_def split: option.splits)
qed

lemma dispatch_all_keeps_latch:
  assumes "dispatch_all R now as cb = Inr cb'" "xreg CHEMISTRY \<notin> set as" "j < length (cb_channels cb)"
    "ch_latched_error (cb_channels cb ! j) \<noteq> NONE"
  shows "ch_latched_error (cb_channels cb' ! j) = ch_latched_error (cb_channels cb ! j) \<and>
    length (cb_channels cb') = length (cb_channels cb)"
  using assms
proof (induction as arbitrary: cb)
  case (Cons a as)
  then obtain cb1 where d: "dispatch R now a cb = Inr cb1" "dispatch_all R now as cb1 = Inr cb'" by auto
  have "ch_latched_error (cb_channels cb1 ! j) = ch_latched_error (cb_channels cb ! j) \<and>
      length (cb_channels cb1) = length (cb_channels cb)"
    using Cons.prems by (intro dispatch_keeps_latch [OF d(1)]) auto
  then show ?case using Cons.IH [OF d(2)] Cons.prems by simp
qed simp

lemma set_values_ok:
  assumes "sparse_block R has" "block_ok has cb" "writes_in has (cb_store cb) a vs"
  shows "\<exists>cb'. set_values R now a vs cb = Inr cb' \<and> block_ok has cb' \<and>
    cb_store cb' = sp_set R (cb_store cb) a vs \<and> length (cb_channels cb') = length (cb_channels cb)"
proof -
  let ?cb = "cb\<lparr>cb_store := sp_set R (cb_store cb) a vs\<rparr>"
  have "block_ok has ?cb"
    using assms by (simp add: block_ok_def sparse_block.covers_sp_set)
  from dispatch_all_ok [OF this] show ?thesis by (simp add: set_values_def Let_def)
qed

subsection \<open>The mirror keeps the invariant\<close>

lemma mirror_channels_returns:
  "list_all channel_ok chs \<Longrightarrow> list_all (\<lambda>ch. f32_exact (ch_setpoint ch)) chs \<Longrightarrow>
    \<exists>s'. mirror_channels np R i chs s = Inr s'"
proof (induction chs arbitrary: i s)
  case (Cons ch chs)
  then have "channel_ok ch" "f32_exact (ch_setpoint ch)" by simp_all
  then obtain st sp where "channel_read_state np ch = Inr st" "encode_f32 (ch_setpoint ch) = Inr sp"
    using channel_ok_read f32_exact_encode by metis
  with Cons show ?case by simp
qed simp

lemma mirror_tick_ok:
  assumes "sparse_block R has" "block_ok has cb"
  shows "\<exists>cb'. mirror_tick np R cb = Inr cb' \<and> block_ok has cb' \<and> cb_channels cb' = cb_channels cb \<and>
    cb_kick cb' = cb_kick cb"
proof -
  note sb = assms(1)
  let ?chs = "cb_channels cb" and ?n = "length (cb_channels cb)"
  have ok: "channels_ok ?chs" "covers has ?n (cb_store cb)" "?n \<le> 200"
    using assms(2) by (simp_all add: block_ok_def)
  obtain s where s: "mirror_channels np R 0 ?chs (cb_store cb) = Inr s"
    using ok(1) mirror_channels_returns by (metis channels_ok_def)
  have s0: "covers has ?n s" using sparse_block.mirror_channels_spec [OF sb s ok(2)] by simp
  then have c: "covers has ?n (sp_set R s (xreg CHASSIS_WATCHDOG_STATUS) [x])" for x
    using covers_xreg [OF s0] by (simp add: sparse_block.covers_sp_set [OF sb] del: xreg.simps)
  then have "covers has ?n (sp_set R (sp_set R s (xreg CHASSIS_WATCHDOG_STATUS) [x]) (xreg CHEMISTRY) [v])" for x v
    using covers_xreg [OF c] by (simp add: sparse_block.covers_sp_set [OF sb] del: xreg.simps)
  with c s ok channels_ok_chem [OF ok(1)] show ?thesis
    by (auto simp: mirror_tick_def Let_def block_ok_def)
qed

subsection \<open>Runs\<close>

definition sys_ok :: "('s \<Rightarrow> nat \<Rightarrow> bool) \<Rightarrow> 's chassis_sys \<Rightarrow> bool" where
  "sys_ok has sys \<longleftrightarrow> block_ok has (sys_block sys)"

lemma covers_mapped:
  assumes "covers has n s" "list_all (\<lambda>k. mapped n (a + k)) [0..<length vs]"
  shows "writes_in has s a vs"
proof -
  have "has s b" if "mapped n b" for b
  proof (cases "CHASSIS_BASE \<le> b \<and> b < CHASSIS_BASE + 20")
    case True
    then have "b - CHASSIS_BASE < 20" "CHASSIS_BASE + (b - CHASSIS_BASE) = b" by auto
    with assms(1) show ?thesis unfolding covers_def by metis
  next
    case False
    with that have "b div CHANNEL_BLOCK_SIZE < n"
      by (simp add: mapped_def CHANNEL_BLOCK_SIZE_def less_mult_imp_div_less)
    moreover have "b = channel_base (b div CHANNEL_BLOCK_SIZE) + b mod CHANNEL_BLOCK_SIZE"
      "b mod CHANNEL_BLOCK_SIZE < CHANNEL_BLOCK_SIZE"
      by (simp_all add: channel_base_def CHANNEL_BLOCK_SIZE_def)
    ultimately show ?thesis using assms(1) unfolding covers_def by metis
  qed
  with assms(2) show ?thesis by (simp add: writes_in_def list_all_iff)
qed

lemma on_channel_ok:
  assumes "sys_ok has sys" "i < length (sys_channels sys)" "f (sys_channels sys ! i) = Inr ch"
    "channel_step (sys_channels sys ! i) ch"
  shows "\<exists>sys'. on_channel i f sys = Inr sys' \<and> sys_ok has sys' \<and> length (sys_channels sys') = length (sys_channels sys)"
  using assms by (auto simp: on_channel_def sys_ok_def intro: block_ok_upd)

lemma sys_ok_channel: "sys_ok has sys \<Longrightarrow> i < length (sys_channels sys) \<Longrightarrow> channel_ok (sys_channels sys ! i)"
  by (simp add: sys_ok_def block_ok_def channels_ok_nth)

lemma chassis_exec_ok:
  assumes "sparse_block R has" "0 \<le> cfg_dt_sim cfg" "sys_ok has sys" "event_ok (length (sys_channels sys)) e"
  shows "\<exists>sys'. chassis_exec np R cfg e sys = Inr sys' \<and> sys_ok has sys' \<and>
    length (sys_channels sys') = length (sys_channels sys)"
proof (cases e)
  case (CellTick i)
  then have i: "i < length (sys_channels sys)" using assms(4) by simp
  obtain ch where "cell_tick np (cfg_dt_sim cfg) (ambient_get (sys_ambient sys)) (sys_channels sys ! i) = Inr ch"
    using cell_tick_returns [OF sys_ok_channel [OF assms(3) i] assms(2)] by blast
  with CellTick i assms on_channel_ok [OF assms(3) i] channel_step_cell show ?thesis by simp
next
  case (SafetyTick i)
  then have i: "i < length (sys_channels sys)" using assms(4) by simp
  obtain ch where "safety_tick np (sys_now sys) (cfg_channel_threshold_s cfg) (sys_channels sys ! i) = Inr ch"
    using safety_tick_returns [OF sys_ok_channel [OF assms(3) i]] by blast
  with SafetyTick i assms on_channel_ok [OF assms(3) i] channel_step_safety show ?thesis by simp
next
  case WatchdogTick
  have "channels_ok (fst (chassis_watchdog_tick now th (sys_channels sys) k))" for now th k
    using assms(3) by (auto simp: chassis_watchdog_tick_def sys_ok_def block_ok_def intro!: channels_ok_map)
  then show ?thesis using WatchdogTick assms(3)
    by (simp add: split_beta Let_def sys_ok_def block_ok_def)
next
  case MirrorTick
  with mirror_tick_ok [OF assms(1)] assms(3) show ?thesis by (fastforce simp: sys_ok_def)
next
  case (WriteRegs a vs)
  have "writes_in has (sys_store sys) a vs"
    using assms(3,4) WriteRegs by (intro covers_mapped) (simp_all add: sys_ok_def block_ok_def)
  with set_values_ok [OF assms(1)] assms(3) WriteRegs show ?thesis by (fastforce simp: sys_ok_def)
qed (use assms in \<open>auto simp: sys_ok_def\<close>)

lemma chassis_run_ok:
  assumes "sparse_block R has" "0 \<le> cfg_dt_sim cfg" "sys_ok has sys"
    "list_all (event_ok (length (sys_channels sys))) es"
  shows "\<exists>sys'. chassis_run np R cfg es sys = Inr sys' \<and> sys_ok has sys' \<and>
    length (sys_channels sys') = length (sys_channels sys)"
  using assms(3,4)
proof (induction es arbitrary: sys)
  case (Cons e es)
  then obtain sys1 where 1: "chassis_exec np R cfg e sys = Inr sys1" "sys_ok has sys1"
    "length (sys_channels sys1) = length (sys_channels sys)"
    using chassis_exec_ok [OF assms(1,2) Cons.prems(1)] Cons.prems(2) by (metis list.pred_inject(2))
  from Cons.IH [OF 1(2)] 1 Cons.prems(2) show ?case by simp
qed simp

lemma chassis_run_append:
  "chassis_run np R cfg (xs @ ys) sys = bind_sum (chassis_run np R cfg xs sys) (chassis_run np R cfg ys)"
proof (induction xs arbitrary: sys)
  case (Cons x xs)
  then show ?case by (cases "chassis_exec np R cfg x sys") auto
qed simp

subsection \<open>Latches, and silence\<close>

fun writes_chemistry :: "chassis_event \<Rightarrow> bool" where
  "writes_chemistry (WriteRegs a vs) \<longleftrightarrow> a \<le> xreg CHEMISTRY \<and> xreg CHEMISTRY < a + length vs"
| "writes_chemistry _ \<longleftrightarrow> False"

fun is_write :: "chassis_event \<Rightarrow> bool" where
  "is_write (WriteRegs a vs) \<longleftrightarrow> True"
| "is_write _ \<longleftrightarrow> False"

lemma mirror_tick_channels: "mirror_tick np R cb = Inr cb' \<Longrightarrow> cb_channels cb' = cb_channels cb \<and> cb_kick cb' = cb_kick cb"
  by (auto simp: mirror_tick_def Let_def split: if_splits)

text \<open>How an event that is no register write changes channel \<open>j\<close>.\<close>

lemma chassis_exec_quiet:
  assumes "chassis_exec np R cfg e sys = Inr sys'" "\<not> is_write e" "j < length (sys_channels sys)"
  shows "length (sys_channels sys') = length (sys_channels sys)"
    "ch_latched_error (sys_channels sys ! j) \<noteq> NONE \<Longrightarrow>
       ch_latched_error (sys_channels sys' ! j) = ch_latched_error (sys_channels sys ! j)"
    "ch_mode (sys_channels sys ! j) = Idle \<Longrightarrow> ch_mode (sys_channels sys' ! j) = Idle"
    "ch_last_kick_wall_s (sys_channels sys' ! j) = ch_last_kick_wall_s (sys_channels sys ! j)"
    "ks_last_kick_wall_s (cb_kick (sys_block sys')) = ks_last_kick_wall_s (cb_kick (sys_block sys))"
proof -
  have *: "length (sys_channels sys') = length (sys_channels sys) \<and>
    (ch_latched_error (sys_channels sys ! j) \<noteq> NONE \<longrightarrow>
       ch_latched_error (sys_channels sys' ! j) = ch_latched_error (sys_channels sys ! j)) \<and>
    (ch_mode (sys_channels sys ! j) = Idle \<longrightarrow> ch_mode (sys_channels sys' ! j) = Idle) \<and>
    ch_last_kick_wall_s (sys_channels sys' ! j) = ch_last_kick_wall_s (sys_channels sys ! j) \<and>
    ks_last_kick_wall_s (cb_kick (sys_block sys')) = ks_last_kick_wall_s (cb_kick (sys_block sys))"
  proof (cases e)
    case (CellTick i)
    then obtain ch where t: "cell_tick np (cfg_dt_sim cfg) (ambient_get (sys_ambient sys)) (sys_channels sys ! i) = Inr ch"
      "sys' = sys\<lparr>sys_block := upd_channel i (\<lambda>_. ch) (sys_block sys)\<rparr>"
      using assms(1) by (auto simp: on_channel_def)
    show ?thesis using t(2) cell_tick_keeps_latch [OF t(1)] assms(3) by (cases "i = j") simp_all
  next
    case (SafetyTick i)
    then obtain ch where t: "safety_tick np (sys_now sys) (cfg_channel_threshold_s cfg) (sys_channels sys ! i) = Inr ch"
      "sys' = sys\<lparr>sys_block := upd_channel i (\<lambda>_. ch) (sys_block sys)\<rparr>"
      using assms(1) by (auto simp: on_channel_def)
    show ?thesis using t(2) safety_tick_cases [OF t(1)] assms(3) by (cases "i = j") auto
  next
    case WatchdogTick
    with assms show ?thesis by (auto simp: split_beta Let_def chassis_watchdog_tick_nth) (simp_all add: chassis_watchdog_tick_def)
  next
    case MirrorTick
    with assms mirror_tick_channels show ?thesis by fastforce
  qed (use assms in auto)
  then show "length (sys_channels sys') = length (sys_channels sys)"
    "ch_latched_error (sys_channels sys ! j) \<noteq> NONE \<Longrightarrow>
       ch_latched_error (sys_channels sys' ! j) = ch_latched_error (sys_channels sys ! j)"
    "ch_mode (sys_channels sys ! j) = Idle \<Longrightarrow> ch_mode (sys_channels sys' ! j) = Idle"
    "ch_last_kick_wall_s (sys_channels sys' ! j) = ch_last_kick_wall_s (sys_channels sys ! j)"
    "ks_last_kick_wall_s (cb_kick (sys_block sys')) = ks_last_kick_wall_s (cb_kick (sys_block sys))"
    by simp_all
qed

lemma chassis_exec_keeps_latch:
  assumes "chassis_exec np R cfg e sys = Inr sys'" "\<not> writes_chemistry e" "j < length (sys_channels sys)"
    "ch_latched_error (sys_channels sys ! j) \<noteq> NONE"
  shows "ch_latched_error (sys_channels sys' ! j) = ch_latched_error (sys_channels sys ! j) \<and>
    length (sys_channels sys') = length (sys_channels sys)"
proof (cases "is_write e")
  case True
  then obtain a vs where e: "e = WriteRegs a vs" by (cases e) auto
  then obtain cb where cb: "set_values R (sys_now sys) a vs (sys_block sys) = Inr cb" "sys' = sys\<lparr>sys_block := cb\<rparr>"
    using assms(1) by auto
  have "xreg CHEMISTRY \<notin> set (map (\<lambda>k. a + k) [0..<length vs])"
    using assms(2) e by (auto simp del: xreg.simps)
  from dispatch_all_keeps_latch [OF cb(1) [unfolded set_values_def Let_def] this, of j] assms(3,4) cb(2)
  show ?thesis by simp
next
  case False
  with chassis_exec_quiet [OF assms(1) _ assms(3)] assms(4) show ?thesis by simp
qed

lemma chassis_run_keeps_latch:
  assumes "chassis_run np R cfg es sys = Inr sys'" "\<forall>e \<in> set es. \<not> writes_chemistry e"
    "j < length (sys_channels sys)" "ch_latched_error (sys_channels sys ! j) \<noteq> NONE"
  shows "ch_latched_error (sys_channels sys' ! j) = ch_latched_error (sys_channels sys ! j) \<and>
    length (sys_channels sys') = length (sys_channels sys)"
  using assms
proof (induction es arbitrary: sys)
  case (Cons e es)
  then obtain sys1 where s: "chassis_exec np R cfg e sys = Inr sys1" "chassis_run np R cfg es sys1 = Inr sys'" by auto
  have "ch_latched_error (sys_channels sys1 ! j) = ch_latched_error (sys_channels sys ! j) \<and>
      length (sys_channels sys1) = length (sys_channels sys)"
    using Cons.prems by (intro chassis_exec_keeps_latch [OF s(1)]) auto
  with Cons.IH [OF s(2)] Cons.prems show ?case by simp
qed simp

lemma chassis_run_quiet:
  assumes "chassis_run np R cfg es sys = Inr sys'" "\<forall>e \<in> set es. \<not> is_write e" "j < length (sys_channels sys)"
  shows "length (sys_channels sys') = length (sys_channels sys)"
    "ch_mode (sys_channels sys ! j) = Idle \<Longrightarrow> ch_mode (sys_channels sys' ! j) = Idle"
    "ch_last_kick_wall_s (sys_channels sys' ! j) = ch_last_kick_wall_s (sys_channels sys ! j)"
    "ks_last_kick_wall_s (cb_kick (sys_block sys')) = ks_last_kick_wall_s (cb_kick (sys_block sys))"
proof -
  have "length (sys_channels sys') = length (sys_channels sys) \<and>
    (ch_mode (sys_channels sys ! j) = Idle \<longrightarrow> ch_mode (sys_channels sys' ! j) = Idle) \<and>
    ch_last_kick_wall_s (sys_channels sys' ! j) = ch_last_kick_wall_s (sys_channels sys ! j) \<and>
    ks_last_kick_wall_s (cb_kick (sys_block sys')) = ks_last_kick_wall_s (cb_kick (sys_block sys))"
    using assms
  proof (induction es arbitrary: sys)
    case (Cons e es)
    then obtain sys1 where s: "chassis_exec np R cfg e sys = Inr sys1" "chassis_run np R cfg es sys1 = Inr sys'" by auto
    have "\<not> is_write e" using Cons.prems(2) by simp
    note q = chassis_exec_quiet [OF s(1) this Cons.prems(3)]
    with Cons.IH [OF s(2)] Cons.prems show ?case by simp
  qed simp
  then show "length (sys_channels sys') = length (sys_channels sys)"
    "ch_mode (sys_channels sys ! j) = Idle \<Longrightarrow> ch_mode (sys_channels sys' ! j) = Idle"
    "ch_last_kick_wall_s (sys_channels sys' ! j) = ch_last_kick_wall_s (sys_channels sys ! j)"
    "ks_last_kick_wall_s (cb_kick (sys_block sys')) = ks_last_kick_wall_s (cb_kick (sys_block sys))"
    by simp_all
qed

subsection \<open>Boot\<close>

text \<open>The part of \<open>cycler.main._run\<close> that builds the state the loops share.\<close>

definition chassis_boot ::
  "'s sparse_ops \<Rightarrow> real \<Rightarrow> nat \<Rightarrow> string \<Rightarrow> int \<Rightarrow> real \<Rightarrow> exn + 's chassis_sys" where
  "chassis_boot R now n chemistry chassis_id default_ambient_c =
     bind_sum (make_channels now n chemistry) (\<lambda>channels.
     bind_sum (block_init R channels (kick_state_new now) chassis_id) (\<lambda>cb.
       Inr \<lparr>sys_block = cb, sys_ambient = ambient_new default_ambient_c, sys_now = now\<rparr>))"

lemma make_channels_channels_ok:
  assumes "make_channels now n chem = Inr chs"
  shows "channels_ok chs"
proof -
  obtain c where c: "get_chemistry chem = Inr c"
    and chs: "chs = map (\<lambda>i. channel_new now i (ecm_cell_new c (capacity_ah_nominal c) 0.5) (v_max_mv c)) [0..<n]"
    using assms by (auto simp: make_channels_def)
  have "(chem_name c, c) \<in> set CHEMISTRIES"
    using c get_chemistry_ok [OF c] by (auto simp: get_chemistry_def dest: map_of_SomeD split: option.splits)
  moreover have "list_all channel_ok chs" using make_channels_ok [OF assms] by simp
  ultimately show ?thesis
    by (auto simp: channels_ok_def chs list_all_iff channel_new_def ecm_cell_new_def)
qed

lemma block_addresses_iff:
  "a \<in> fst ` set (block_addresses n) \<longleftrightarrow>
    (\<exists>i < n. \<exists>k < CHANNEL_BLOCK_SIZE. a = channel_base i + k) \<or> (\<exists>k < 20. a = CHASSIS_BASE + k)"
proof -
  have "fst ` set (block_addresses n) =
      (\<Union>i<n. (\<lambda>k. channel_base i + k) ` {..<CHANNEL_BLOCK_SIZE}) \<union> (\<lambda>k. CHASSIS_BASE + k) ` {..<20}"
    by (simp add: block_addresses_def image_Un image_UN image_image atLeast0LessThan)
  then show ?thesis by blast
qed

lemma covers_init:
  assumes "sparse_block R has"
  shows "covers has n (sp_init R (block_addresses n))"
  unfolding covers_def sparse_block.has_init [OF assms] block_addresses_iff by blast

lemma covers_write_all:
  assumes "sparse_block R has" "covers has n s" "\<And>a vs. (a, vs) \<in> set ws \<Longrightarrow> writes_in has s a vs"
  shows "covers has n (write_all R ws s)"
  using assms(2) sparse_block.write_all_has [OF assms(1) assms(3)] by (simp add: covers_def)

lemma chassis_boot_ok:
  assumes sb: "sparse_block R has" and "get_chemistry chem = Inr c" "n \<le> 200"
  shows "\<exists>sys. chassis_boot R now n chem cid amb = Inr sys \<and> sys_ok has sys \<and> sys_now sys = now \<and>
    length (sys_channels sys) = n \<and> make_channels now n chem = Inr (sys_channels sys)"
proof -
  obtain chs where m: "make_channels now n chem = Inr chs"
    using assms(2) by (simp add: make_channels_def)
  note ok = make_channels_channels_ok [OF m] and len = conjunct2 [OF make_channels_ok [OF m]]
  let ?ids = "[(xreg CHASSIS_ID, [cid]), (xreg FIRMWARE_VERSION_REG, [FIRMWARE_VERSION]),
             (xreg TOTAL_CHANNELS, [int (length chs)]), (xreg PROTOCOL_VERSION_REG, [PROTOCOL_VERSION])]"
  define s1 where "s1 = write_all R ?ids (sp_init R (block_addresses (length chs)))"
  have s1: "covers has n s1"
    unfolding s1_def len using covers_init [OF sb] covers_xreg [OF covers_init [OF sb]]
    by (intro covers_write_all [OF sb]) (auto simp del: xreg.simps)
  have env: "covers has n (write_all R (concat (map (\<lambda>i.
      [(channel_base i + creg SAFETY_V_MAX_MV, [v i]), (channel_base i + creg SAFETY_T_MAX_DC, [t i])]) [0..<n])) s)"
    if "covers has n s" for s v t
    using that by (intro covers_write_all [OF sb that]) (auto simp: covers_creg simp del: creg.simps)
  have s2: "covers has n (sp_set R s1 (xreg CHEMISTRY) [v])" for v
    using s1 covers_xreg [OF s1] by (simp add: sparse_block.covers_sp_set [OF sb] del: xreg.simps)
  have "\<exists>cb. block_init R chs k cid = Inr cb \<and> block_ok has cb \<and> cb_channels cb = chs" for k
  proof (cases "chs = []")
    case True
    then show ?thesis using env [OF s1] ok len assms(3)
      by (simp add: block_init_def Let_def block_ok_def s1_def)
  next
    case False
    with channels_ok_chem [OF ok] obtain v where
      "chemistry_id_for_name (chem_name (cell_chem (ch_cell (chs ! 0)))) = Inr v" by blast
    then show ?thesis using env [OF s2] ok len assms(3) False
      by (simp add: block_init_def Let_def block_ok_def s1_def del: creg.simps xreg.simps)
  qed
  then obtain cb where "block_init R chs (kick_state_new now) cid = Inr cb" "block_ok has cb"
    "cb_channels cb = chs" by blast
  with m len show ?thesis by (simp add: chassis_boot_def sys_ok_def)
qed

end
