(* ===== verification/Effects.thy ===== *)
theory Effects
  imports Prelude
begin

section \<open>Operations with state and exceptions\<close>

text \<open>
  A coroutine or method that changes the outside world is an action \<open>'s \<Rightarrow> (exn + 'a) \<times> 's\<close>:
  it returns a value or raises, and in both cases leaves a state behind. What was done before
  an exception stays done, as in Python. \<open>catch_act\<close> is \<open>try/except\<close>; no handler catches
  \<open>Killed\<close>. \<open>zoom\<close> runs an action of a part on the whole.
\<close>

type_synonym ('s, 'a) act = "'s \<Rightarrow> (exn + 'a) \<times> 's"

definition ret :: "'a \<Rightarrow> ('s, 'a) act" where "ret x s = (Inr x, s)"
definition raise :: "exn \<Rightarrow> ('s, 'a) act" where "raise e s = (Inl e, s)"
definition get_act :: "('s \<Rightarrow> 'a) \<Rightarrow> ('s, 'a) act" where "get_act f s = (Inr (f s), s)"
definition mod_act :: "('s \<Rightarrow> 's) \<Rightarrow> ('s, unit) act" where "mod_act f s = (Inr (), f s)"

definition bind_act :: "('s, 'a) act \<Rightarrow> ('a \<Rightarrow> ('s, 'b) act) \<Rightarrow> ('s, 'b) act" where
  "bind_act m f s = (case m s of (Inl e, s') \<Rightarrow> (Inl e, s') | (Inr x, s') \<Rightarrow> f x s')"

definition seq_act :: "('s, 'a) act \<Rightarrow> ('s, 'b) act \<Rightarrow> ('s, 'b) act" where
  "seq_act m k s = (case m s of (Inl e, s') \<Rightarrow> (Inl e, s') | (Inr x, s') \<Rightarrow> k s')"

definition lift_sum :: "exn + 'a \<Rightarrow> ('s, 'a) act" where "lift_sum r s = (r, s)"

text \<open>\<open>try: m / except <those with P>: h\<close>; an exception outside \<open>P\<close> goes on.\<close>

definition catch_act :: "('s, 'a) act \<Rightarrow> (exn \<Rightarrow> bool) \<Rightarrow> (exn \<Rightarrow> ('s, 'a) act) \<Rightarrow> ('s, 'a) act" where
  "catch_act m P h s = (case m s of (Inl e, s') \<Rightarrow> if P e then h e s' else (Inl e, s') | (Inr x, s') \<Rightarrow> (Inr x, s'))"

text \<open>\<open>except Exception\<close>: everything but the end of the process.\<close>

definition any_exception :: "exn \<Rightarrow> bool" where "any_exception e \<longleftrightarrow> e \<noteq> Killed"

fun for_act :: "('a \<Rightarrow> ('s, unit) act) \<Rightarrow> 'a list \<Rightarrow> ('s, unit) act" where
  "for_act f [] = ret ()"
| "for_act f (x # xs) = seq_act (f x) (for_act f xs)"

definition when_act :: "bool \<Rightarrow> ('s, unit) act \<Rightarrow> ('s, unit) act" where
  "when_act b m = (if b then m else ret ())"

definition zoom :: "('s \<Rightarrow> 't) \<Rightarrow> ('t \<Rightarrow> 's \<Rightarrow> 's) \<Rightarrow> ('t, 'a) act \<Rightarrow> ('s, 'a) act" where
  "zoom g p m s = (let (r, t) = m (g s) in (r, p t s))"

lemma ret_run [run_simps]: "ret x s = (Inr x, s)" by (simp add: ret_def)
lemma raise_run [run_simps]: "raise e s = (Inl e, s)" by (simp add: raise_def)
lemma get_act_run [run_simps]: "get_act f s = (Inr (f s), s)" by (simp add: get_act_def)
lemma mod_act_run [run_simps]: "mod_act f s = (Inr (), f s)" by (simp add: mod_act_def)
lemma lift_sum_run [run_simps]: "lift_sum r s = (r, s)" by (simp add: lift_sum_def)
lemma when_act_run [run_simps]: "when_act b m s = (if b then m s else (Inr (), s))" by (simp add: when_act_def ret_def)

lemma bind_act_Inr [run_simps]: "m s = (Inr x, s') \<Longrightarrow> bind_act m f s = f x s'"
  by (simp add: bind_act_def)

lemma bind_act_Inl [run_simps]: "m s = (Inl e, s') \<Longrightarrow> bind_act m f s = (Inl e, s')"
  by (simp add: bind_act_def)

lemma seq_act_Inr [run_simps]: "m s = (Inr x, s') \<Longrightarrow> seq_act m k s = k s'"
  by (simp add: seq_act_def)

lemma seq_act_Inl [run_simps]: "m s = (Inl e, s') \<Longrightarrow> seq_act m k s = (Inl e, s')"
  by (simp add: seq_act_def)

lemma catch_act_Inr [run_simps]: "m s = (Inr x, s') \<Longrightarrow> catch_act m P h s = (Inr x, s')"
  by (simp add: catch_act_def)

lemma catch_act_Inl [run_simps]: "m s = (Inl e, s') \<Longrightarrow> P e \<Longrightarrow> catch_act m P h s = h e s'"
  by (simp add: catch_act_def)

lemma catch_act_Inl_other [run_simps]: "m s = (Inl e, s') \<Longrightarrow> \<not> P e \<Longrightarrow> catch_act m P h s = (Inl e, s')"
  by (simp add: catch_act_def)

lemma zoom_run [run_simps]: "m (g s) = (r, t) \<Longrightarrow> zoom g p m s = (r, p t s)"
  by (simp add: zoom_def)

lemma any_exception_iff [simp]: "any_exception e \<longleftrightarrow> e \<noteq> Killed" by (simp add: any_exception_def)

text \<open>An action that keeps a predicate of the state, however it ends.\<close>

definition keeps :: "('s \<Rightarrow> bool) \<Rightarrow> ('s, 'a) act \<Rightarrow> bool" where
  "keeps I m \<longleftrightarrow> (\<forall>s. I s \<longrightarrow> I (snd (m s)))"

named_theorems keeps_intros \<open>actions that keep an invariant\<close>

lemma keepsD: "keeps I m \<Longrightarrow> I s \<Longrightarrow> I (snd (m s))"
  by (simp add: keeps_def)

lemma keeps_ret [keeps_intros]: "keeps I (ret x)" by (simp add: keeps_def ret_def)
lemma keeps_raise [keeps_intros]: "keeps I (raise e)" by (simp add: keeps_def raise_def)
lemma keeps_get [keeps_intros]: "keeps I (get_act f)" by (simp add: keeps_def get_act_def)
lemma keeps_lift [keeps_intros]: "keeps I (lift_sum r)" by (simp add: keeps_def lift_sum_def)
lemma keeps_mod: "(\<And>s. I s \<Longrightarrow> I (f s)) \<Longrightarrow> keeps I (mod_act f)" by (simp add: keeps_def mod_act_def)

lemma keeps_bind [keeps_intros]: "keeps I m \<Longrightarrow> (\<And>x. keeps I (f x)) \<Longrightarrow> keeps I (bind_act m f)"
  unfolding keeps_def bind_act_def by (auto split: prod.splits sum.splits)

lemma keeps_seq [keeps_intros]: "keeps I m \<Longrightarrow> keeps I k \<Longrightarrow> keeps I (seq_act m k)"
  unfolding keeps_def seq_act_def by (auto split: prod.splits sum.splits)

lemma keeps_catch [keeps_intros]: "keeps I m \<Longrightarrow> (\<And>e. keeps I (h e)) \<Longrightarrow> keeps I (catch_act m P h)"
  unfolding keeps_def catch_act_def by (auto split: prod.splits sum.splits)

lemma keeps_when [keeps_intros]: "keeps I m \<Longrightarrow> keeps I (when_act b m)"
  by (simp add: when_act_def keeps_ret)

lemma keeps_for [keeps_intros]: "(\<And>x. keeps I (f x)) \<Longrightarrow> keeps I (for_act f xs)"
  by (induction xs) (simp_all add: keeps_ret keeps_seq)

lemma keeps_zoom: "(\<And>s. I s \<Longrightarrow> I (p (snd (m (g s))) s)) \<Longrightarrow> keeps I (zoom g p m)"
  by (simp add: keeps_def zoom_def split_beta Let_def)

text \<open>An action that leaves a part of the state as it is, however it ends.\<close>

definition unchanged :: "('s \<Rightarrow> 'v) \<Rightarrow> ('s, 'a) act \<Rightarrow> bool" where
  "unchanged f m \<longleftrightarrow> (\<forall>s. f (snd (m s)) = f s)"

named_theorems unchanged_intros \<open>actions that leave a part of the state alone\<close>

lemma unchangedI: "(\<And>s. f (snd (m s)) = f s) \<Longrightarrow> unchanged f m"
  by (simp add: unchanged_def)

lemma unchangedD: "unchanged f m \<Longrightarrow> f (snd (m s)) = f s"
  by (simp add: unchanged_def)

lemma unchanged_basic [unchanged_intros]:
  "unchanged f (ret x)" "unchanged f (raise e)" "unchanged f (get_act g)" "unchanged f (lift_sum r)"
  by (simp_all add: unchanged_def run_simps)

lemma unchanged_mod: "(\<And>s. f (g s) = f s) \<Longrightarrow> unchanged f (mod_act g)"
  by (simp add: unchanged_def mod_act_def)

lemma unchanged_bind [unchanged_intros]:
  "unchanged f m \<Longrightarrow> (\<And>x. unchanged f (k x)) \<Longrightarrow> unchanged f (bind_act m k)"
proof (rule unchangedI)
  fix s assume "unchanged f m" "\<And>x. unchanged f (k x)"
  then show "f (snd (bind_act m k s)) = f s"
    using unchangedD [of f m s] by (cases "m s") (auto simp: bind_act_def unchangedD split: sum.split)
qed

lemma unchanged_seq [unchanged_intros]: "unchanged f m \<Longrightarrow> unchanged f k \<Longrightarrow> unchanged f (seq_act m k)"
proof (rule unchangedI)
  fix s assume "unchanged f m" "unchanged f k"
  then show "f (snd (seq_act m k s)) = f s"
    using unchangedD [of f m s] by (cases "m s") (auto simp: seq_act_def unchangedD split: sum.split)
qed

lemma unchanged_catch [unchanged_intros]:
  "unchanged f m \<Longrightarrow> (\<And>e. unchanged f (h e)) \<Longrightarrow> unchanged f (catch_act m P h)"
proof (rule unchangedI)
  fix s assume "unchanged f m" "\<And>e. unchanged f (h e)"
  then show "f (snd (catch_act m P h s)) = f s"
    using unchangedD [of f m s] by (cases "m s") (auto simp: catch_act_def unchangedD split: sum.split)
qed

lemma unchanged_when [unchanged_intros]: "unchanged f m \<Longrightarrow> unchanged f (when_act b m)"
  by (simp add: when_act_def unchanged_basic)

lemma unchanged_for [unchanged_intros]: "(\<And>x. unchanged f (g x)) \<Longrightarrow> unchanged f (for_act g xs)"
  by (induction xs) (simp_all add: unchanged_basic unchanged_seq)

subsection \<open>Triples\<close>

text \<open>
  \<open>triple P m Q E\<close>: started in a state with \<open>P\<close>, the action ends normally in a state with
  \<open>Q\<close> of its result, or raises in a state with \<open>E\<close> of the exception.
\<close>

definition triple :: "('s \<Rightarrow> bool) \<Rightarrow> ('s, 'a) act \<Rightarrow> ('a \<Rightarrow> 's \<Rightarrow> bool) \<Rightarrow> (exn \<Rightarrow> 's \<Rightarrow> bool) \<Rightarrow> bool" where
  "triple P m Q E \<longleftrightarrow> (\<forall>s. P s \<longrightarrow> (case m s of (Inr x, s') \<Rightarrow> Q x s' | (Inl e, s') \<Rightarrow> E e s'))"

named_theorems triple_intros \<open>rules of the triple calculus\<close>

lemma tripleI: "(\<And>s. P s \<Longrightarrow> case m s of (Inr x, s') \<Rightarrow> Q x s' | (Inl e, s') \<Rightarrow> E e s') \<Longrightarrow> triple P m Q E"
  by (simp add: triple_def)

lemma triple_Inr: "triple P m Q E \<Longrightarrow> P s \<Longrightarrow> m s = (Inr x, s') \<Longrightarrow> Q x s'"
  by (force simp: triple_def)

lemma triple_Inl: "triple P m Q E \<Longrightarrow> P s \<Longrightarrow> m s = (Inl e, s') \<Longrightarrow> E e s'"
  by (force simp: triple_def)

lemma triple_any: "triple P m (\<lambda>_. Q) (\<lambda>_. Q) \<Longrightarrow> P s \<Longrightarrow> Q (snd (m s))"
  unfolding triple_def by (cases "m s"; cases "fst (m s)") force+

lemma triple_conseq:
  "triple P' m Q' E' \<Longrightarrow> (\<And>s. P s \<Longrightarrow> P' s) \<Longrightarrow> (\<And>x s. Q' x s \<Longrightarrow> Q x s) \<Longrightarrow> (\<And>e s. E' e s \<Longrightarrow> E e s) \<Longrightarrow> triple P m Q E"
  unfolding triple_def by (fastforce split: prod.splits sum.splits)

lemma triple_pre: "triple P' m Q E \<Longrightarrow> (\<And>s. P s \<Longrightarrow> P' s) \<Longrightarrow> triple P m Q E"
  by (simp add: triple_def)

lemma tripleD: "triple P m Q E \<Longrightarrow> P s \<Longrightarrow> case m s of (Inr x, s') \<Rightarrow> Q x s' | (Inl e, s') \<Rightarrow> E e s'"
  by (simp add: triple_def)

lemma triple_ex: "(\<And>t. triple (P t) m Q E) \<Longrightarrow> triple (\<lambda>s. \<exists>t. P t s) m Q E"
  by (rule tripleI, elim exE, rule tripleD)

lemma triple_fact: "(a \<Longrightarrow> triple P m Q E) \<Longrightarrow> triple (\<lambda>s. a \<and> P s) m Q E"
  by (rule tripleI, elim conjE, rule tripleD)

lemma triple_at: "(\<And>v. A v \<Longrightarrow> triple (\<lambda>s. f s = v) m Q E) \<Longrightarrow> triple (\<lambda>s. A (f s)) m Q E"
  by (rule tripleI, rule tripleD [of "\<lambda>s'. f s' = f _"]) auto

lemma triple_ret [triple_intros]: "(\<And>s. P s \<Longrightarrow> Q x s) \<Longrightarrow> triple P (ret x) Q E"
  by (simp add: triple_def ret_def)

lemma triple_raise [triple_intros]: "(\<And>s. P s \<Longrightarrow> E e s) \<Longrightarrow> triple P (raise e) Q E"
  by (simp add: triple_def raise_def)

lemma triple_get [triple_intros]: "(\<And>s. P s \<Longrightarrow> Q (f s) s) \<Longrightarrow> triple P (get_act f) Q E"
  by (simp add: triple_def get_act_def)

lemma triple_mod [triple_intros]: "(\<And>s. P s \<Longrightarrow> Q () (f s)) \<Longrightarrow> triple P (mod_act f) Q E"
  by (simp add: triple_def mod_act_def)

lemma triple_lift [triple_intros]:
  "(\<And>s x. P s \<Longrightarrow> r = Inr x \<Longrightarrow> Q x s) \<Longrightarrow> (\<And>s e. P s \<Longrightarrow> r = Inl e \<Longrightarrow> E e s) \<Longrightarrow> triple P (lift_sum r) Q E"
  by (cases r) (simp_all add: triple_def lift_sum_def)

lemma triple_bind [triple_intros]:
  "triple P m R E \<Longrightarrow> (\<And>x. triple (R x) (f x) Q E) \<Longrightarrow> triple P (bind_act m f) Q E"
  unfolding triple_def bind_act_def by (fastforce split: prod.splits sum.splits)

lemma triple_seq [triple_intros]:
  "triple P m (\<lambda>_. R) E \<Longrightarrow> triple R k Q E \<Longrightarrow> triple P (seq_act m k) Q E"
  unfolding triple_def seq_act_def by (fastforce split: prod.splits sum.splits)

lemma triple_if [triple_intros]:
  "(b \<Longrightarrow> triple P m Q E) \<Longrightarrow> (\<not> b \<Longrightarrow> triple P k Q E) \<Longrightarrow> triple P (if b then m else k) Q E"
  by simp

lemma triple_when [triple_intros]:
  "(b \<Longrightarrow> triple P m Q E) \<Longrightarrow> (\<And>s. \<not> b \<Longrightarrow> P s \<Longrightarrow> Q () s) \<Longrightarrow> triple P (when_act b m) Q E"
  by (simp add: when_act_def triple_ret)

lemma triple_catch:
  "triple P m Q R \<Longrightarrow> (\<And>e. C e \<Longrightarrow> triple (R e) (h e) Q E) \<Longrightarrow> (\<And>e s. \<not> C e \<Longrightarrow> R e s \<Longrightarrow> E e s) \<Longrightarrow>
    triple P (catch_act m C h) Q E"
proof (rule tripleI)
  fix s assume m: "triple P m Q R" and h: "\<And>e. C e \<Longrightarrow> triple (R e) (h e) Q E"
    and o: "\<And>e s. \<not> C e \<Longrightarrow> R e s \<Longrightarrow> E e s" and s: "P s"
  obtain r t where r: "m s = (r, t)" by (cases "m s")
  show "case catch_act m C h s of (Inr x, s') \<Rightarrow> Q x s' | (Inl e, s') \<Rightarrow> E e s'"
  proof (cases r)
    case (Inl e)
    with r have "R e t" using triple_Inl [OF m s] by simp
    with h [of e] o [of e t] r Inl show ?thesis by (auto simp: catch_act_def triple_def)
  next
    case (Inr x)
    with r triple_Inr [OF m s] show ?thesis by (simp add: catch_act_def)
  qed
qed

text \<open>An action that keeps an invariant satisfies the triple with it everywhere.\<close>

lemma triple_keeps: "keeps I m \<longleftrightarrow> triple I m (\<lambda>_. I) (\<lambda>_. I)"
  unfolding keeps_def triple_def by (fastforce split: prod.splits sum.splits)

lemma triple_unchanged:
  "unchanged f m \<Longrightarrow> (\<And>s. P s \<Longrightarrow> G (f s)) \<Longrightarrow> (\<And>x s. G (f s) \<Longrightarrow> Q x s) \<Longrightarrow> (\<And>e s. G (f s) \<Longrightarrow> E e s) \<Longrightarrow> triple P m Q E"
proof (rule tripleI)
  fix s assume "unchanged f m" "\<And>s. P s \<Longrightarrow> G (f s)" "\<And>x s. G (f s) \<Longrightarrow> Q x s" "\<And>e s. G (f s) \<Longrightarrow> E e s" "P s"
  then show "case m s of (Inr x, s') \<Rightarrow> Q x s' | (Inl e, s') \<Rightarrow> E e s'"
    using unchangedD [of f m s] by (cases "m s") (auto split: sum.split)
qed

text \<open>A property of the state that an action never looks at can be carried along.\<close>

lemma triple_frame:
  "keeps F m \<Longrightarrow> triple P m Q E \<Longrightarrow>
    triple (\<lambda>s. P s \<and> F s) m (\<lambda>x s. Q x s \<and> F s) (\<lambda>e s. E e s \<and> F s)"
  unfolding keeps_def triple_def by (fastforce split: prod.splits sum.splits)

end
