(* ===== verification/Cycler_Client.thy ===== *)
theory Cycler_Client
  imports Chassis Effects
begin

section \<open>The orchestrator's Modbus client\<close>

text \<open>
  \<open>orchestrator/cycler_client.py\<close>. The pymodbus client object is not under src/: a record
  \<open>P\<close> of its two operations over a connection state is a parameter. A read answers with the
  registers, or with \<open>None\<close> for an error response (\<open>rsp.isError()\<close>); both operations may raise.
  The result of a write is never inspected by the source.

  The locale \<open>modbus_link\<close> is the contract between client and chassis on a working
  connection: a write inside the register map reaches the data block, a read returns what the
  block stores. \<open>direct_port\<close> is the connection that calls the block itself.
\<close>

record 'c modbus_port =
  mb_read :: "nat \<Rightarrow> nat \<Rightarrow> ('c, int list option) act"
  mb_write :: "nat \<Rightarrow> int list \<Rightarrow> ('c, unit) act"

record channel_snapshot =
  sn_mode :: channel_mode
  sn_setpoint :: "real option"
  sn_voltage_v :: real
  sn_current_a :: real
  sn_temperature_c :: real
  sn_soc :: real
  sn_last_error :: error_code
  sn_cycle_count :: int

text \<open>
  The registers of one channel block, decoded. \<open>sn_setpoint\<close> is \<open>None\<close> where the two words
  spell an infinity or a NaN; no caller reads it.
\<close>

definition decode_snapshot :: "int list \<Rightarrow> channel_snapshot" where
  "decode_snapshot regs =
     \<lparr>sn_mode = mode_or_idle (regs ! creg MODE),
      sn_setpoint = decode_f32 (regs ! creg SETPOINT_HI) (regs ! creg SETPOINT_LO),
      sn_voltage_v = of_int (regs ! creg VOLTAGE_MV) / 1000,
      sn_current_a = of_int (from_int16_signed (regs ! creg CURRENT_MA)) / 1000,
      sn_temperature_c = of_int (regs ! creg TEMP_DC) / 10,
      sn_soc = of_int (regs ! creg SOC_PCTH) / 10000,
      sn_last_error = (case error_code_of_int (regs ! creg LAST_ERROR) of Some e \<Rightarrow> e | None \<Rightarrow> NONE),
      sn_cycle_count = regs ! creg CYCLE_COUNT\<rparr>"

definition read_channel :: "'c modbus_port \<Rightarrow> nat \<Rightarrow> ('c, channel_snapshot) act" where
  "read_channel P idx =
     bind_act (mb_read P (idx * CHANNEL_BLOCK_SIZE) CHANNEL_BLOCK_SIZE) (\<lambda>rsp.
       case rsp of None \<Rightarrow> raise OSErr | Some regs \<Rightarrow> ret (decode_snapshot regs))"

definition send_command ::
  "'c modbus_port \<Rightarrow> nat \<Rightarrow> channel_mode \<Rightarrow> real \<Rightarrow> int \<Rightarrow> int \<Rightarrow> ('c, unit) act" where
  "send_command P idx mode setpoint v_max t_max =
     bind_act (lift_sum (encode_f32 setpoint)) (\<lambda>w.
     seq_act (mb_write P (channel_addr idx SETPOINT_HI) [fst w, snd w])
     (seq_act (mb_write P (channel_addr idx SAFETY_V_MAX_MV) [v_max])
     (seq_act (mb_write P (channel_addr idx SAFETY_T_MAX_DC) [t_max])
     (mb_write P (channel_addr idx MODE) [mode_to_int mode]))))"

text \<open>The default arguments, which every caller of the source uses.\<close>

definition send_command_default :: "'c modbus_port \<Rightarrow> nat \<Rightarrow> channel_mode \<Rightarrow> real \<Rightarrow> ('c, unit) act" where
  "send_command_default P idx mode setpoint = send_command P idx mode setpoint 4500 600"

definition kick_channel :: "'c modbus_port \<Rightarrow> nat \<Rightarrow> ('c, unit) act" where
  "kick_channel P idx = mb_write P (channel_addr idx WATCHDOG_KICK) [1]"

definition client_set_cycle_index :: "'c modbus_port \<Rightarrow> nat \<Rightarrow> int \<Rightarrow> ('c, unit) act" where
  "client_set_cycle_index P idx cycle_index =
     mb_write P (channel_addr idx CYCLE_COUNT) [max 0 (min 0xFFFF cycle_index)]"

definition kick_chassis :: "'c modbus_port \<Rightarrow> ('c, unit) act" where
  "kick_chassis P = mb_write P (xreg CHASSIS_WATCHDOG_KICK) [1]"

definition read_register :: "'c modbus_port \<Rightarrow> nat \<Rightarrow> ('c, int) act" where
  "read_register P a = bind_act (mb_read P a 1) (\<lambda>rsp.
     case rsp of None \<Rightarrow> raise OSErr | Some regs \<Rightarrow> ret (regs ! 0))"

definition read_chassis_watchdog_status :: "'c modbus_port \<Rightarrow> ('c, int) act" where
  "read_chassis_watchdog_status P = read_register P (xreg CHASSIS_WATCHDOG_STATUS)"

definition read_chassis_chemistry :: "'c modbus_port \<Rightarrow> ('c, int) act" where
  "read_chassis_chemistry P = read_register P (xreg CHEMISTRY)"

definition write_chassis_chemistry :: "'c modbus_port \<Rightarrow> int \<Rightarrow> ('c, unit) act" where
  "write_chassis_chemistry P chemistry_id = mb_write P (xreg CHEMISTRY) [chemistry_id]"

subsection \<open>The contract of a working connection\<close>

locale modbus_link =
  fixes P :: "'c modbus_port" and R :: "'s sparse_ops" and has :: "'s \<Rightarrow> nat \<Rightarrow> bool"
    and dev :: "'c \<Rightarrow> 's chassis_sys"
  assumes store: "sparse_block R has"
    and write_link: "sys_ok has (dev c) \<Longrightarrow> writes_in has (sys_store (dev c)) a vs \<Longrightarrow>
      \<exists>c' cb. mb_write P a vs c = (Inr (), c') \<and>
        set_values R (sys_now (dev c)) a vs (sys_block (dev c)) = Inr cb \<and>
        dev c' = (dev c)\<lparr>sys_block := cb\<rparr>"
    and read_link: "sys_ok has (dev c) \<Longrightarrow> (\<forall>k < n. has (sys_store (dev c)) (a + k)) \<Longrightarrow>
      \<exists>c'. mb_read P a n c = (Inr (Some (sp_get R (sys_store (dev c)) a n)), c') \<and> dev c' = dev c"

definition direct_port :: "'s sparse_ops \<Rightarrow> 's chassis_sys modbus_port" where
  "direct_port R =
     \<lparr>mb_read = (\<lambda>a n sys. (Inr (Some (sp_get R (sys_store sys) a n)), sys)),
      mb_write = (\<lambda>a vs sys. case set_values R (sys_now sys) a vs (sys_block sys) of
          Inl e \<Rightarrow> (Inl e, sys) | Inr cb \<Rightarrow> (Inr (), sys\<lparr>sys_block := cb\<rparr>))\<rparr>"

lemma direct_port_link: "sparse_block R has \<Longrightarrow> modbus_link (direct_port R) R has (\<lambda>sys. sys)"
proof (rule modbus_link.intro)
  fix c :: "'a chassis_sys" and a vs
  assume sb: "sparse_block R has" and ok: "sys_ok has c" "writes_in has (sys_store c) a vs"
  from set_values_ok [OF sb, of "sys_block c" a vs "sys_now c"] ok
  obtain cb where "set_values R (sys_now c) a vs (sys_block c) = Inr cb" by (auto simp: sys_ok_def)
  then show "\<exists>c' cb. mb_write (direct_port R) a vs c = (Inr (), c') \<and>
      set_values R (sys_now c) a vs (sys_block c) = Inr cb \<and> c' = c\<lparr>sys_block := cb\<rparr>"
    by (simp add: direct_port_def)
qed (simp_all add: direct_port_def)

interpretation direct: modbus_link "direct_port dict_ops" dict_ops "\<lambda>m a. m a \<noteq> None" "\<lambda>sys. sys"
  by (rule direct_port_link [OF dict.sparse_block_axioms])

subsection \<open>What a register write does to a channel\<close>

abbreviation ap :: "real \<Rightarrow> channel_mode \<Rightarrow> real \<Rightarrow> int \<Rightarrow> int \<Rightarrow> channel \<Rightarrow> channel" where
  "ap now m q v t ch \<equiv> snd (apply_command now m q v t ch)"

definition command_reg :: "channel_reg \<Rightarrow> bool" where
  "command_reg r \<longleftrightarrow> r \<in> {MODE, SETPOINT_HI, SETPOINT_LO, SAFETY_V_MAX_MV, SAFETY_T_MAX_DC}"

lemma dispatch_creg:
  assumes "i < length (cb_channels cb)" "i < 200"
  shows "dispatch R now (channel_addr i r) cb = Inr (dispatch_channel R now i (creg r) cb)"
proof -
  have "\<not> CHASSIS_BASE \<le> channel_addr i r" using channel_addr_below_chassis [OF assms(2), of r] by simp
  moreover have "channel_addr i r - channel_base i = creg r" by (simp add: channel_addr_def)
  ultimately show ?thesis using assms(1) by (simp add: dispatch_def Let_def)
qed

lemma creg_eq_iff [simp]: "creg r = creg s \<longleftrightarrow> r = s"
  using creg_inj by blast

lemma channel_addr_Suc_hi: "Suc (channel_addr i SETPOINT_HI) = channel_addr i SETPOINT_LO"
  by (simp add: channel_addr_def)

context sparse_block
begin

abbreviation rd :: "'s \<Rightarrow> nat \<Rightarrow> channel_reg \<Rightarrow> int" where
  "rd s i r \<equiv> sp_rd R s (channel_addr i r)"

lemma has_channel_addr: "covers has n s \<Longrightarrow> i < n \<Longrightarrow> has s (channel_addr i r)"
  by (simp add: channel_addr_def covers_creg del: creg.simps)

lemma setpoint_words:
  assumes "covers has n s" "i < n"
  shows "sp_get R s (channel_base i + creg SETPOINT_HI) 2 = [rd s i SETPOINT_HI, rd s i SETPOINT_LO]"
proof -
  have "has s (channel_addr i SETPOINT_HI)" "has s (Suc (channel_addr i SETPOINT_HI))"
    unfolding channel_addr_Suc_hi using assms has_channel_addr by blast+
  from get_two [OF this] show ?thesis by (simp only: channel_addr_Suc_hi) (simp add: channel_addr_def)
qed

lemma dispatch_command:
  assumes "covers has (length (cb_channels cb)) (cb_store cb)" "i < length (cb_channels cb)" "i < 200"
    "command_reg r" "decode_f32 (rd (cb_store cb) i SETPOINT_HI) (rd (cb_store cb) i SETPOINT_LO) = Some q"
  shows "dispatch R now (channel_addr i r) cb = Inr (upd_channel i (ap now
      (mode_or_idle (rd (cb_store cb) i MODE)) q
      (rd (cb_store cb) i SAFETY_V_MAX_MV) (rd (cb_store cb) i SAFETY_T_MAX_DC)) cb)"
proof -
  have "creg r \<in> {creg MODE, creg SETPOINT_HI, creg SETPOINT_LO, creg SAFETY_V_MAX_MV, creg SAFETY_T_MAX_DC}"
    "creg r \<noteq> creg WATCHDOG_KICK" "creg r \<noteq> creg CYCLE_COUNT"
    using assms(4) by (auto simp: command_reg_def simp del: creg.simps)
  then show ?thesis
    unfolding dispatch_creg [OF assms(2,3)] dispatch_channel_def Let_def setpoint_words [OF assms(1,2)]
    using assms(5) by (simp only: if_False if_True nth_Cons_0 nth_Cons_Suc One_nat_def option.case
        channel_addr_def [symmetric])
qed

text \<open>One single-register write of a command.\<close>

lemma set_values_command:
  fixes cb v i r
  defines "s \<equiv> sp_set R (cb_store cb) (channel_addr i r) [v]"
  assumes "block_ok has cb" "i < length (cb_channels cb)" "command_reg r"
    "decode_f32 (rd s i SETPOINT_HI) (rd s i SETPOINT_LO) = Some q"
  shows "set_values R now (channel_addr i r) [v] cb = Inr (upd_channel i (ap now
      (mode_or_idle (rd s i MODE)) q (rd s i SAFETY_V_MAX_MV) (rd s i SAFETY_T_MAX_DC)) (cb\<lparr>cb_store := s\<rparr>))"
proof -
  have c: "covers has (length (cb_channels cb)) s" "i < 200"
    using assms has_channel_addr by (auto simp: block_ok_def covers_sp_set)
  have "dispatch R now (channel_addr i r) (cb\<lparr>cb_store := s\<rparr>) = Inr (upd_channel i (ap now
      (mode_or_idle (rd s i MODE)) q (rd s i SAFETY_V_MAX_MV) (rd s i SAFETY_T_MAX_DC)) (cb\<lparr>cb_store := s\<rparr>))"
    using dispatch_command [of "cb\<lparr>cb_store := s\<rparr>" i r q now] c assms(3-5) by simp
  then show ?thesis by (simp add: set_values_def Let_def s_def [symmetric])
qed

lemma set_values_setpoint:
  fixes cb hi lo i
  defines "s \<equiv> sp_set R (cb_store cb) (channel_addr i SETPOINT_HI) [hi, lo]"
  assumes "block_ok has cb" "i < length (cb_channels cb)" "decode_f32 hi lo = Some q"
  shows "set_values R now (channel_addr i SETPOINT_HI) [hi, lo] cb = Inr (upd_channel i (ap now
      (mode_or_idle (rd s i MODE)) q (rd s i SAFETY_V_MAX_MV) (rd s i SAFETY_T_MAX_DC)) (cb\<lparr>cb_store := s\<rparr>))"
proof -
  let ?h = "channel_addr i SETPOINT_HI"
  have cv: "covers has (length (cb_channels cb)) (cb_store cb)" and i: "i < 200"
    using assms by (auto simp: block_ok_def)
  have hh: "has (cb_store cb) ?h" "has (cb_store cb) (Suc ?h)"
    unfolding channel_addr_Suc_hi using cv assms(3) has_channel_addr by blast+
  then have w: "writes_in has (cb_store cb) ?h [hi, lo]" by simp
  have c: "covers has (length (cb_channels cb)) s" using cv w by (simp add: s_def covers_sp_set)
  have "sp_rd R s ?h = hi" "sp_rd R s (Suc ?h) = lo"
    using hh by (simp_all add: s_def rd_sp_set [OF w])
  then have q: "decode_f32 (rd s i SETPOINT_HI) (rd s i SETPOINT_LO) = Some q"
    using assms(4) by (simp add: channel_addr_Suc_hi)
  let ?f = "ap now (mode_or_idle (rd s i MODE)) q (rd s i SAFETY_V_MAX_MV) (rd s i SAFETY_T_MAX_DC)"
  let ?cb = "cb\<lparr>cb_store := s\<rparr>"
  have "dispatch R now ?h ?cb = Inr (upd_channel i ?f ?cb)"
    using dispatch_command [of ?cb i SETPOINT_HI q now] c i assms(3) q by (simp add: command_reg_def)
  moreover have "dispatch R now (Suc ?h) (upd_channel i ?f ?cb) = Inr (upd_channel i ?f (upd_channel i ?f ?cb))"
    using dispatch_command [of "upd_channel i ?f ?cb" i SETPOINT_LO q now] c i assms(3) q
    by (simp add: command_reg_def channel_addr_Suc_hi)
  moreover have "upd_channel i ?f (upd_channel i ?f ?cb) = upd_channel i ?f ?cb"
    using assms(3) by (simp add: upd_channel_def apply_command_again)
  ultimately show ?thesis by (simp add: set_values_def Let_def s_def [symmetric] upt_rec)
qed

end

subsection \<open>A command end to end\<close>

text \<open>
  The channel states a command goes through: the setpoint write, the two envelope writes, the
  mode write. \<open>m0\<close>, \<open>v0\<close>, \<open>t0\<close> are what the registers held before.
\<close>

definition after_setpoint :: "real \<Rightarrow> channel_mode \<Rightarrow> int \<Rightarrow> int \<Rightarrow> real \<Rightarrow> channel \<Rightarrow> channel" where
  "after_setpoint now m0 v0 t0 q ch = ap now m0 q v0 t0 ch"

definition after_command ::
  "real \<Rightarrow> channel_mode \<Rightarrow> int \<Rightarrow> int \<Rightarrow> channel_mode \<Rightarrow> real \<Rightarrow> int \<Rightarrow> int \<Rightarrow> channel \<Rightarrow> channel" where
  "after_command now m0 v0 t0 m q v t ch =
     ap now m q v t (ap now m0 q v t (ap now m0 q v t0 (after_setpoint now m0 v0 t0 q ch)))"

context modbus_link
begin

abbreviation reg :: "'c \<Rightarrow> nat \<Rightarrow> channel_reg \<Rightarrow> int" where
  "reg c i r \<equiv> sp_rd R (sys_store (dev c)) (channel_addr i r)"

abbreviation chans :: "'c \<Rightarrow> channel list" where
  "chans c \<equiv> sys_channels (dev c)"

lemma covers_link: "sys_ok has (dev c) \<Longrightarrow> covers has (length (chans c)) (sys_store (dev c)) \<and> length (chans c) \<le> 200"
  by (simp add: sys_ok_def block_ok_def)

lemma has_link: "sys_ok has (dev c) \<Longrightarrow> i < length (chans c) \<Longrightarrow> has (sys_store (dev c)) (channel_addr i r)"
  using covers_link sparse_block.has_channel_addr [OF store] by blast

text \<open>A write of a command register: the channel takes the command the registers now spell.\<close>

lemma write_command:
  assumes "sys_ok has (dev c)" "i < length (chans c)" "command_reg r" "r \<notin> {SETPOINT_HI, SETPOINT_LO}"
    "decode_f32 (reg c i SETPOINT_HI) (reg c i SETPOINT_LO) = Some q"
  shows "\<exists>c'. mb_write P (channel_addr i r) [v] c = (Inr (), c') \<and> sys_ok has (dev c') \<and>
    sys_now (dev c') = sys_now (dev c) \<and>
    (\<forall>r'. reg c' i r' = (if r' = r then v else reg c i r')) \<and>
    chans c' = (chans c)[i := ap (sys_now (dev c)) (mode_or_idle (reg c' i MODE)) q
        (reg c' i SAFETY_V_MAX_MV) (reg c' i SAFETY_T_MAX_DC) (chans c ! i)]"
proof -
  have h: "has (sys_store (dev c)) (channel_addr i r')" for r' using has_link assms(1,2) by blast
  then have w: "writes_in has (sys_store (dev c)) (channel_addr i r) [v]" by simp
  from write_link [OF assms(1) w] obtain c' cb where c': "mb_write P (channel_addr i r) [v] c = (Inr (), c')"
    "set_values R (sys_now (dev c)) (channel_addr i r) [v] (sys_block (dev c)) = Inr cb"
    "dev c' = (dev c)\<lparr>sys_block := cb\<rparr>" by blast
  have ok: "block_ok has (sys_block (dev c))" using assms(1) by (simp add: sys_ok_def)
  from set_values_ok [OF store ok w, of "sys_now (dev c)"] c' have ok': "sys_ok has (dev c')" by (auto simp: sys_ok_def)
  let ?s = "sp_set R (sys_store (dev c)) (channel_addr i r) [v]"
  have rd: "sp_rd R ?s (channel_addr i r') = (if r' = r then v else reg c i r')" for r'
    using sparse_block.rd_sp_set [OF store w h, of r']
    by (auto simp del: channel_addr_eq_iff dest: channel_addr_inj) (metis channel_addr_eq_iff le_less_Suc_eq)
  have q: "decode_f32 (sp_rd R ?s (channel_addr i SETPOINT_HI)) (sp_rd R ?s (channel_addr i SETPOINT_LO)) = Some q"
    using assms(4,5) by (auto simp: rd)
  note sv = sparse_block.set_values_command [OF store ok assms(2,3) q, of "sys_now (dev c)"]
  show ?thesis using c' ok' sv rd assms(2) by auto
qed

lemma write_setpoint:
  assumes "sys_ok has (dev c)" "i < length (chans c)" "decode_f32 hi lo = Some q"
  shows "\<exists>c'. mb_write P (channel_addr i SETPOINT_HI) [hi, lo] c = (Inr (), c') \<and> sys_ok has (dev c') \<and>
    sys_now (dev c') = sys_now (dev c) \<and>
    (\<forall>r'. reg c' i r' = (if r' = SETPOINT_HI then hi else if r' = SETPOINT_LO then lo else reg c i r')) \<and>
    chans c' = (chans c)[i := after_setpoint (sys_now (dev c)) (mode_or_idle (reg c i MODE))
        (reg c i SAFETY_V_MAX_MV) (reg c i SAFETY_T_MAX_DC) q (chans c ! i)]"
proof -
  let ?h = "channel_addr i SETPOINT_HI"
  have h: "has (sys_store (dev c)) (channel_addr i r')" for r' using has_link assms(1,2) by blast
  then have w: "writes_in has (sys_store (dev c)) ?h [hi, lo]" by (simp add: channel_addr_Suc_hi)
  from write_link [OF assms(1) w] obtain c' cb where c': "mb_write P ?h [hi, lo] c = (Inr (), c')"
    "set_values R (sys_now (dev c)) ?h [hi, lo] (sys_block (dev c)) = Inr cb"
    "dev c' = (dev c)\<lparr>sys_block := cb\<rparr>" by blast
  have ok: "block_ok has (sys_block (dev c))" using assms(1) by (simp add: sys_ok_def)
  from set_values_ok [OF store ok w, of "sys_now (dev c)"] c' have ok': "sys_ok has (dev c')" by (auto simp: sys_ok_def)
  let ?s = "sp_set R (sys_store (dev c)) ?h [hi, lo]"
  have rd: "sp_rd R ?s (channel_addr i r') = (if r' = SETPOINT_HI then hi else if r' = SETPOINT_LO then lo else reg c i r')" for r'
    using sparse_block.rd_sp_set [OF store w h, of r'] by (cases r') (simp_all add: channel_addr_def)
  note sv = sparse_block.set_values_setpoint [OF store ok assms(2,3), of "sys_now (dev c)"]
  show ?thesis using c' ok' sv rd assms(2) by (auto simp: after_setpoint_def)
qed

lemma send_command_run:
  assumes "sys_ok has (dev c)" "i < length (chans c)" "encode_f32 sp = Inr (hi, lo)"
  shows "\<exists>c'. send_command P i m sp v t c = (Inr (), c') \<and> sys_ok has (dev c') \<and>
    sys_now (dev c') = sys_now (dev c) \<and>
    reg c' i MODE = mode_to_int m \<and> reg c' i SETPOINT_HI = hi \<and> reg c' i SETPOINT_LO = lo \<and>
    reg c' i SAFETY_V_MAX_MV = v \<and> reg c' i SAFETY_T_MAX_DC = t \<and>
    chans c' = (chans c)[i := after_command (sys_now (dev c)) (mode_or_idle (reg c i MODE))
        (reg c i SAFETY_V_MAX_MV) (reg c i SAFETY_T_MAX_DC) m (f32_trip sp) v t (chans c ! i)]"
proof -
  let ?q = "f32_trip sp"
  have q: "decode_f32 hi lo = Some ?q" using decode_encode_trip assms(3) by blast
  obtain c1 where c1: "mb_write P (channel_addr i SETPOINT_HI) [hi, lo] c = (Inr (), c1)" "sys_ok has (dev c1)"
    "sys_now (dev c1) = sys_now (dev c)"
    "\<forall>r'. reg c1 i r' = (if r' = SETPOINT_HI then hi else if r' = SETPOINT_LO then lo else reg c i r')"
    "chans c1 = (chans c)[i := after_setpoint (sys_now (dev c)) (mode_or_idle (reg c i MODE))
        (reg c i SAFETY_V_MAX_MV) (reg c i SAFETY_T_MAX_DC) ?q (chans c ! i)]"
    using write_setpoint [OF assms(1,2) q] by blast
  have i1: "i < length (chans c1)" using c1(5) assms(2) by simp
  obtain c2 where c2: "mb_write P (channel_addr i SAFETY_V_MAX_MV) [v] c1 = (Inr (), c2)" "sys_ok has (dev c2)"
    "sys_now (dev c2) = sys_now (dev c1)"
    "\<forall>r'. reg c2 i r' = (if r' = SAFETY_V_MAX_MV then v else reg c1 i r')"
    "chans c2 = (chans c1)[i := ap (sys_now (dev c1)) (mode_or_idle (reg c2 i MODE)) ?q
        (reg c2 i SAFETY_V_MAX_MV) (reg c2 i SAFETY_T_MAX_DC) (chans c1 ! i)]"
    using write_command [OF c1(2) i1, of SAFETY_V_MAX_MV ?q v] q c1(4) by (auto simp: command_reg_def)
  have i2: "i < length (chans c2)" using c2(5) i1 by simp
  obtain c3 where c3: "mb_write P (channel_addr i SAFETY_T_MAX_DC) [t] c2 = (Inr (), c3)" "sys_ok has (dev c3)"
    "sys_now (dev c3) = sys_now (dev c2)"
    "\<forall>r'. reg c3 i r' = (if r' = SAFETY_T_MAX_DC then t else reg c2 i r')"
    "chans c3 = (chans c2)[i := ap (sys_now (dev c2)) (mode_or_idle (reg c3 i MODE)) ?q
        (reg c3 i SAFETY_V_MAX_MV) (reg c3 i SAFETY_T_MAX_DC) (chans c2 ! i)]"
    using write_command [OF c2(2) i2, of SAFETY_T_MAX_DC ?q t] q c1(4) c2(4) by (auto simp: command_reg_def)
  have i3: "i < length (chans c3)" using c3(5) i2 by simp
  obtain c4 where c4: "mb_write P (channel_addr i MODE) [mode_to_int m] c3 = (Inr (), c4)" "sys_ok has (dev c4)"
    "sys_now (dev c4) = sys_now (dev c3)"
    "\<forall>r'. reg c4 i r' = (if r' = MODE then mode_to_int m else reg c3 i r')"
    "chans c4 = (chans c3)[i := ap (sys_now (dev c3)) (mode_or_idle (reg c4 i MODE)) ?q
        (reg c4 i SAFETY_V_MAX_MV) (reg c4 i SAFETY_T_MAX_DC) (chans c3 ! i)]"
    using write_command [OF c3(2) i3, of MODE ?q "mode_to_int m"] q c1(4) c2(4) c3(4)
    by (auto simp: command_reg_def)
  have "send_command P i m sp v t c = (Inr (), c4)"
    using assms(3) c1(1) c2(1) c3(1) c4(1)
    by (simp add: send_command_def bind_act_def seq_act_def lift_sum_def)
  moreover have "chans c4 = (chans c)[i := after_command (sys_now (dev c)) (mode_or_idle (reg c i MODE))
        (reg c i SAFETY_V_MAX_MV) (reg c i SAFETY_T_MAX_DC) m ?q v t (chans c ! i)]"
    using assms(2) by (simp add: c4 c3 c2 c1 after_command_def)
  ultimately show ?thesis using c1(3) c2(3) c3(3) c4 c1(4) c2(4) c3(4) by auto
qed

text \<open>The single-register operations.\<close>

lemma kick_channel_run:
  assumes "sys_ok has (dev c)" "i < length (chans c)"
  shows "\<exists>c'. kick_channel P i c = (Inr (), c') \<and> sys_ok has (dev c') \<and>
    sys_now (dev c') = sys_now (dev c) \<and>
    chans c' = (chans c)[i := kick_watchdog (sys_now (dev c)) (chans c ! i)]"
proof -
  let ?a = "channel_addr i WATCHDOG_KICK"
  have w: "writes_in has (sys_store (dev c)) ?a [1]" using has_link assms by simp
  from write_link [OF assms(1) w] obtain c' cb where c': "mb_write P ?a [1] c = (Inr (), c')"
    "set_values R (sys_now (dev c)) ?a [1] (sys_block (dev c)) = Inr cb"
    "dev c' = (dev c)\<lparr>sys_block := cb\<rparr>" by blast
  from set_values_ok [OF store _ w, of "sys_now (dev c)"] c' assms(1) have "sys_ok has (dev c')"
    by (auto simp: sys_ok_def)
  moreover have "dispatch R now ?a b = Inr (upd_channel i (kick_watchdog now) b)"
    if "length (cb_channels b) = length (chans c)" for now b
    using dispatch_creg [of i b R now WATCHDOG_KICK] that assms covers_link [OF assms(1)]
    by (simp add: dispatch_channel_def)
  ultimately show ?thesis using c' by (auto simp: kick_channel_def set_values_def Let_def)
qed

lemma cycle_index_run:
  assumes "sys_ok has (dev c)" "i < length (chans c)"
  shows "\<exists>c'. client_set_cycle_index P i k c = (Inr (), c') \<and> sys_ok has (dev c') \<and>
    chans c' = (chans c)[i := set_cycle_index (clamp 0 65535 k) (chans c ! i)]"
proof -
  let ?a = "channel_addr i CYCLE_COUNT" and ?v = "clamp 0 65535 k"
  have h: "has (sys_store (dev c)) ?a" using has_link assms by blast
  then have w: "writes_in has (sys_store (dev c)) ?a [?v]" by simp
  from write_link [OF assms(1) w] obtain c' cb where c': "mb_write P ?a [?v] c = (Inr (), c')"
    "set_values R (sys_now (dev c)) ?a [?v] (sys_block (dev c)) = Inr cb"
    "dev c' = (dev c)\<lparr>sys_block := cb\<rparr>" by blast
  from set_values_ok [OF store _ w, of "sys_now (dev c)"] c' assms(1) have "sys_ok has (dev c')"
    by (auto simp: sys_ok_def)
  moreover have "sp_rd R (sp_set R (sys_store (dev c)) ?a [?v]) ?a = ?v"
    using sparse_block.rd_sp_set [OF store w h] by simp
  moreover have "dispatch R now ?a b = Inr (upd_channel i (set_cycle_index (sp_rd R (cb_store b) ?a)) b)"
    if "length (cb_channels b) = length (chans c)" for now b
    using dispatch_creg [of i b R now CYCLE_COUNT] that assms covers_link [OF assms(1)]
    by (simp add: dispatch_channel_def channel_addr_def)
  ultimately show ?thesis using c'
    by (auto simp: client_set_cycle_index_def set_values_def Let_def clamp_def)
qed

end

subsection \<open>What a command leaves behind\<close>

lemma after_setpoint_frame [simp]:
  "ch_cell (after_setpoint n m0 v0 t0 q ch) = ch_cell ch"
  "ch_latched_error (after_setpoint n m0 v0 t0 q ch) = ch_latched_error ch"
  "ch_cycle_index (after_setpoint n m0 v0 t0 q ch) = ch_cycle_index ch"
  "ch_idx (after_setpoint n m0 v0 t0 q ch) = ch_idx ch"
  "ch_cv_current_limit_a (after_setpoint n m0 v0 t0 q ch) = ch_cv_current_limit_a ch"
  "ch_cv_kp (after_setpoint n m0 v0 t0 q ch) = ch_cv_kp ch"
  by (simp_all add: after_setpoint_def)

lemma after_command_frame [simp]:
  "ch_cell (after_command n m0 v0 t0 m q v t ch) = ch_cell ch"
  "ch_latched_error (after_command n m0 v0 t0 m q v t ch) = ch_latched_error ch"
  "ch_cycle_index (after_command n m0 v0 t0 m q v t ch) = ch_cycle_index ch"
  "ch_idx (after_command n m0 v0 t0 m q v t ch) = ch_idx ch"
  "ch_cv_current_limit_a (after_command n m0 v0 t0 m q v t ch) = ch_cv_current_limit_a ch"
  "ch_cv_kp (after_command n m0 v0 t0 m q v t ch) = ch_cv_kp ch"
  by (simp_all add: after_command_def)

lemma after_command_accepts:
  assumes "ch_latched_error ch = NONE \<or> m = Idle"
  shows "ch_mode (after_command n m0 v0 t0 m q v t ch) = m"
    "\<bar>ch_setpoint (after_command n m0 v0 t0 m q v t ch) - q\<bar> \<le> 0.000000001"
    "ch_safety_v_max_mv (after_command n m0 v0 t0 m q v t ch) = v"
    "ch_safety_t_max_dc (after_command n m0 v0 t0 m q v t ch) = t"
  unfolding after_command_def using assms by (intro apply_command_accepts; simp)+

text \<open>A channel that already runs a command ignores it.\<close>

lemma ap_same:
  assumes "ch_mode ch = m" "\<bar>ch_setpoint ch - q\<bar> \<le> 0.000000001" "ch_safety_v_max_mv ch = v" "ch_safety_t_max_dc ch = t"
  shows "ap now m q v t ch = ch"
  using assms by (simp add: apply_command_def Let_def)

lemma after_command_again:
  assumes "ch_latched_error ch = NONE \<or> m = Idle"
  shows "after_command now' m v t m q v t (after_command now m0 v0 t0 m q v t ch) = after_command now m0 v0 t0 m q v t ch"
  using ap_same [OF after_command_accepts [OF assms]] by (simp add: after_command_def [of now'] after_setpoint_def)

subsection \<open>What a reader sees after the mirror has run\<close>

text \<open>The snapshot of a channel, at the resolution of the registers.\<close>

definition snapshot_of :: "channel \<Rightarrow> cell_state \<Rightarrow> channel_snapshot" where
  "snapshot_of ch st =
     \<lparr>sn_mode = ch_mode ch, sn_setpoint = Some (ch_setpoint ch),
      sn_voltage_v = of_int (u16_clamp (st_voltage_v st * 1000)) / 1000,
      sn_current_a = of_int (from_int16_signed (to_int16_signed (py_int (st_current_a st * 1000)))) / 1000,
      sn_temperature_c = of_int (u16_clamp (st_temperature_c st * 10)) / 10,
      sn_soc = of_int (u16_clamp (st_soc st * 10000)) / 10000,
      sn_last_error = ch_latched_error ch,
      sn_cycle_count = u16_clamp (of_int (ch_cycle_index ch))\<rparr>"

text \<open>The register value the mirror leaves for each field.\<close>

lemma last_write_mirror:
  "last_write (mirror_writes i ch st sp) (channel_base i + creg MODE) d = mode_to_int (ch_mode ch)"
  "last_write (mirror_writes i ch st sp) (channel_base i + creg SETPOINT_HI) d = fst sp"
  "last_write (mirror_writes i ch st sp) (channel_base i + creg SETPOINT_LO) d = snd sp"
  "last_write (mirror_writes i ch st sp) (channel_base i + creg VOLTAGE_MV) d = u16_clamp (st_voltage_v st * 1000)"
  "last_write (mirror_writes i ch st sp) (channel_base i + creg CURRENT_MA) d = to_int16_signed (py_int (st_current_a st * 1000))"
  "last_write (mirror_writes i ch st sp) (channel_base i + creg TEMP_DC) d = u16_clamp (st_temperature_c st * 10)"
  "last_write (mirror_writes i ch st sp) (channel_base i + creg SOC_PCTH) d = u16_clamp (st_soc st * 10000)"
  "last_write (mirror_writes i ch st sp) (channel_base i + creg LAST_ERROR) d = error_code_int (ch_latched_error ch)"
  "last_write (mirror_writes i ch st sp) (channel_base i + creg CYCLE_COUNT) d = u16_clamp (of_int (ch_cycle_index ch))"
  by (simp_all add: mirror_writes_def Let_def)

lemma mirror_channels_regs:
  assumes "sparse_block R has" "mirror_channels np R 0 chs s = Inr s'" "covers has (length chs) s"
    "i < length chs" "channel_read_state np (chs ! i) = Inr st" "encode_f32 (ch_setpoint (chs ! i)) = Inr sp"
  shows "sp_rd R s' (channel_base i + creg r) =
    last_write (mirror_writes i (chs ! i) st sp) (channel_base i + creg r) (sp_rd R s (channel_base i + creg r))"
proof -
  have "(channel_base i + creg r) div CHANNEL_BLOCK_SIZE = i"
    using channel_addr_div [of i r] by (simp add: channel_addr_def del: channel_addr_div)
  moreover have "has s (channel_base i + creg r)" using assms(3,4) by (rule covers_creg)
  ultimately show ?thesis
    using sparse_block.mirror_channels_spec [OF assms(1,2,3)] assms(4-6) by (simp add: Let_def del: creg.simps)
qed

lemma mirror_tick_regs:
  assumes "sparse_block R has" "mirror_tick np R cb = Inr cb'" "block_ok has cb" "i < length (cb_channels cb)"
    "channel_read_state np (cb_channels cb ! i) = Inr st" "encode_f32 (ch_setpoint (cb_channels cb ! i)) = Inr sp"
  shows "sp_rd R (cb_store cb') (channel_base i + creg r) =
    last_write (mirror_writes i (cb_channels cb ! i) st sp) (channel_base i + creg r)
      (sp_rd R (cb_store cb) (channel_base i + creg r))"
proof -
  note sb = assms(1)
  let ?n = "length (cb_channels cb)" and ?a = "channel_base i + creg r"
  have cov: "covers has ?n (cb_store cb)" and n: "?n \<le> 200" using assms(3) by (simp_all add: block_ok_def)
  have "cb_channels cb \<noteq> []" using assms(4) by auto
  with assms(2) obtain s x v where s: "mirror_channels np R 0 (cb_channels cb) (cb_store cb) = Inr s"
    and cb': "cb_store cb' = sp_set R (sp_set R s (xreg CHASSIS_WATCHDOG_STATUS) [x]) (xreg CHEMISTRY) [v]"
    by (auto simp: mirror_tick_def Let_def simp del: xreg.simps)
  have c: "covers has ?n s" using sparse_block.mirror_channels_spec [OF sb s cov] by simp
  have w1: "writes_in has s (xreg CHASSIS_WATCHDOG_STATUS) [x]" using covers_xreg [OF c] by (simp del: xreg.simps)
  have w2: "writes_in has (sp_set R s (xreg CHASSIS_WATCHDOG_STATUS) [x]) (xreg CHEMISTRY) [v]"
    using covers_xreg [OF c] sparse_block.has_sp_set [OF sb w1] by (simp del: xreg.simps)
  have h: "has s ?a" using c assms(4) by (rule covers_creg)
  have "?a < CHASSIS_BASE" using channel_addr_below_chassis [of i r] assms(4) n by (simp add: channel_addr_def)
  then have far: "\<not> xreg x \<le> ?a" for x using xreg_ge_base [of x] by linarith
  have "sp_rd R (cb_store cb') ?a = sp_rd R s ?a"
    unfolding cb' using far h sparse_block.rd_sp_set [OF sb w1] sparse_block.rd_sp_set [OF sb w2]
      sparse_block.has_sp_set [OF sb w1] by (simp del: xreg.simps creg.simps)
  then show ?thesis using mirror_channels_regs [OF sb s cov assms(4-6)] by simp
qed

context modbus_link
begin

lemma read_channel_regs:
  assumes "sys_ok has (dev c)" "i < length (chans c)"
  shows "\<exists>c'. read_channel P i c = (Inr (decode_snapshot (map (\<lambda>k. sp_rd R (sys_store (dev c)) (channel_base i + k))
      [0..<CHANNEL_BLOCK_SIZE])), c') \<and> dev c' = dev c"
proof -
  have "\<forall>k < CHANNEL_BLOCK_SIZE. has (sys_store (dev c)) (channel_base i + k)"
    using covers_link [OF assms(1)] assms(2) by (simp add: covers_def)
  with read_link [OF assms(1) this] sparse_block.get_block [OF store this] show ?thesis
    by (auto simp: read_channel_def bind_act_def ret_def channel_base_def)
qed

lemma read_after_mirror:
  assumes "sys_ok has (dev c)" "i < length (chans c)" "mirror_tick np R (sys_block (dev c)) = Inr cb"
    "dev c1 = (dev c)\<lparr>sys_block := cb\<rparr>"
  shows "\<exists>c' st. channel_read_state np (chans c ! i) = Inr st \<and>
    read_channel P i c1 = (Inr (snapshot_of (chans c ! i) st), c') \<and> dev c' = dev c1"
proof -
  have bo: "block_ok has (sys_block (dev c))" using assms(1) by (simp add: sys_ok_def)
  have ok: "channel_ok (chans c ! i)" "f32_exact (ch_setpoint (chans c ! i))"
    using bo assms(2) by (auto simp: block_ok_def dest: channels_ok_nth)
  obtain st where st: "channel_read_state np (chans c ! i) = Inr st" using channel_ok_read [OF ok(1)] by blast
  obtain hi lo where sp: "encode_f32 (ch_setpoint (chans c ! i)) = Inr (hi, lo)" using f32_exact_encode [OF ok(2)] by blast
  have d: "decode_f32 hi lo = Some (ch_setpoint (chans c ! i))"
    using decode_encode_trip [OF sp] ok(2) by simp
  from mirror_tick_ok [OF store bo, of np] assms(3,4)
  have ok1: "sys_ok has (dev c1)" and ch1: "chans c1 = chans c" by (auto simp: sys_ok_def)
  note regs = mirror_tick_regs [OF store assms(3) bo assms(2) st sp]
  have rd: "map (\<lambda>k. sp_rd R (sys_store (dev c1)) (channel_base i + k)) [0..<CHANNEL_BLOCK_SIZE] ! creg r =
      last_write (mirror_writes i (chans c ! i) st (hi, lo)) (channel_base i + creg r)
        (sp_rd R (cb_store (sys_block (dev c))) (channel_base i + creg r))" for r
    using creg_less_block [of r] regs [of r] assms(4) by simp
  have "decode_snapshot (map (\<lambda>k. sp_rd R (sys_store (dev c1)) (channel_base i + k)) [0..<CHANNEL_BLOCK_SIZE]) =
      snapshot_of (chans c ! i) st"
    unfolding decode_snapshot_def snapshot_of_def rd last_write_mirror by (simp add: d)
  with read_channel_regs [OF ok1, of i] assms(2) ch1 st show ?thesis by auto
qed

lemma chemistry_run:
  assumes "sys_ok has (dev c)"
  shows "\<exists>c' cb. write_chassis_chemistry P v c = (Inr (), c') \<and> sys_ok has (dev c') \<and>
    (\<exists>c''. read_chassis_chemistry P c' = (Inr v, c'') \<and> dev c'' = dev c') \<and>
    set_chemistry v (sys_block (dev c)\<lparr>cb_store := sys_store (dev c')\<rparr>) = Inr cb \<and> chans c' = cb_channels cb"
proof -
  let ?a = "xreg CHEMISTRY"
  have h: "has (sys_store (dev c)) ?a" by (rule covers_xreg [OF conjunct1 [OF covers_link [OF assms]]])
  then have w: "writes_in has (sys_store (dev c)) ?a [v]" by simp
  from write_link [OF assms w] obtain c' cb where c': "mb_write P ?a [v] c = (Inr (), c')"
    "set_values R (sys_now (dev c)) ?a [v] (sys_block (dev c)) = Inr cb"
    "dev c' = (dev c)\<lparr>sys_block := cb\<rparr>" by blast
  from set_values_ok [OF store _ w, of "sys_now (dev c)"] c' assms
  have ok': "sys_ok has (dev c')" and st: "cb_store cb = sp_set R (sys_store (dev c)) ?a [v]"
    by (auto simp: sys_ok_def)
  have rd: "sp_rd R (cb_store cb) ?a = v"
    using sparse_block.rd_sp_set [OF store w h] st by simp
  have h': "has (sys_store (dev c')) ?a" by (rule covers_xreg [OF conjunct1 [OF covers_link [OF ok']]])
  then have rr: "\<exists>c''. mb_read P ?a 1 c' = (Inr (Some [v]), c'') \<and> dev c'' = dev c'"
    using read_link [OF ok', of 1 ?a] sparse_block.get_block [OF store, of 1 "sys_store (dev c')" ?a] rd c'(3)
    by (auto simp del: xreg.simps)
  have "dispatch R (sys_now (dev c)) ?a (sys_block (dev c)\<lparr>cb_store := cb_store cb\<rparr>) =
      set_chemistry v (sys_block (dev c)\<lparr>cb_store := cb_store cb\<rparr>)"
    using xreg_ge_base [of CHEMISTRY] rd by (simp add: dispatch_def)
  then have "set_chemistry v (sys_block (dev c)\<lparr>cb_store := cb_store cb\<rparr>) = Inr cb"
    using c'(2) unfolding set_values_def Let_def st [symmetric] by (simp del: xreg.simps)
  moreover have "\<exists>c''. read_chassis_chemistry P c' = (Inr v, c'') \<and> dev c'' = dev c'"
    using rr by (auto simp: read_chassis_chemistry_def read_register_def bind_act_def ret_def simp del: xreg.simps)
  ultimately show ?thesis using c' ok'
    unfolding write_chassis_chemistry_def by (intro exI [of _ c'] exI [of _ cb]) simp
qed

end

end
