(* ===== verification/Cycler_Props.thy ===== *)
theory Cycler_Props
  imports Cycler_Client
begin

section \<open>What the cycler promises\<close>

text \<open>
  The properties of the cycler and of its client: safety of a channel in any interleaving of
  the container's loops, the effect of a command over the wire, and the numbers on it. The
  witnesses run on the store \<open>dict_ops\<close>, the interpolation \<open>lin_interp\<close> and the connection
  \<open>direct_port\<close>.
\<close>

subsection \<open>Concrete states\<close>

abbreviation has_dict :: "(nat \<Rightarrow> int option) \<Rightarrow> nat \<Rightarrow> bool" where
  "has_dict m a \<equiv> m a \<noteq> None"

definition cfg_default :: chassis_cfg where
  "cfg_default = \<lparr>cfg_dt_sim = 1 / 10, cfg_channel_threshold_s = 5, cfg_chassis_threshold_s = 5\<rparr>"

definition cell_nmc :: ecm_cell where
  "cell_nmc = ecm_cell_new chem_NMC 3 0.5"

lemma cell_nmc_ok: "cell_ok cell_nmc"
  unfolding cell_nmc_def using chem_ok_shipped [of "''NMC''" chem_NMC]
  by (intro cell_ok_new) (simp_all add: CHEMISTRIES_def)

text \<open>A freshly booted chassis with one NMC channel, and the same chassis charging at 1 A.\<close>

lemma booted: "\<exists>sys :: (nat \<Rightarrow> int option) chassis_sys.
    chassis_boot dict_ops 0 1 ''NMC'' 1 25 = Inr sys \<and> sys_ok has_dict sys \<and> sys_now sys = 0 \<and>
    sys_channels sys = [channel_new 0 0 cell_nmc 4400]"
proof -
  have nmc: "get_chemistry ''NMC'' = Inr chem_NMC" by (simp add: get_chemistry_def CHEMISTRIES_def)
  then have "make_channels 0 1 ''NMC'' = Inr [channel_new 0 0 cell_nmc 4400]"
    by (simp add: make_channels_def cell_nmc_def chem_NMC_def)
  with chassis_boot_ok [OF dict.sparse_block_axioms nmc, of 1 0 1 25] show ?thesis by auto
qed

lemma ap_kick: "ch_last_kick_wall_s ch = now \<Longrightarrow> ch_last_kick_wall_s (ap now m q v t ch) = now"
  by (simp add: apply_command_def Let_def)

lemma after_command_kick:
  "ch_last_kick_wall_s ch = now \<Longrightarrow> ch_last_kick_wall_s (after_command now m0 v0 t0 m q v t ch) = now"
  by (simp add: after_command_def after_setpoint_def ap_kick)

lemma charging: "\<exists>sys :: (nat \<Rightarrow> int option) chassis_sys. sys_ok has_dict sys \<and> sys_now sys = 0 \<and>
    length (sys_channels sys) = 1 \<and> ch_mode (sys_channels sys ! 0) = Cc \<and>
    ch_latched_error (sys_channels sys ! 0) = NONE \<and> ch_last_kick_wall_s (sys_channels sys ! 0) = 0"
proof -
  obtain s :: "(nat \<Rightarrow> int option) chassis_sys" where s: "sys_ok has_dict s" "sys_now s = 0"
    "sys_channels s = [channel_new 0 0 cell_nmc 4400]" using booted by blast
  obtain hi lo where "encode_f32 (- 1) = Inr (hi, lo)" using encode_f32_small [of "- 1"] by auto
  from direct.send_command_run [OF s(1) _ this, of 0 Cc 4400 600] s(2,3)
  show ?thesis by (auto simp: after_command_accepts after_command_kick channel_new_def)
qed

subsection \<open>Safety of a channel\<close>

lemma safety_tick_silent:
  assumes "channel_ok ch" "safety_tick np now th ch = Inr ch'" "th < now - ch_last_kick_wall_s ch"
  shows "ch_mode ch' = Idle"
proof (cases "ch_mode ch = Idle")
  case True
  with safety_tick_cases [OF assms(2)] show ?thesis by auto
next
  case False
  with assms(1) have n: "ch_latched_error ch = NONE" by (auto simp: channel_ok_def)
  have "hazard np now th ch"
    using False assms channel_ok_read [OF assms(1), of np] by (auto simp: hazard_def watchdog_expired_def)
  with safety_tick_latches_iff [OF assms(2) n] n safety_tick_cases [OF assms(2)] show ?thesis by auto
qed

text \<open>
  C1. One pass of the safety loop over a well-formed, unlatched channel always completes. It
  latches the channel exactly when the terminal voltage has reached one millivolt above the
  limit, or the temperature a tenth of a degree above its limit, or an active channel has
  not been kicked for longer than the threshold, or the cell itself has latched; a latched
  channel is idle and commands no current, and otherwise the pass changes nothing.
\<close>

theorem safety_pass:
  assumes "channel_ok ch" "ch_latched_error ch = NONE"
    and "0 \<le> ch_safety_v_max_mv ch" "0 \<le> ch_safety_t_max_dc ch"
  shows "\<exists>st ch'. channel_read_state np ch = Inr st \<and> safety_tick np now th ch = Inr ch' \<and>
    (let danger = (real_of_int (ch_safety_v_max_mv ch + 1) / 1000 \<le> st_voltage_v st
        \<or> real_of_int (ch_safety_t_max_dc ch + 1) / 10 \<le> st_temperature_c st
        \<or> ch_mode ch \<noteq> Idle \<and> th < now - ch_last_kick_wall_s ch
        \<or> cell_latched_error (ch_cell ch) \<noteq> NONE) in
     (danger \<longrightarrow> ch_latched_error ch' \<noteq> NONE \<and> ch_mode ch' = Idle \<and> (\<forall>s. desired_current_a ch' s = 0)) \<and>
     (\<not> danger \<longrightarrow> ch' = ch))"
proof -
  obtain st where st: "channel_read_state np ch = Inr st" using channel_ok_read assms(1) by blast
  obtain ch' where ch': "safety_tick np now th ch = Inr ch'" using safety_tick_returns assms(1) by blast
  let ?v = "real_of_int (ch_safety_v_max_mv ch + 1) / 1000 \<le> st_voltage_v st"
  let ?t = "real_of_int (ch_safety_t_max_dc ch + 1) / 10 \<le> st_temperature_c st"
  let ?w = "ch_mode ch \<noteq> Idle \<and> th < now - ch_last_kick_wall_s ch"
  let ?c = "cell_latched_error (ch_cell ch) \<noteq> NONE"
  have "st_latched_error st = cell_latched_error (ch_cell ch)"
    using ecm_read_state_Inr st by (simp add: channel_read_state_def)
  moreover have "ch_safety_v_max_mv ch < py_int (st_voltage_v st * 1000) \<longleftrightarrow> ?v"
    using py_int_gt_iff [OF assms(3)] by (simp add: field_simps)
  moreover have "ch_safety_t_max_dc ch < py_int (st_temperature_c st * 10) \<longleftrightarrow> ?t"
    using py_int_gt_iff [OF assms(4)] by (simp add: field_simps)
  ultimately have hz: "hazard np now th ch \<longleftrightarrow> ?v \<or> ?t \<or> ?w \<or> ?c"
    by (simp add: hazard_def st watchdog_expired_def)
  note iff = safety_tick_latches_iff [OF ch' assms(2)]
  from safety_tick_cases [OF ch'] iff assms(2)
  have yes: "hazard np now th ch \<Longrightarrow> ch_latched_error ch' \<noteq> NONE \<and> ch_mode ch' = Idle \<and> (\<forall>s. desired_current_a ch' s = 0)"
    and no: "\<not> hazard np now th ch \<Longrightarrow> ch' = ch"
    by (auto simp: desired_current_idle)
  show ?thesis using st ch' yes no unfolding Let_def hz by blast
qed

lemma safety_pass_witness:
  "\<exists>st ch'. channel_read_state lin_interp (channel_new 0 0 cell_nmc 4400\<lparr>ch_mode := Cc\<rparr>) = Inr st \<and>
    safety_tick lin_interp 6 5 (channel_new 0 0 cell_nmc 4400\<lparr>ch_mode := Cc\<rparr>) = Inr ch' \<and> ch_mode ch' = Idle"
  using safety_pass [of "channel_new 0 0 cell_nmc 4400\<lparr>ch_mode := Cc\<rparr>" lin_interp 6 5] cell_nmc_ok
  by (auto simp: channel_ok_def channel_new_def Let_def)

text \<open>
  C2. In every interleaving of the container's loops, register writes and ambient messages in
  which nobody writes the CHEMISTRY register, a latched channel keeps its error code, stays
  idle and draws no current: there is no other way out of a latch.
\<close>

theorem latch_is_permanent:
  assumes "sparse_block R has" "0 \<le> cfg_dt_sim cfg" "sys_ok has sys"
    and "list_all (event_ok (length (sys_channels sys))) es" "\<forall>e \<in> set es. \<not> writes_chemistry e"
    and "j < length (sys_channels sys)" "ch_latched_error (sys_channels sys ! j) \<noteq> NONE"
  shows "\<exists>sys'. chassis_run np R cfg es sys = Inr sys' \<and>
    ch_latched_error (sys_channels sys' ! j) = ch_latched_error (sys_channels sys ! j) \<and>
    ch_mode (sys_channels sys' ! j) = Idle \<and> (\<forall>s. desired_current_a (sys_channels sys' ! j) s = 0)"
proof -
  obtain sys' where r: "chassis_run np R cfg es sys = Inr sys'" "sys_ok has sys'"
    "length (sys_channels sys') = length (sys_channels sys)"
    using chassis_run_ok [OF assms(1-4)] by blast
  have "ch_latched_error (sys_channels sys' ! j) = ch_latched_error (sys_channels sys ! j)"
    using chassis_run_keeps_latch [OF r(1) assms(5-7)] by simp
  moreover have "ch_mode (sys_channels sys' ! j) = Idle"
    using sys_ok_channel [OF r(2), of j] r(3) assms(6,7) calculation by (auto simp: channel_ok_def)
  ultimately show ?thesis using r(1) by (auto simp: desired_current_idle)
qed

lemma charging_latched: "\<exists>sys :: (nat \<Rightarrow> int option) chassis_sys. sys_ok has_dict sys \<and>
    length (sys_channels sys) = 1 \<and> ch_latched_error (sys_channels sys ! 0) = WATCHDOG_TIMEOUT"
proof -
  obtain s :: "(nat \<Rightarrow> int option) chassis_sys" where s: "sys_ok has_dict s" "length (sys_channels s) = 1"
    "ch_latched_error (sys_channels s ! 0) = NONE" using charging by blast
  let ?s = "s\<lparr>sys_block := upd_channel 0 (halt WATCHDOG_TIMEOUT) (sys_block s)\<rparr>"
  have "sys_ok has_dict ?s" using s by (simp add: sys_ok_def block_ok_upd)
  with s show ?thesis by (intro exI [of _ ?s]) simp
qed

lemma latch_is_permanent_witness:
  "\<exists>(sys :: (nat \<Rightarrow> int option) chassis_sys) sys'. ch_latched_error (sys_channels sys ! 0) = WATCHDOG_TIMEOUT \<and>
    chassis_run lin_interp dict_ops cfg_default
      [WriteRegs 0 [1, 16256, 0], CellTick 0, MirrorTick, Advance 6, SafetyTick 0] sys = Inr sys' \<and>
    ch_latched_error (sys_channels sys' ! 0) = WATCHDOG_TIMEOUT"
proof -
  obtain s :: "(nat \<Rightarrow> int option) chassis_sys" where s: "sys_ok has_dict s" "length (sys_channels s) = 1"
    "ch_latched_error (sys_channels s ! 0) = WATCHDOG_TIMEOUT" using charging_latched by blast
  from latch_is_permanent [OF dict.sparse_block_axioms _ s(1),
      of cfg_default "[WriteRegs 0 [1, 16256, 0], CellTick 0, MirrorTick, Advance 6, SafetyTick 0]" 0 lin_interp] s
  show ?thesis by (auto simp: cfg_default_def mapped_def upt_rec CHANNEL_BLOCK_SIZE_def)
qed

text \<open>
  C3. Dead man. If no register is written while more than the threshold passes since the last
  kick of a channel, then the next pass of its safety loop leaves it idle, and it stays idle
  and currentless for as long as the silence lasts, whatever loops run in between.
\<close>

theorem silent_channel_idles:
  assumes "sparse_block R has" "0 \<le> cfg_dt_sim cfg" "sys_ok has sys"
    and "list_all (event_ok (length (sys_channels sys))) es" "\<forall>e \<in> set es. \<not> is_write e"
    and "j < length (sys_channels sys)" "chassis_run np R cfg es sys = Inr sys1"
    and "cfg_channel_threshold_s cfg < sys_now sys1 - ch_last_kick_wall_s (sys_channels sys ! j)"
    and "list_all (event_ok (length (sys_channels sys))) es'" "\<forall>e \<in> set es'. \<not> is_write e"
  shows "\<exists>sys'. chassis_run np R cfg (SafetyTick j # es') sys1 = Inr sys' \<and>
    ch_mode (sys_channels sys' ! j) = Idle \<and> (\<forall>s. desired_current_a (sys_channels sys' ! j) s = 0)"
proof -
  have ok1: "sys_ok has sys1" and n1: "length (sys_channels sys1) = length (sys_channels sys)"
    using chassis_run_ok [OF assms(1-4), of np] assms(7) by auto
  have k1: "ch_last_kick_wall_s (sys_channels sys1 ! j) = ch_last_kick_wall_s (sys_channels sys ! j)"
    using chassis_run_quiet [OF assms(7,5,6)] by simp
  have cok: "channel_ok (sys_channels sys1 ! j)" using sys_ok_channel [OF ok1] n1 assms(6) by simp
  obtain sys2 where s2: "chassis_exec np R cfg (SafetyTick j) sys1 = Inr sys2" "sys_ok has sys2"
    "length (sys_channels sys2) = length (sys_channels sys)"
    using chassis_exec_ok [OF assms(1,2) ok1, of "SafetyTick j" np] n1 assms(6) by auto
  have "ch_mode (sys_channels sys2 ! j) = Idle"
    using s2(1) safety_tick_silent [OF cok] assms(6,8) n1 k1 by (auto simp: on_channel_def)
  moreover obtain sys' where "chassis_run np R cfg es' sys2 = Inr sys'"
    using chassis_run_ok [OF assms(1,2) s2(2), of es' np] s2(3) assms(9) by auto
  ultimately show ?thesis using chassis_run_quiet(2) [OF _ assms(10), of np R cfg sys2 sys' j] s2 assms(6)
    by (auto simp: desired_current_idle)
qed

lemma silent_channel_idles_witness:
  "\<exists>(sys :: (nat \<Rightarrow> int option) chassis_sys) sys'. ch_mode (sys_channels sys ! 0) = Cc \<and>
    chassis_run lin_interp dict_ops cfg_default [SafetyTick 0, CellTick 0] (sys\<lparr>sys_now := 6\<rparr>) = Inr sys' \<and>
    ch_mode (sys_channels sys' ! 0) = Idle"
proof -
  obtain s :: "(nat \<Rightarrow> int option) chassis_sys" where s: "sys_ok has_dict s" "length (sys_channels s) = 1"
    "ch_mode (sys_channels s ! 0) = Cc" "sys_now s = 0" "ch_last_kick_wall_s (sys_channels s ! 0) = 0"
    using charging by blast
  from silent_channel_idles [OF dict.sparse_block_axioms _ s(1),
      of cfg_default "[Advance 6]" 0 lin_interp "s\<lparr>sys_now := 6\<rparr>" "[CellTick 0]"] s
  show ?thesis by (auto simp: cfg_default_def)
qed

text \<open>
  C4. Chassis dead man. If nothing is written while more than the chassis threshold passes
  since the last chassis kick, the next pass of the chassis watchdog marks the chassis tripped
  and leaves every channel idle.
\<close>

theorem silent_chassis_idles:
  assumes "sparse_block R has" "0 \<le> cfg_dt_sim cfg" "sys_ok has sys"
    and "list_all (event_ok (length (sys_channels sys))) es" "\<forall>e \<in> set es. \<not> is_write e"
    and "chassis_run np R cfg es sys = Inr sys1" "0 < length (sys_channels sys)"
    and "cfg_chassis_threshold_s cfg < sys_now sys1 - ks_last_kick_wall_s (cb_kick (sys_block sys))"
  shows "\<exists>sys'. chassis_exec np R cfg WatchdogTick sys1 = Inr sys' \<and> ks_tripped (cb_kick (sys_block sys')) \<and>
    (\<forall>ch \<in> set (sys_channels sys'). ch_mode ch = Idle)"
proof -
  have ok1: "sys_ok has sys1" using chassis_run_ok [OF assms(1-4), of np] assms(6) by auto
  have "ks_last_kick_wall_s (cb_kick (sys_block sys1)) = ks_last_kick_wall_s (cb_kick (sys_block sys))"
    using chassis_run_quiet(4) [OF assms(6,5,7)] .
  then have e: "ks_expired (sys_now sys1) (cfg_chassis_threshold_s cfg) (cb_kick (sys_block sys1))"
    using assms(8) by (simp add: ks_expired_def)
  have "list_all channel_ok (sys_channels sys1)" using ok1 by (simp add: sys_ok_def block_ok_def channels_ok_def)
  from chassis_watchdog_tick_idle [OF this e] e show ?thesis
    by (auto simp: split_beta Let_def in_set_conv_nth) (simp add: chassis_watchdog_tick_def)
qed

lemma silent_chassis_idles_witness:
  "\<exists>(sys :: (nat \<Rightarrow> int option) chassis_sys) sys'. length (sys_channels sys) = 1 \<and>
    chassis_exec lin_interp dict_ops cfg_default WatchdogTick (sys\<lparr>sys_now := 6\<rparr>) = Inr sys' \<and>
    ks_tripped (cb_kick (sys_block sys'))"
proof -
  obtain s :: "(nat \<Rightarrow> int option) chassis_sys" where
    s: "chassis_boot dict_ops 0 1 ''NMC'' 1 25 = Inr s" "sys_ok has_dict s" "length (sys_channels s) = 1" "sys_now s = 0"
    using booted by auto
  then have "ks_last_kick_wall_s (cb_kick (sys_block s)) = 0"
    by (auto simp: chassis_boot_def block_init_def Let_def kick_state_new_def)
  from silent_chassis_idles [OF dict.sparse_block_axioms _ s(2),
      of cfg_default "[Advance 6]" lin_interp "s\<lparr>sys_now := 6\<rparr>"] s this
  have "\<exists>sys'. chassis_exec lin_interp dict_ops cfg_default WatchdogTick (s\<lparr>sys_now := 6\<rparr>) = Inr sys' \<and>
    ks_tripped (cb_kick (sys_block sys'))" by (auto simp: cfg_default_def simp del: chassis_exec.simps(4))
  with s(3) show ?thesis by blast
qed

text \<open>
  A chassis boots with any shipped chemistry and up to 200 channels, and from then on no
  sequence of loop passes, register writes inside the map and ambient messages makes a loop
  raise: every pass returns, with the invariant of the chassis intact.
\<close>

theorem chassis_never_raises:
  assumes "sparse_block R has" "get_chemistry chem = Inr c" "n \<le> 200" "0 \<le> cfg_dt_sim cfg"
    and "list_all (event_ok n) es"
  shows "\<exists>sys sys'. chassis_boot R now n chem cid amb = Inr sys \<and> length (sys_channels sys) = n \<and>
    chassis_run np R cfg es sys = Inr sys' \<and> sys_ok has sys'"
proof -
  obtain sys where "chassis_boot R now n chem cid amb = Inr sys" "sys_ok has sys" "length (sys_channels sys) = n"
    using chassis_boot_ok [OF assms(1-3)] by blast
  with chassis_run_ok [OF assms(1,4), of sys es np] assms(5) show ?thesis by blast
qed

lemma chassis_never_raises_witness:
  "\<exists>(sys :: (nat \<Rightarrow> int option) chassis_sys) sys'. chassis_boot dict_ops 0 2 ''LCO'' 1 25 = Inr sys \<and>
    chassis_run lin_interp dict_ops cfg_default
      [WriteRegs 50 [2], CellTick 1, SafetyTick 1, WriteRegs 10010 [1], MirrorTick, AmbientMsg 30, WatchdogTick] sys = Inr sys'"
  using chassis_never_raises [OF dict.sparse_block_axioms, of "''LCO''" chem_LCO 2 cfg_default
      "[WriteRegs 50 [2], CellTick 1, SafetyTick 1, WriteRegs 10010 [1], MirrorTick, AmbientMsg 30, WatchdogTick]"
      0 1 25 lin_interp]
  by (auto simp: get_chemistry_def CHEMISTRIES_def cfg_default_def mapped_def CHANNEL_BLOCK_SIZE_def CHASSIS_BASE_def)

subsection \<open>Commands over the wire\<close>

text \<open>
  C5. Over a working connection \<open>send_command\<close> returns; the addressed channel, if it is not
  latched (or the command is \<open>idle\<close>), then runs the commanded mode with the commanded limits
  and with the setpoint that its 32-bit encoding spells, up to the 1e-9 tolerance of the
  idempotency test. Its cell, latch and cycle index are untouched, and so is every other channel.
\<close>

theorem command_end_to_end:
  assumes "modbus_link P R has dev" "sys_ok has (dev c)" "i < length (sys_channels (dev c))"
    and "\<bar>sp\<bar> < 2 powi 127" "ch_latched_error (sys_channels (dev c) ! i) = NONE \<or> m = Idle"
  shows "\<exists>c' ch'. send_command P i m sp v t c = (Inr (), c') \<and> sys_ok has (dev c') \<and>
    sys_channels (dev c') = (sys_channels (dev c))[i := ch'] \<and>
    ch_mode ch' = m \<and> \<bar>ch_setpoint ch' - f32_trip sp\<bar> \<le> 0.000000001 \<and>
    ch_safety_v_max_mv ch' = v \<and> ch_safety_t_max_dc ch' = t \<and>
    ch_cell ch' = ch_cell (sys_channels (dev c) ! i) \<and>
    ch_latched_error ch' = ch_latched_error (sys_channels (dev c) ! i) \<and>
    ch_cycle_index ch' = ch_cycle_index (sys_channels (dev c) ! i)"
proof -
  obtain hi lo where "encode_f32 sp = Inr (hi, lo)" using encode_f32_small [OF assms(4)] by blast
  from modbus_link.send_command_run [OF assms(1-3) this, of m v t]
  obtain c' n m0 v0 t0 where "send_command P i m sp v t c = (Inr (), c')" "sys_ok has (dev c')"
    "sys_channels (dev c') = (sys_channels (dev c))[i :=
      after_command n m0 v0 t0 m (f32_trip sp) v t (sys_channels (dev c) ! i)]" by blast
  then show ?thesis using after_command_accepts [OF assms(5), of n m0 v0 t0 "f32_trip sp" v t]
    by (intro exI [of _ c'] exI [of _ "after_command n m0 v0 t0 m (f32_trip sp) v t (sys_channels (dev c) ! i)"]) simp
qed

lemma command_end_to_end_witness:
  "\<exists>(sys :: (nat \<Rightarrow> int option) chassis_sys) sys' ch. ch_mode (sys_channels sys ! 0) = Cc \<and>
    send_command (direct_port dict_ops) 0 Cv 4.2 4400 600 sys = (Inr (), sys') \<and>
    sys_channels sys' = (sys_channels sys)[0 := ch] \<and> ch_mode ch = Cv"
proof -
  obtain s :: "(nat \<Rightarrow> int option) chassis_sys" where s: "sys_ok has_dict s" "length (sys_channels s) = 1"
    "ch_mode (sys_channels s ! 0) = Cc" "ch_latched_error (sys_channels s ! 0) = NONE"
    using charging by blast
  from command_end_to_end [OF direct.modbus_link_axioms s(1), of 0 "4.2" Cv 4400 600] s
  show ?thesis by auto
qed

text \<open>
  C21. Sending the command a channel already runs is a no-op: the second \<open>send_command\<close> leaves
  every channel as it was, the dead-man timer included.
\<close>

theorem command_idempotent:
  assumes "modbus_link P R has dev" "sys_ok has (dev c)" "i < length (sys_channels (dev c))"
    and "\<bar>sp\<bar> < 2 powi 127" "ch_latched_error (sys_channels (dev c) ! i) = NONE \<or> m = Idle"
  shows "\<exists>c1 c2. send_command P i m sp v t c = (Inr (), c1) \<and> send_command P i m sp v t c1 = (Inr (), c2) \<and>
    sys_channels (dev c2) = sys_channels (dev c1)"
proof -
  obtain hi lo where e: "encode_f32 sp = Inr (hi, lo)" using encode_f32_small [OF assms(4)] by blast
  from modbus_link.send_command_run [OF assms(1-3) e, of m v t]
  obtain c1 now m0 v0 t0 where c1: "send_command P i m sp v t c = (Inr (), c1)" "sys_ok has (dev c1)"
    "sp_rd R (sys_store (dev c1)) (channel_addr i MODE) = mode_to_int m"
    "sp_rd R (sys_store (dev c1)) (channel_addr i SAFETY_V_MAX_MV) = v"
    "sp_rd R (sys_store (dev c1)) (channel_addr i SAFETY_T_MAX_DC) = t"
    "sys_channels (dev c1) = (sys_channels (dev c))[i :=
      after_command now m0 v0 t0 m (f32_trip sp) v t (sys_channels (dev c) ! i)]" by blast
  from c1(6) assms(3) have i: "i < length (sys_channels (dev c1))" by simp
  from modbus_link.send_command_run [OF assms(1) c1(2) i e, of m v t]
  obtain c2 where "send_command P i m sp v t c1 = (Inr (), c2)"
    "sys_channels (dev c2) = (sys_channels (dev c1))[i :=
      after_command (sys_now (dev c1)) m v t m (f32_trip sp) v t (sys_channels (dev c1) ! i)]"
    by (auto simp: c1(3-5))
  with c1 assms(3) after_command_again [OF assms(5)] show ?thesis by auto
qed

lemma command_idempotent_witness:
  "\<exists>(sys :: (nat \<Rightarrow> int option) chassis_sys) sys1 sys2. ch_mode (sys_channels sys ! 0) = Cc \<and>
    send_command (direct_port dict_ops) 0 Cv 4.2 4400 600 sys = (Inr (), sys1) \<and>
    send_command (direct_port dict_ops) 0 Cv 4.2 4400 600 sys1 = (Inr (), sys2) \<and>
    sys_channels sys2 = sys_channels sys1"
proof -
  obtain s :: "(nat \<Rightarrow> int option) chassis_sys" where s: "sys_ok has_dict s" "length (sys_channels s) = 1"
    "ch_mode (sys_channels s ! 0) = Cc" "ch_latched_error (sys_channels s ! 0) = NONE"
    using charging by blast
  from command_idempotent [OF direct.modbus_link_axioms s(1), of 0 "4.2" Cv 4400 600] s
  show ?thesis by auto
qed

text \<open>
  The setpoint goes out first, while the MODE register still holds the old mode. On an
  unlatched channel that write alone makes the channel run the OLD mode with the NEW setpoint
  until the mode write lands. In particular a channel in CV that is commanded \<open>rest\<close> or
  \<open>idle\<close> (setpoint 0) asks for its full discharge current of 6 A at any cell voltage
  from 1 V up.
\<close>

theorem setpoint_reaches_old_mode:
  assumes "modbus_link P R has dev" "sys_ok has (dev c)" "i < length (sys_channels (dev c))"
    and "encode_f32 sp = Inr (hi, lo)" "ch_latched_error (sys_channels (dev c) ! i) = NONE"
    and "sp_rd R (sys_store (dev c)) (channel_addr i MODE) = mode_to_int m0"
  shows "\<exists>c1. mb_write P (channel_addr i SETPOINT_HI) [hi, lo] c = (Inr (), c1) \<and>
    send_command P i m sp v t c =
      seq_act (mb_write P (channel_addr i SAFETY_V_MAX_MV) [v])
      (seq_act (mb_write P (channel_addr i SAFETY_T_MAX_DC) [t])
        (mb_write P (channel_addr i MODE) [mode_to_int m])) c1 \<and>
    ch_mode (sys_channels (dev c1) ! i) = m0 \<and>
    \<bar>ch_setpoint (sys_channels (dev c1) ! i) - f32_trip sp\<bar> \<le> 0.000000001 \<and>
    (m0 = Cv \<and> sp = 0 \<and> ch_cv_kp (sys_channels (dev c) ! i) = 9 \<and> ch_cv_current_limit_a (sys_channels (dev c) ! i) = 6 \<longrightarrow>
      (\<forall>st. 1 \<le> st_voltage_v st \<longrightarrow> desired_current_a (sys_channels (dev c1) ! i) st = 6))"
proof -
  have q: "decode_f32 hi lo = Some (f32_trip sp)" using decode_encode_trip assms(4) by blast
  from modbus_link.write_setpoint [OF assms(1-3) q] assms(6)
  obtain c1 n v0 t0 where c1: "mb_write P (channel_addr i SETPOINT_HI) [hi, lo] c = (Inr (), c1)"
    "sys_channels (dev c1) = (sys_channels (dev c))[i := after_setpoint n m0 v0 t0 (f32_trip sp) (sys_channels (dev c) ! i)]"
    by auto
  let ?ch = "after_setpoint n m0 v0 t0 (f32_trip sp) (sys_channels (dev c) ! i)"
  have a: "ch_mode ?ch = m0" "\<bar>ch_setpoint ?ch - f32_trip sp\<bar> \<le> 0.000000001"
    unfolding after_setpoint_def using assms(5) by (intro apply_command_accepts; simp)+
  have kp: "ch_cv_kp ?ch = ch_cv_kp (sys_channels (dev c) ! i)" by simp
  have "desired_current_a ?ch st = 6" if "m0 = Cv" "sp = 0" "ch_cv_kp (sys_channels (dev c) ! i) = 9"
    "ch_cv_current_limit_a (sys_channels (dev c) ! i) = 6" "1 \<le> st_voltage_v st" for st
  proof -
    have "\<bar>ch_setpoint ?ch\<bar> \<le> 0.000000001" using a(2) that(2) by simp
    then show ?thesis using that a(1) assms(5) kp
      by (simp add: desired_current_a_def Let_def clamp_def)
  qed
  then show ?thesis using c1 a assms(3,4)
    by (simp add: send_command_def bind_act_def lift_sum_def seq_act_def)
qed

lemma setpoint_reaches_old_mode_witness:
  "\<exists>(sys :: (nat \<Rightarrow> int option) chassis_sys) hi lo c1. ch_mode (sys_channels sys ! 0) = Cv \<and>
    mb_write (direct_port dict_ops) (channel_addr 0 SETPOINT_HI) [hi, lo] sys = (Inr (), c1) \<and>
    (\<forall>st. 1 \<le> st_voltage_v st \<longrightarrow> desired_current_a (sys_channels c1 ! 0) st = 6)"
proof -
  obtain b :: "(nat \<Rightarrow> int option) chassis_sys" where b: "sys_ok has_dict b" "sys_now b = 0"
    "sys_channels b = [channel_new 0 0 cell_nmc 4400]" using booted by blast
  obtain hi lo where "encode_f32 4 = Inr (hi, lo)" using encode_f32_small [of 4] by auto
  from direct.send_command_run [OF b(1) _ this, of 0 Cv 4400 600] b(3)
  obtain s :: "(nat \<Rightarrow> int option) chassis_sys" and m0 v0 t0 n where s: "sys_ok has_dict s"
    "sp_rd dict_ops (sys_store s) (channel_addr 0 MODE) = mode_to_int Cv"
    "sys_channels s = [after_command n m0 v0 t0 Cv (f32_trip 4) 4400 600 (channel_new 0 0 cell_nmc 4400)]"
    by auto
  obtain h l where z: "encode_f32 0 = Inr (h, l)" using encode_f32_small [of 0] by auto
  have ch: "ch_latched_error (sys_channels s ! 0) = NONE" "ch_mode (sys_channels s ! 0) = Cv"
    "ch_cv_kp (sys_channels s ! 0) = 9" "ch_cv_current_limit_a (sys_channels s ! 0) = 6" "0 < length (sys_channels s)"
    using s(3) by (simp_all add: channel_new_def after_command_accepts)
  from setpoint_reaches_old_mode [OF direct.modbus_link_axioms s(1) ch(5) z ch(1) s(2), of Rest 4400 600] ch
  show ?thesis by blast
qed

text \<open>
  The default limits of \<open>send_command\<close>, which all of the orchestrator's calls use, replace
  the envelope the cycler booted with: after any such command the voltage limit is 4500 mV,
  above the limit of every shipped chemistry (4400 mV or 4350 mV).
\<close>

theorem default_command_widens_envelope:
  assumes "modbus_link P R has dev" "sys_ok has (dev c)" "i < length (sys_channels (dev c))"
    and "\<bar>sp\<bar> < 2 powi 127" "ch_latched_error (sys_channels (dev c) ! i) = NONE \<or> m = Idle"
  shows "\<exists>c' ch'. send_command_default P i m sp c = (Inr (), c') \<and>
    sys_channels (dev c') = (sys_channels (dev c))[i := ch'] \<and>
    ch_safety_v_max_mv ch' = 4500 \<and> v_max_mv (cell_chem (ch_cell ch')) \<le> 4400"
proof -
  obtain hi lo where "encode_f32 sp = Inr (hi, lo)" using encode_f32_small [OF assms(4)] by blast
  from modbus_link.send_command_run [OF assms(1-3) this, of m 4500 600]
  obtain c' n m0 v0 t0 where c': "send_command P i m sp 4500 600 c = (Inr (), c')"
    "sys_channels (dev c') = (sys_channels (dev c))[i :=
      after_command n m0 v0 t0 m (f32_trip sp) 4500 600 (sys_channels (dev c) ! i)]" by blast
  obtain d where "(chem_name d, d) \<in> set CHEMISTRIES" "cell_chem (ch_cell (sys_channels (dev c) ! i)) = d"
    using assms(2,3) by (auto simp: sys_ok_def block_ok_def channels_ok_def list_all_length)
  then have "v_max_mv (cell_chem (ch_cell (sys_channels (dev c) ! i))) \<le> 4400"
    by (auto simp: CHEMISTRIES_def chem_defs)
  then show ?thesis using c' after_command_accepts(3) [OF assms(5)] by (auto simp: send_command_default_def)
qed

lemma default_command_widens_envelope_witness:
  "\<exists>(sys :: (nat \<Rightarrow> int option) chassis_sys) sys' ch. ch_mode (sys_channels sys ! 0) = Cc \<and>
    send_command_default (direct_port dict_ops) 0 Cc (- 1.5) sys = (Inr (), sys') \<and>
    sys_channels sys' = (sys_channels sys)[0 := ch] \<and> ch_safety_v_max_mv ch = 4500"
proof -
  obtain s :: "(nat \<Rightarrow> int option) chassis_sys" where s: "sys_ok has_dict s" "length (sys_channels s) = 1"
    "ch_mode (sys_channels s ! 0) = Cc" "ch_latched_error (sys_channels s ! 0) = NONE"
    using charging by blast
  from default_command_widens_envelope [OF direct.modbus_link_axioms s(1), of 0 "- 1.5" Cc] s
  show ?thesis by auto
qed

subsection \<open>Reading back\<close>

lemma u16_clamp_error: "0 \<le> x \<Longrightarrow> x \<le> 65535 \<Longrightarrow> \<bar>real_of_int (u16_clamp x) - x\<bar> < 1"
proof -
  assume x: "0 \<le> x" "x \<le> 65535"
  then have "0 \<le> py_int x" "py_int x \<le> 65535" using py_int_mono [of 0 x] py_int_mono [of x 65535] by simp_all
  then show ?thesis using py_int_error [of x] by (simp add: u16_clamp_def clamp_id)
qed

lemma int16_error:
  assumes "\<bar>x\<bar> < 32768"
  shows "\<bar>real_of_int (from_int16_signed (to_int16_signed (py_int x))) - x\<bar> < 1"
proof -
  have "- 32768 \<le> py_int x" "py_int x \<le> 32767"
    using assms unfolding py_int_def by (auto simp: floor_le_iff le_ceiling_iff le_floor_iff ceiling_le_iff)
  then have "from_int16_signed (to_int16_signed (py_int x)) = py_int x" using int16_trip_iff [of "py_int x"] by simp
  then show ?thesis using py_int_error [of x] by simp
qed

lemma scaled_error:
  fixes k :: real
  assumes "0 < k" "\<bar>n - x * k\<bar> < 1"
  shows "\<bar>n / k - x\<bar> < 1 / k"
  using assms by (simp add: abs_less_iff field_simps)

text \<open>
  C19. Once the mirror has run, a read of the channel over a working connection reports its mode,
  setpoint and latch exactly, state of charge to 0.01 percent, and voltage to 1 mV, current to
  1 mA and temperature to 0.1 degree as long as they fit their registers; negative
  temperatures do not (TEMP_DC is unsigned).
\<close>

theorem snapshot_after_mirror:
  assumes "modbus_link P R has dev" "sys_ok has (dev c)" "i < length (sys_channels (dev c))"
    and "chassis_exec np R cfg MirrorTick (dev c) = Inr (dev c1)"
  shows "\<exists>c' sn st. read_channel P i c1 = (Inr sn, c') \<and>
    channel_read_state np (sys_channels (dev c) ! i) = Inr st \<and>
    sn_mode sn = ch_mode (sys_channels (dev c) ! i) \<and>
    sn_setpoint sn = Some (ch_setpoint (sys_channels (dev c) ! i)) \<and>
    sn_last_error sn = ch_latched_error (sys_channels (dev c) ! i) \<and>
    \<bar>sn_soc sn - st_soc st\<bar> < 1 / 10000 \<and>
    (0 \<le> st_voltage_v st \<and> st_voltage_v st \<le> 65 \<longrightarrow> \<bar>sn_voltage_v sn - st_voltage_v st\<bar> < 1 / 1000) \<and>
    (\<bar>st_current_a st\<bar> < 32 \<longrightarrow> \<bar>sn_current_a sn - st_current_a st\<bar> < 1 / 1000) \<and>
    (0 \<le> st_temperature_c st \<and> st_temperature_c st \<le> 6500 \<longrightarrow> \<bar>sn_temperature_c sn - st_temperature_c st\<bar> < 1 / 10) \<and>
    (st_temperature_c st \<le> 0 \<longrightarrow> sn_temperature_c sn = 0)"
proof -
  from assms(4) obtain cb where cb: "mirror_tick np R (sys_block (dev c)) = Inr cb"
    "dev c1 = (dev c)\<lparr>sys_block := cb\<rparr>" by auto
  from modbus_link.read_after_mirror [OF assms(1-3) cb] obtain c' st where
    r: "channel_read_state np (sys_channels (dev c) ! i) = Inr st"
    "read_channel P i c1 = (Inr (snapshot_of (sys_channels (dev c) ! i) st), c')" by blast
  let ?sn = "snapshot_of (sys_channels (dev c) ! i) st"
  have soc: "0 \<le> st_soc st" "st_soc st \<le> 1"
    using ecm_read_state_Inr [OF r(1) [unfolded channel_read_state_def]] by blast+
  have "\<bar>sn_soc ?sn - st_soc st\<bar> < 1 / 10000"
    unfolding snapshot_of_def channel_snapshot.simps using soc by (intro scaled_error u16_clamp_error) auto
  moreover have "0 \<le> st_voltage_v st \<and> st_voltage_v st \<le> 65 \<Longrightarrow> \<bar>sn_voltage_v ?sn - st_voltage_v st\<bar> < 1 / 1000"
    unfolding snapshot_of_def channel_snapshot.simps by (intro scaled_error u16_clamp_error) auto
  moreover have "\<bar>st_current_a st\<bar> < 32 \<Longrightarrow> \<bar>sn_current_a ?sn - st_current_a st\<bar> < 1 / 1000"
    unfolding snapshot_of_def channel_snapshot.simps by (intro scaled_error int16_error) auto
  moreover have "0 \<le> st_temperature_c st \<and> st_temperature_c st \<le> 6500 \<Longrightarrow> \<bar>sn_temperature_c ?sn - st_temperature_c st\<bar> < 1 / 10"
    unfolding snapshot_of_def channel_snapshot.simps by (intro scaled_error u16_clamp_error) auto
  moreover have "st_temperature_c st \<le> 0 \<Longrightarrow> sn_temperature_c ?sn = 0"
    using py_int_mono [of "st_temperature_c st * 10" 0] by (simp add: snapshot_of_def u16_clamp_def clamp_def)
  moreover have "sn_mode ?sn = ch_mode (sys_channels (dev c) ! i)" "sn_setpoint ?sn = Some (ch_setpoint (sys_channels (dev c) ! i))"
    "sn_last_error ?sn = ch_latched_error (sys_channels (dev c) ! i)" by (simp_all add: snapshot_of_def)
  ultimately show ?thesis using r by blast
qed

lemma snapshot_after_mirror_witness:
  "\<exists>(sys :: (nat \<Rightarrow> int option) chassis_sys) sys1 sys2 sn. ch_mode (sys_channels sys ! 0) = Cc \<and>
    chassis_exec lin_interp dict_ops cfg_default MirrorTick sys = Inr sys1 \<and>
    read_channel (direct_port dict_ops) 0 sys1 = (Inr sn, sys2) \<and> sn_mode sn = Cc"
proof -
  obtain s :: "(nat \<Rightarrow> int option) chassis_sys" where s: "sys_ok has_dict s" "length (sys_channels s) = 1"
    "ch_mode (sys_channels s ! 0) = Cc" using charging by blast
  obtain s1 where s1: "chassis_exec lin_interp dict_ops cfg_default MirrorTick s = Inr s1"
    using chassis_exec_ok [OF dict.sparse_block_axioms _ s(1), of cfg_default MirrorTick lin_interp]
    by (auto simp: cfg_default_def simp del: chassis_exec.simps)
  from snapshot_after_mirror [OF direct.modbus_link_axioms s(1) _ s1, of 0] s s1 show ?thesis by auto
qed



subsection \<open>Numbers on the wire\<close>

text \<open>
  Current goes over the wire as a 16-bit two's complement: what a reader recovers is the
  value modulo 2^16 in [-32768, 32767], so it is the value itself exactly on that range and an
  excess wraps around to the other sign.
\<close>

theorem current_register_window:
  "from_int16_signed (to_int16_signed v) = (v + 32768) mod 65536 - 32768 \<and>
   0 \<le> to_int16_signed v \<and> to_int16_signed v \<le> 65535 \<and>
   (from_int16_signed (to_int16_signed v) = v \<longleftrightarrow> - 32768 \<le> v \<and> v \<le> 32767)"
  using int16_trip [of v] int16_trip_iff [of v] to_int16_signed_range [of v] by auto

lemma current_register_window_witness: "from_int16_signed (to_int16_signed 40000) = - 25536"
  using current_register_window [of 40000] by simp

text \<open>
  A setpoint in the normal range of binary32 always encodes into two register words, decodes
  to within one part in 2^24 of itself, and the decoded value then survives any further
  trip unchanged.
\<close>

theorem setpoint_wire_error:
  assumes "2 powi (-126) \<le> \<bar>x\<bar>" "\<bar>x\<bar> < 2 powi 127"
  shows "\<exists>hi lo y. encode_f32 x = Inr (hi, lo) \<and> 0 \<le> hi \<and> hi < 65536 \<and> 0 \<le> lo \<and> lo < 65536 \<and>
    decode_f32 hi lo = Some y \<and> \<bar>y - x\<bar> \<le> \<bar>x\<bar> * 2 powi (-24) \<and>
    (\<exists>hi' lo'. encode_f32 y = Inr (hi', lo') \<and> decode_f32 hi' lo' = Some y)"
proof -
  obtain hi lo where e: "encode_f32 x = Inr (hi, lo)" using encode_f32_small [OF assms(2)] by blast
  then obtain w where w: "f32_pack x = Some w" "0 \<le> hi" "hi < 65536" "0 \<le> lo" "lo < 65536"
    using encode_f32_words by fastforce
  obtain y where y: "f32_unpack w = Some y" "\<bar>y - x\<bar> \<le> \<bar>x\<bar> * 2 powi (-24)"
    by (rule f32_trip_error [OF w(1) assms(1)])
  have d: "decode_f32 hi lo = Some y" using decode_encode [OF e] w(1) y(1) by simp
  have yt: "f32_trip x = y" using w(1) y(1) by (simp add: f32_trip_def)
  obtain hi' lo' where "encode_f32 y = Inr (hi', lo')" "f32_trip y = y" using f32_trip_again [OF e] yt by auto
  then have "\<exists>hi' lo'. encode_f32 y = Inr (hi', lo') \<and> decode_f32 hi' lo' = Some y"
    using decode_encode_trip by metis
  with e w d y(2) show ?thesis by blast
qed

lemma setpoint_wire_error_witness:
  "\<exists>hi lo y. encode_f32 4.2 = Inr (hi, lo) \<and> decode_f32 hi lo = Some y \<and> \<bar>y - 4.2\<bar> \<le> 4.2 * 2 powi (-24)"
proof -
  have "(2::real) powi (-126) \<le> 2 powi 2" "(4::real) < 2 powi 127"
    using powi2_mono [of "- 126" 2] powi2_mono [of 3 127] by simp_all
  moreover have "(2::real) powi 3 \<le> 2 powi 127" by (rule powi2_mono) simp
  ultimately show ?thesis using setpoint_wire_error [of "4.2"] by auto
qed

subsection \<open>The cell\<close>

text \<open>
  C17. No thermal runaway. A fresh cell of any shipped chemistry, driven by any sequence of ticks
  of at most 10.5 A in either direction, at ambient temperatures between 0 and 60 C and time
  steps of up to 200 s (the thermal time constant), stays between 0 and 80 C and
  never latches.
\<close>

theorem no_thermal_runaway:
  assumes "get_chemistry name = Inr chem" "0 \<le> soc0" "soc0 \<le> 1"
    and "\<forall>(i, dt, a) \<in> set ticks. \<bar>i\<bar> \<le> 10.5 \<and> 0 \<le> dt \<and> dt \<le> 200 \<and> 0 \<le> a \<and> a \<le> 60"
  shows "cell_latched_error (ecm_run np ticks (ecm_cell_new chem q soc0)) = NONE \<and>
    0 \<le> cell_temperature_c (ecm_run np ticks (ecm_cell_new chem q soc0)) \<and>
    cell_temperature_c (ecm_run np ticks (ecm_cell_new chem q soc0)) \<le> 80"
proof -
  have "(name, chem) \<in> set CHEMISTRIES"
    using assms(1) by (auto simp: get_chemistry_def dest: map_of_SomeD split: option.splits)
  then have start: "thermal_safe (ecm_cell_new chem q soc0)"
    using assms(2,3) cell_ok_new [of chem soc0 q] chem_ok_shipped
    by (auto simp: thermal_safe_def ecm_cell_new_def)
  have "thermal_safe (ecm_run np ticks c)" if "thermal_safe c" for c
    using that assms(4)
  proof (induction np ticks c rule: ecm_run.induct)
    case (2 np i dt a xs c)
    then show ?case using thermal_safe_step [of c i a dt np] by auto
  qed simp
  from this [OF start] show ?thesis by (simp add: thermal_safe_def)
qed

lemma no_thermal_runaway_witness:
  "cell_temperature_c (ecm_run lin_interp [(6, 60, 45), (- 10, 60, 45)] (ecm_cell_new chem_LCO 3 0.5)) \<le> 80"
  using no_thermal_runaway [of "''LCO''" chem_LCO "0.5" "[(6, 60, 45), (- 10, 60, 45)]" lin_interp 3]
  by (auto simp: get_chemistry_def CHEMISTRIES_def)

text \<open>
  C18. State of health never recovers: along any sequence of ticks from a well-formed cell, with
  any currents and temperatures, every tick returns a state, charge stays in [0, 1], and the
  state of health stays in [0, 1] and never increases.
\<close>

theorem health_never_recovers:
  assumes "cell_ok c" "\<forall>(i, dt, a) \<in> set (xs @ ys). 0 \<le> dt"
  shows "cell_soh (ecm_run np (xs @ ys) c) \<le> cell_soh (ecm_run np xs c) \<and>
    0 \<le> cell_soh (ecm_run np xs c) \<and> cell_soh (ecm_run np xs c) \<le> 1 \<and>
    0 \<le> cell_soc (ecm_run np xs c) \<and> cell_soc (ecm_run np xs c) \<le> 1 \<and>
    (\<exists>s. ecm_read_state np (ecm_run np xs c) = Inr s)"
proof -
  have ok: "cell_ok (ecm_run np xs c)" using assms by (intro ecm_run_ok) auto
  have app: "ecm_run np (xs @ ys) c = ecm_run np ys (ecm_run np xs c)"
    by (induction np xs c rule: ecm_run.induct) simp_all
  have "cell_soh (ecm_run np ys (ecm_run np xs c)) \<le> cell_soh (ecm_run np xs c)"
    using ok assms(2) by (intro ecm_run_soh) auto
  with ok app cell_soh_range ecm_read_state_ok show ?thesis by (auto simp: cell_ok_def)
qed

lemma health_never_recovers_witness:
  "cell_soh (ecm_run lin_interp [(3, 60, 25), (- 3, 60, 25)] cell_nmc) \<le> cell_soh (ecm_run lin_interp [(3, 60, 25)] cell_nmc)"
  using health_never_recovers [OF cell_nmc_ok, of "[(3, 60, 25)]" "[(- 3, 60, 25)]" lin_interp] by simp

text \<open>
  Cycling loss does not depend on how the charge is cut into ticks: from a fresh cell, any
  list of throughput increments loses swelling * k_cyc * sqrt (total / capacity).
\<close>

theorem cycling_loss_closed_form:
  assumes "get_chemistry name = Inr chem"
  shows "q_loss_lli (throughput_run chem aging_new ds) =
    anode_swelling_factor chem * (k_cyc chem * sqrt ((\<Sum>d\<leftarrow>ds. \<bar>d\<bar>) / capacity_ah_nominal chem))"
  using throughput_run_loss [of chem aging_new ds] get_chemistry_ok [OF assms]
  by (simp add: aging_new_def cyc_loss_def)

lemma cycling_loss_closed_form_witness:
  "q_loss_lli (throughput_run chem_NMC aging_new [1, - 1, 1]) = 0.006 * sqrt (3 / 3)"
  using cycling_loss_closed_form [of "''NMC''" chem_NMC "[1, - 1, 1]"]
  by (simp add: get_chemistry_def CHEMISTRIES_def chem_NMC_def)

text \<open>
  The open-circuit voltage of every shipped chemistry rises with the state of charge, and at
  25 C lies between 3.00 V and the chemistry's own voltage limit, so a resting cell does not
  trip the limit it boots with. At 29 C a full cell does: the temperature term lifts its
  resting voltage a millivolt over the limit.
\<close>

theorem ocv_within_envelope:
  assumes "linear_interpolation np" "get_chemistry name = Inr chem" "s \<le> s'"
  shows "ocv_lookup np chem s t \<le> ocv_lookup np chem s' t \<and>
    3 \<le> ocv_lookup np chem s 25 \<and> py_int (ocv_lookup np chem s 25 * 1000) \<le> v_max_mv chem \<and>
    v_max_mv chem < py_int (ocv_lookup np chem 1 29 * 1000)"
proof -
  note ok = conjunct1 [OF get_chemistry_ok [OF assms(2)]]
  note mono = linear_interpolation.ocv_mono [OF assms(1) ok]
  note ends = linear_interpolation.ocv_ends [OF assms(1) ok]
  have tab: "ocv_25c chem ! 0 = 3" "ocv_25c chem ! 10 = of_int (v_max_mv chem) / 1000" "0 \<le> v_max_mv chem"
    using assms(2) by (auto simp: get_chemistry_def CHEMISTRIES_def chem_defs NMC_OCV_def LCO_OCV_def split: if_splits)
  have cl: "ocv_lookup np chem (clamp 0 1 x) u = ocv_lookup np chem x u" for x u
    by (simp add: ocv_lookup_def clamp_id)
  have "3 \<le> ocv_lookup np chem s 25"
    using mono [of 0 "clamp 0 1 s" 25] ends tab cl [of s] by simp
  moreover have "ocv_lookup np chem s 25 * 1000 \<le> of_int (v_max_mv chem)"
    using mono [of "clamp 0 1 s" 1 25] ends tab cl [of s] by simp
  then have "py_int (ocv_lookup np chem s 25 * 1000) \<le> v_max_mv chem"
    using py_int_mono by (metis py_int_of_int)
  moreover have "ocv_lookup np chem 1 29 = ocv_lookup np chem 1 25 + 0.0012" by (simp add: ocv_lookup_def)
  then have "real_of_int (v_max_mv chem + 1) \<le> ocv_lookup np chem 1 29 * 1000" using ends tab by simp
  then have "v_max_mv chem < py_int (ocv_lookup np chem 1 29 * 1000)"
    using py_int_gt_iff [OF tab(3)] by simp
  ultimately show ?thesis using mono [OF assms(3)] by simp
qed

lemma ocv_within_envelope_witness:
  "ocv_lookup lin_interp chem_NMC 0.2 25 \<le> ocv_lookup lin_interp chem_NMC 0.8 25 \<and>
   4400 < py_int (ocv_lookup lin_interp chem_NMC 1 29 * 1000)"
  using ocv_within_envelope [OF lin.linear_interpolation_axioms, of "''NMC''" chem_NMC "0.2" "0.8" 25]
  by (simp add: get_chemistry_def CHEMISTRIES_def chem_NMC_def)

end
