(* ===== verification/Text.thy ===== *)
theory Text
  imports Prelude
begin

section \<open>Python strings, as far as the parsers need them\<close>

text \<open>
  \<open>str.split\<close>, \<open>str.partition\<close>, \<open>str.strip\<close>, \<open>str.isdigit\<close>, \<open>int(s)\<close> and decimal formatting.
  A string is a list of 8-bit characters, read as Latin-1; the digits and blanks of other
  scripts are outside the model. The three Latin-1 superscript digits satisfy \<open>isdigit\<close> but
  make \<open>int\<close> raise \<open>ValueError\<close>; every caller turns both outcomes into the same error, so
  they count as non-digits here.
\<close>

fun split_on :: "char \<Rightarrow> string \<Rightarrow> string list" where
  "split_on c [] = [[]]"
| "split_on c (x # xs) =
     (if x = c then [] # split_on c xs
      else (case split_on c xs of [] \<Rightarrow> [[x]] | p # ps \<Rightarrow> (x # p) # ps))"

fun join_with :: "char \<Rightarrow> string list \<Rightarrow> string" where
  "join_with c [] = []"
| "join_with c [p] = p"
| "join_with c (p # q # ps) = p @ c # join_with c (q # ps)"

lemma split_on_nonempty [simp]: "split_on c s \<noteq> []"
  by (induction s) (auto split: list.splits)

lemma split_on_free: "c \<notin> set p \<Longrightarrow> split_on c p = [p]"
  by (induction p) auto

lemma split_on_append: "c \<notin> set p \<Longrightarrow> split_on c (p @ c # s) = p # split_on c s"
  by (induction p) auto

lemma split_on_join:
  "ps \<noteq> [] \<Longrightarrow> \<forall>p \<in> set ps. c \<notin> set p \<Longrightarrow> split_on c (join_with c ps) = ps"
  by (induction c ps rule: join_with.induct) (auto simp: split_on_free split_on_append)

lemma join_split_on: "join_with c (split_on c s) = s"
proof (induction s)
  case (Cons x xs)
  then show ?case by (cases "split_on c xs"; cases "tl (split_on c xs)") auto
qed simp

lemma split_on_parts: "p \<in> set (split_on c s) \<Longrightarrow> c \<notin> set p \<and> set p \<subseteq> set s"
proof (induction s arbitrary: p)
  case (Cons x xs)
  obtain q qs where q: "split_on c xs = q # qs" by (cases "split_on c xs") auto
  from Cons.IH [of q] Cons.IH have "c \<notin> set q \<and> set q \<subseteq> set xs"
    "r \<in> set qs \<Longrightarrow> c \<notin> set r \<and> set r \<subseteq> set xs" for r by (auto simp: q)
  with Cons.prems q show ?case by (auto split: if_splits)
qed simp

text \<open>\<open>s.partition(c)\<close>: before the first \<open>c\<close>, and what follows it.\<close>

fun partition_at :: "char \<Rightarrow> string \<Rightarrow> string \<times> string" where
  "partition_at c [] = ([], [])"
| "partition_at c (x # xs) =
     (if x = c then ([], xs) else (let (a, b) = partition_at c xs in (x # a, b)))"

lemma partition_at_append: "c \<notin> set p \<Longrightarrow> partition_at c (p @ c # s) = (p, s)"
  by (induction p) auto

lemma partition_at_free: "c \<notin> set p \<Longrightarrow> partition_at c p = (p, [])"
  by (induction p) auto

subsection \<open>Blanks\<close>

definition is_space :: "char \<Rightarrow> bool" where
  "is_space c \<longleftrightarrow> of_char c \<in> {9, 10, 11, 12, 13, 28, 29, 30, 31, 32, 133, 160 :: nat}"

definition strip :: "string \<Rightarrow> string" where
  "strip s = rev (dropWhile is_space (rev (dropWhile is_space s)))"

lemma strip_id:
  assumes "s = [] \<or> \<not> is_space (hd s) \<and> \<not> is_space (last s)"
  shows "strip s = s"
proof (cases s rule: rev_cases)
  case (snoc xs x)
  with assms have "dropWhile is_space s = s" by (auto simp: dropWhile_eq_self_iff)
  moreover have "\<not> is_space x" using assms snoc by simp
  ultimately show ?thesis by (simp add: strip_def snoc)
qed (simp add: strip_def)

lemma strip_no_space: "\<forall>c \<in> set s. \<not> is_space c \<Longrightarrow> strip s = s"
  by (rule strip_id) (cases "s = []", simp_all)

subsection \<open>Digits\<close>

definition is_digit :: "char \<Rightarrow> bool" where
  "is_digit c \<longleftrightarrow> 48 \<le> (of_char c :: nat) \<and> (of_char c :: nat) \<le> 57"

definition isdigit :: "string \<Rightarrow> bool" where
  "isdigit s \<longleftrightarrow> s \<noteq> [] \<and> list_all is_digit s"

definition digits_val :: "string \<Rightarrow> nat" where
  "digits_val s = foldl (\<lambda>a c. 10 * a + (of_char c - 48)) 0 s"

definition digit :: "nat \<Rightarrow> char" where
  "digit d = char_of (48 + d)"

fun show_nat :: "nat \<Rightarrow> string" where
  "show_nat n = (if n < 10 then [digit n] else show_nat (n div 10) @ [digit (n mod 10)])"

declare show_nat.simps [simp del]

lemma of_char_digit [simp]: "d < 10 \<Longrightarrow> of_char (digit d) = (48 + d :: nat)"
  by (simp add: digit_def)

lemma is_digit_digit [simp]: "d < 10 \<Longrightarrow> is_digit (digit d)"
  by (simp add: is_digit_def)

lemma digits_val_snoc: "digits_val (s @ [c]) = 10 * digits_val s + (of_char c - 48)"
  by (simp add: digits_val_def)

lemma show_nat_props: "isdigit (show_nat n) \<and> digits_val (show_nat n) = n"
proof (induction n rule: show_nat.induct)
  case (1 n)
  show ?case
  proof (cases "n < 10")
    case True
    then show ?thesis by (simp add: show_nat.simps [of n] isdigit_def digits_val_def)
  next
    case False
    with 1 show ?thesis by (simp add: show_nat.simps [of n] isdigit_def digits_val_snoc)
  qed
qed

lemmas isdigit_show [simp] = conjunct1 [OF show_nat_props]
lemmas digits_val_show [simp] = conjunct2 [OF show_nat_props]

lemma show_nat_inj: "show_nat m = show_nat n \<longleftrightarrow> m = n"
  by (metis digits_val_show)

lemma show_nat_digits: "c \<in> set (show_nat n) \<Longrightarrow> is_digit c"
  using isdigit_show [of n] by (auto simp: isdigit_def list_all_iff)

lemma show_nat_nonempty [simp]: "show_nat n \<noteq> []"
  using isdigit_show [of n] by (auto simp: isdigit_def)

lemma digit_not_space: "is_digit c \<Longrightarrow> \<not> is_space c"
  by (auto simp: is_digit_def is_space_def)

lemma strip_show [simp]: "strip (show_nat n) = show_nat n"
  by (rule strip_no_space) (auto dest: show_nat_digits digit_not_space)

lemma not_digit_chars [simp]:
  "\<not> is_digit CHR '',''" "\<not> is_digit CHR ''-''" "\<not> is_digit CHR ''/''" "\<not> is_digit CHR '':''"
  "\<not> is_digit CHR ''_''" "\<not> is_digit CHR ''=''" "\<not> is_digit CHR ''+''"
  by (simp_all add: is_digit_def of_char_def)

text \<open>Formatting with \<open>:02d\<close>.\<close>

definition show_02d :: "nat \<Rightarrow> string" where
  "show_02d n = (if n < 10 then digit 0 # show_nat n else show_nat n)"

lemma digits_val_show_02d [simp]: "digits_val (show_02d n) = n"
proof (cases "n < 10")
  case True
  then show ?thesis by (simp add: show_02d_def show_nat.simps [of n] digits_val_def)
qed (simp add: show_02d_def)

lemma show_02d_digits: "c \<in> set (show_02d n) \<Longrightarrow> is_digit c"
  by (auto simp: show_02d_def dest: show_nat_digits split: if_splits)

subsection \<open>\<open>int(s)\<close>\<close>

text \<open>Optional surrounding blanks, an optional sign, digits in groups separated by single underscores.\<close>

definition parse_int :: "string \<Rightarrow> exn + int" where
  "parse_int s =
     (let t = strip s;
          neg = (t \<noteq> [] \<and> hd t = CHR ''-'');
          body = (if t \<noteq> [] \<and> hd t \<in> {CHR ''-'', CHR ''+''} then tl t else t);
          groups = split_on CHR ''_'' body
      in if list_all isdigit groups
         then Inr (if neg then - int (digits_val (concat groups)) else int (digits_val (concat groups)))
         else Inl ValueErr)"

lemma parse_int_show [simp]: "parse_int (show_nat n) = Inr (int n)"
proof -
  have hd: "is_digit (hd (show_nat n))" using show_nat_digits [of "hd (show_nat n)" n] by simp
  then have "hd (show_nat n) \<noteq> CHR ''-''" "hd (show_nat n) \<noteq> CHR ''+''" by (metis not_digit_chars)+
  moreover have "split_on CHR ''_'' (show_nat n) = [show_nat n]"
    by (rule split_on_free) (use show_nat_digits not_digit_chars in blast)
  ultimately show ?thesis by (simp add: parse_int_def Let_def)
qed

lemma parse_int_empty [simp]: "parse_int [] = Inl ValueErr"
  by (simp add: parse_int_def strip_def isdigit_def)

lemma parse_int_error: "parse_int s = Inl e \<Longrightarrow> e = ValueErr"
  by (auto simp: parse_int_def Let_def split: if_splits)

end
