(* ===== verification/Schedule.thy ===== *)
theory Schedule
  imports Text Chemistry
begin

section \<open>Test schedules\<close>

text \<open>
  \<open>batterylab/schedule.py\<close>: the schedule data, the validators that the source writes itself,
  and the two helpers of the executor. \<open>validate_schedule\<close> applies to already typed fields the
  constraints that the source declares (\<open>ge\<close>, \<open>le\<close>) or codes (\<open>_normalize\<close>, \<open>_at_least_one_step\<close>);
  theory Schedule_Data gets the typed fields from the parsed YAML.
\<close>

definition MAX_CHASSIS :: int where "MAX_CHASSIS = 16"
definition MAX_CHANNELS_PER_CHASSIS :: int where "MAX_CHANNELS_PER_CHASSIS = 32"

record end_condition =
  voltage_v_above :: "real option"
  voltage_v_below :: "real option"
  current_a_below_c_rate :: "real option"
  max_duration_s :: "real option"

datatype step =
    RestStep (step_name: string) (duration_s: real)
  | CCStep (step_name: string) (rate_c: real) (end_when: end_condition)
  | CVStep (step_name: string) (voltage_v: real) (end_when: end_condition)

record schedule =
  schedule_id :: string
  sch_chemistry :: string
  sch_chassis :: "int list"
  sch_channels_per_chassis :: int
  sch_setpoint_c :: real
  sch_soak_seconds :: real
  sch_steps :: "step list"
  sch_repeat :: int

subsection \<open>The chassis field\<close>

text \<open>
  What \<open>yaml.safe_load\<close> can return. A Python bool is an int. A mapping has text keys; one with
  other keys, a date or binary data is \<open>YOther\<close>.
\<close>

datatype yaml_value =
    YNull | YInt int | YBool bool | YFloat real | YStr string | YList "yaml_value list"
  | YMap "(string \<times> yaml_value) list" | YOther

fun item_id :: "yaml_value \<Rightarrow> exn + int" where
  "item_id (YInt i) = Inr i"
| "item_id _ = Inl ValueErr"

definition part_ids :: "string \<Rightarrow> exn + int list" where
  "part_ids p =
     (let part = strip p in
      if part = [] then Inl ValueErr
      else if CHR ''-'' \<in> set part then
        (let (lo_s, hi_s) = partition_at CHR ''-'' part in
         if \<not> (isdigit lo_s \<and> isdigit hi_s) then Inl ValueErr
         else if digits_val hi_s < digits_val lo_s then Inl ValueErr
         else Inr (map int [digits_val lo_s ..< Suc (digits_val hi_s)]))
      else if \<not> isdigit part then Inl ValueErr
      else Inr [int (digits_val part)])"

fun raw_ids :: "yaml_value \<Rightarrow> exn + int list" where
  "raw_ids (YInt i) = Inr [i]"
| "raw_ids (YBool b) = Inr [if b then 1 else 0]"
| "raw_ids (YList xs) = collect item_id xs"
| "raw_ids (YStr s) = bind_sum (collect part_ids (split_on CHR '','' s)) (\<lambda>xss. Inr (concat xss))"
| "raw_ids _ = Inl ValueErr"

definition normalize :: "yaml_value \<Rightarrow> exn + int list" where
  "normalize v = bind_sum (raw_ids v) (\<lambda>ids.
     if ids = [] then Inl ValueErr
     else if list_ex (\<lambda>cid. cid < 1 \<or> MAX_CHASSIS < cid) ids then Inl ValueErr
     else Inr (sort (remdups ids)))"

subsection \<open>Whole schedules\<close>

definition at_least_one_step :: "step list \<Rightarrow> exn + step list" where
  "at_least_one_step v =
     (if v = [] then Inl ValueErr
      else if \<not> distinct (map step_name v) then Inl ValueErr
      else Inr v)"

definition validate_schedule ::
  "string \<Rightarrow> string \<Rightarrow> yaml_value \<Rightarrow> int \<Rightarrow> real \<Rightarrow> real \<Rightarrow> step list \<Rightarrow> int \<Rightarrow> exn + schedule" where
  "validate_schedule sid chemistry chassis channels setpoint soak steps repeat =
     (case (normalize chassis, at_least_one_step steps) of
        (Inr ids, Inr ss) \<Rightarrow>
          if 1 \<le> channels \<and> channels \<le> MAX_CHANNELS_PER_CHASSIS \<and> 1 \<le> repeat
          then Inr \<lparr>schedule_id = sid, sch_chemistry = chemistry, sch_chassis = ids,
            sch_channels_per_chassis = channels, sch_setpoint_c = setpoint, sch_soak_seconds = soak,
            sch_steps = ss, sch_repeat = repeat\<rparr>
          else Inl ValidationErr
      | _ \<Rightarrow> Inl ValidationErr)"

definition schedule_ok :: "schedule \<Rightarrow> bool" where
  "schedule_ok s \<longleftrightarrow> sch_steps s \<noteq> [] \<and> distinct (map step_name (sch_steps s)) \<and> 1 \<le> sch_repeat s \<and>
     sch_chassis s \<noteq> [] \<and> sorted (sch_chassis s) \<and> distinct (sch_chassis s) \<and> set (sch_chassis s) \<subseteq> {1..MAX_CHASSIS} \<and>
     1 \<le> sch_channels_per_chassis s \<and> sch_channels_per_chassis s \<le> MAX_CHANNELS_PER_CHASSIS"

subsection \<open>Helpers of the executor\<close>

fun step_to_command :: "step \<Rightarrow> real \<Rightarrow> real option \<Rightarrow> channel_mode \<times> real" where
  "step_to_command (RestStep _ _) capacity mx = (Rest, 0)"
| "step_to_command (CCStep _ rate _) capacity mx =
     (let rate = (case mx of Some m \<Rightarrow> if m < rate then m else rate | None \<Rightarrow> rate)
      in (Cc, - rate * capacity))"
| "step_to_command (CVStep _ v _) capacity mx = (Cv, v)"

definition condition_met :: "end_condition \<Rightarrow> real \<Rightarrow> real \<Rightarrow> real \<Rightarrow> real \<Rightarrow> bool" where
  "condition_met cond voltage current elapsed capacity \<longleftrightarrow>
     (case voltage_v_above cond of Some v \<Rightarrow> v \<le> voltage | None \<Rightarrow> False) \<or>
     (case voltage_v_below cond of Some v \<Rightarrow> voltage \<le> v | None \<Rightarrow> False) \<or>
     (case current_a_below_c_rate cond of Some c \<Rightarrow> \<bar>current\<bar> < c * capacity | None \<Rightarrow> False) \<or>
     (case max_duration_s cond of Some d \<Rightarrow> d \<le> elapsed | None \<Rightarrow> False)"

fun end_condition_met :: "step \<Rightarrow> real \<Rightarrow> real \<Rightarrow> real \<Rightarrow> real \<Rightarrow> bool" where
  "end_condition_met (RestStep _ d) voltage current elapsed capacity \<longleftrightarrow> d \<le> elapsed"
| "end_condition_met (CCStep _ _ c) voltage current elapsed capacity \<longleftrightarrow> condition_met c voltage current elapsed capacity"
| "end_condition_met (CVStep _ _ c) voltage current elapsed capacity \<longleftrightarrow> condition_met c voltage current elapsed capacity"

subsection \<open>Normal forms\<close>

lemma normalize_Inr:
  "normalize v = Inr ids \<Longrightarrow> ids \<noteq> [] \<and> sorted ids \<and> distinct ids \<and> set ids \<subseteq> {1..MAX_CHASSIS} \<and>
    (\<exists>raw. raw_ids v = Inr raw \<and> set ids = set raw)"
proof -
  assume "normalize v = Inr ids"
  then obtain raw where "raw_ids v = Inr raw" "raw \<noteq> []" "\<not> list_ex (\<lambda>cid. cid < 1 \<or> MAX_CHASSIS < cid) raw"
    "ids = sort (remdups raw)" by (auto simp: normalize_def split: if_splits)
  moreover from this have "set ids = set raw" by simp
  moreover have "ids \<noteq> []" using calculation by (metis set_empty)
  ultimately show ?thesis by (auto simp: list_ex_iff)
qed

lemma collect_items: "collect item_id (map YInt ids) = Inr ids"
  by (induction ids) simp_all

lemma normalize_ids:
  assumes "ids \<noteq> []" "sorted ids" "distinct ids" "set ids \<subseteq> {1..MAX_CHASSIS}"
  shows "normalize (YList (map YInt ids)) = Inr ids"
proof -
  have "\<not> list_ex (\<lambda>cid. cid < 1 \<or> MAX_CHASSIS < cid) ids" using assms(4) by (auto simp: list_ex_iff)
  moreover have "sort (remdups ids) = ids" using assms(2,3) by (simp add: distinct_remdups_id sorted_sort_id)
  ultimately show ?thesis using assms(1) by (simp add: normalize_def collect_items)
qed

lemma schedule_ok_validate: "validate_schedule sid c v n sp sk ss r = Inr s \<Longrightarrow> schedule_ok s"
  by (auto simp: validate_schedule_def schedule_ok_def at_least_one_step_def split: sum.splits if_splits
      dest!: normalize_Inr)

text \<open>The documented string form: comma-separated ids and ranges.\<close>

datatype seg = Single nat | Range nat nat

fun render_seg :: "seg \<Rightarrow> string" where
  "render_seg (Single n) = show_nat n"
| "render_seg (Range a b) = show_nat a @ CHR ''-'' # show_nat b"

fun seg_ids :: "seg \<Rightarrow> int list" where
  "seg_ids (Single n) = [int n]"
| "seg_ids (Range a b) = map int [a ..< Suc b]"

fun seg_ok :: "seg \<Rightarrow> bool" where
  "seg_ok (Single n) \<longleftrightarrow> 1 \<le> n \<and> n \<le> 16"
| "seg_ok (Range a b) \<longleftrightarrow> 1 \<le> a \<and> a \<le> b \<and> b \<le> 16"

definition render :: "seg list \<Rightarrow> string" where
  "render segs = join_with CHR '','' (map render_seg segs)"

lemma show_nat_free: "\<not> is_digit c \<Longrightarrow> c \<notin> set (show_nat n)"
  using show_nat_digits by blast

lemma part_ids_render: "seg_ok s \<Longrightarrow> part_ids (render_seg s) = Inr (seg_ids s)"
proof (cases s)
  case (Single n)
  have "CHR ''-'' \<notin> set (show_nat n)" by (rule show_nat_free) simp
  with Single show ?thesis by (simp add: part_ids_def)
next
  case (Range a b)
  assume "seg_ok s"
  let ?p = "show_nat a @ CHR ''-'' # show_nat b"
  have "\<not> is_space CHR ''-''" by (simp add: is_space_def of_char_def)
  then have "strip ?p = ?p"
    by (intro strip_no_space) (auto dest: show_nat_digits digit_not_space)
  moreover have "CHR ''-'' \<notin> set (show_nat a)" by (rule show_nat_free) simp
  ultimately show ?thesis using \<open>seg_ok s\<close> Range
    by (simp add: part_ids_def Let_def partition_at_append not_less)
qed

lemma render_seg_no_comma: "CHR '','' \<notin> set (render_seg s)"
  by (cases s) (simp_all add: show_nat_free)

lemma raw_ids_render:
  assumes "segs \<noteq> []" "list_all seg_ok segs"
  shows "raw_ids (YStr (render segs)) = Inr (concat (map seg_ids segs))"
proof -
  have "collect part_ids (map render_seg ss) = Inr (map seg_ids ss)" if "list_all seg_ok ss" for ss
    using that by (induction ss) (simp_all add: part_ids_render)
  moreover have "split_on CHR '','' (render segs) = map render_seg segs"
    unfolding render_def using assms(1) render_seg_no_comma by (intro split_on_join) auto
  ultimately show ?thesis using assms(2) by simp
qed

lemma seg_ids_range: "seg_ok s \<Longrightarrow> seg_ids s \<noteq> [] \<and> set (seg_ids s) \<subseteq> {1..16}"
  by (cases s) auto

text \<open>
  C37. The chassis selector. Every spelling that is accepted denotes a non-empty, sorted,
  duplicate-free list of deployed chassis ids, which is itself a spelling of the same list;
  and every comma-separated text of ids and ascending ranges within 1..16 is accepted and
  denotes exactly the union of its parts.
\<close>

theorem chassis_selector:
  "(\<forall>ids. normalize v = Inr ids \<longrightarrow> ids \<noteq> [] \<and> sorted ids \<and> distinct ids \<and> set ids \<subseteq> {1..16} \<and>
      normalize (YList (map YInt ids)) = Inr ids) \<and>
   (segs \<noteq> [] \<and> list_all seg_ok segs \<longrightarrow>
      (\<exists>ids. normalize (YStr (render segs)) = Inr ids \<and> set ids = (\<Union>s \<in> set segs. set (seg_ids s))))"
proof (intro conjI allI impI)
  fix ids assume "normalize v = Inr ids"
  from normalize_Inr [OF this] normalize_ids [of ids]
  show "ids \<noteq> []" "sorted ids" "distinct ids" "set ids \<subseteq> {1..16}" "normalize (YList (map YInt ids)) = Inr ids"
    by (auto simp: MAX_CHASSIS_def)
next
  assume segs: "segs \<noteq> [] \<and> list_all seg_ok segs"
  let ?raw = "concat (map seg_ids segs)"
  have "?raw \<noteq> []" using segs seg_ids_range by (cases segs) auto
  moreover have "\<not> list_ex (\<lambda>cid. cid < 1 \<or> MAX_CHASSIS < cid) ?raw"
    using segs seg_ids_range by (fastforce simp: list_ex_iff list_all_iff MAX_CHASSIS_def)
  moreover have "raw_ids (YStr (render segs)) = Inr ?raw" using raw_ids_render segs by blast
  ultimately have "normalize (YStr (render segs)) = Inr (sort (remdups ?raw))"
    by (simp add: normalize_def del: raw_ids.simps)
  then show "\<exists>ids. normalize (YStr (render segs)) = Inr ids \<and> set ids = (\<Union>s \<in> set segs. set (seg_ids s))"
    by (intro exI [of _ "sort (remdups ?raw)"]) simp
qed

lemma chassis_selector_witness:
  "\<exists>ids. normalize (YStr ''1,3-5'') = Inr ids \<and> set ids = {1, 3, 4, 5}"
proof -
  have "render [Single 1, Range 3 5] = ''1,3-5''"
    by (simp add: render_def show_nat.simps digit_def char_of_def bit_iff_odd)
  with chassis_selector [of YOther "[Single 1, Range 3 5]"] show ?thesis by (auto simp: upt_rec)
qed

text \<open>
  The charge-rate clip. Whatever the step, the commanded current never charges harder than
  the chemistry's ceiling; rates below the ceiling and all discharge rates reach the cycler
  unclipped. For the shipped chemistries no commanded charge exceeds 9 A.
\<close>

theorem charge_rate_clipped:
  assumes "get_chemistry name = Inr chem"
  shows "- (max_charge_c_rate chem * capacity_ah_nominal chem)
      \<le> snd (step_to_command (CCStep n rate ec) (capacity_ah_nominal chem) (Some (max_charge_c_rate chem))) \<and>
    (rate \<le> max_charge_c_rate chem \<longrightarrow>
      step_to_command (CCStep n rate ec) (capacity_ah_nominal chem) (Some (max_charge_c_rate chem))
        = (Cc, - rate * capacity_ah_nominal chem)) \<and>
    max_charge_c_rate chem * capacity_ah_nominal chem \<le> 9"
proof -
  have c: "0 < capacity_ah_nominal chem" "max_charge_c_rate chem * capacity_ah_nominal chem \<le> 9"
    using assms by (auto simp: get_chemistry_def CHEMISTRIES_def chem_defs split: if_splits)
  then show ?thesis by (auto simp: Let_def)
qed

definition until_4v2 :: end_condition where
  "until_4v2 = \<lparr>voltage_v_above = Some 4.2, voltage_v_below = None, current_a_below_c_rate = None, max_duration_s = None\<rparr>"

lemma charge_rate_clipped_witness:
  "- (1.5 * 3.45) \<le> snd (step_to_command (CCStep ''cc_charge'' 4 until_4v2) 3.45 (Some 1.5))"
  using charge_rate_clipped [of "''NMC+SiC''" chem_NMC_SIC "''cc_charge''" 4 until_4v2]
  by (simp add: get_chemistry_def CHEMISTRIES_def chem_NMC_SIC_def)

end
