(* ===== verification/Orch_World.thy ===== *)
theory Orch_World
  imports Cycler_Client Schedule "HOL-Library.Multiset"
begin

section \<open>The world of the orchestrator\<close>

text \<open>
  The state the orchestrator works on: the tables of the metadata database
  (\<open>migrations/postgres\<close>), one Modbus connection per chassis (\<open>cyclers_by_id\<close>), the two
  outgoing queues (\<open>context.py\<close>, \<open>events.py\<close>), the experiments it holds in memory, and the
  clocks.

  Faults. Every SQL statement asks the fault oracle \<open>w_faults\<close>: it commits, or is rejected
  (raises without effect), or commits and then raises (the connection drops after the commit).
  An exhausted oracle means success. The faults of a Modbus connection are part of the
  connection's own state. \<open>Killed\<close> as the exception of a fault is the end of the process at
  that point. The clocks are oracles too: each read consumes one position.

  asyncpg, aiomqtt and pymodbus are not under src/; a statement is modelled by its effect on
  the tables, as its SQL text says.
\<close>

datatype status = Pending | Running | Completed | Failed
datatype step_state = StepRunning | StepCompleted

record experiment_row =
  er_id :: string
  er_chassis_id :: int
  er_channel_idx :: nat
  er_schedule_id :: string
  er_git_sha :: string
  er_status :: status
  er_finished_at :: "real option"

record step_row =
  sr_experiment_id :: string
  sr_cycle_index :: nat
  sr_step_index :: nat
  sr_step_name :: string
  sr_state :: step_state
  sr_started_at :: real
  sr_ended_at :: "real option"

record alert_row =
  al_severity :: string
  al_source :: string
  al_message :: string
  al_chassis_id :: "int option"
  al_channel_idx :: "int option"

datatype fault = Commit | Reject exn | Lost exn

record experiment_obj =
  ex_id :: string
  ex_chassis_id :: int
  ex_channel_idx :: nat
  ex_schedule :: schedule
  ex_git_sha :: string
  ex_cycle_index :: nat
  ex_step_index :: nat
  ex_step_started_sim_s :: real
  ex_status :: status
  ex_resume_drift_count :: nat

datatype context_msg =
    CtxPublish (ctx_chassis: int) (ctx_channel: nat) (ctx_schedule_id: string) (ctx_step_name: string)
      (ctx_step_index: nat) (ctx_cycle_index: nat) (ctx_experiment_id: string)
  | CtxClear (ctx_chassis: int) (ctx_channel: nat)

record cycle_event =
  ev_t :: real
  ev_experiment_id :: string
  ev_chassis_id :: int
  ev_channel_idx :: nat
  ev_cycle_index :: nat
  ev_schedule_id :: string

record 'c world =
  w_schedules :: "string \<rightharpoonup> string \<times> string"
  w_experiment_rows :: "experiment_row list"
  w_step_rows :: "step_row list"
  w_alerts :: "alert_row list"
  w_faults :: "fault list"
  w_ports :: "int \<rightharpoonup> 'c"
  w_context_queue :: "context_msg list"
  w_event_queue :: "cycle_event list"
  w_sim_clock :: "nat \<Rightarrow> real"
  w_wall_clock :: "nat \<Rightarrow> real"
  w_reads :: nat
  w_alerted :: "int set"
  w_experiments :: "experiment_obj list"
  w_exp :: experiment_obj

subsection \<open>Clocks and statements\<close>

definition now_sim :: "('c world, real) act" where
  "now_sim w = (Inr (w_sim_clock w (w_reads w)), w\<lparr>w_reads := Suc (w_reads w)\<rparr>)"

definition now_utc :: "('c world, real) act" where
  "now_utc w = (Inr (w_wall_clock w (w_reads w)), w\<lparr>w_reads := Suc (w_reads w)\<rparr>)"

definition db_execute :: "('c world \<Rightarrow> 'c world) \<Rightarrow> ('c world, unit) act" where
  "db_execute f w =
     (case w_faults w of
        [] \<Rightarrow> (Inr (), f w)
      | Commit # fs \<Rightarrow> (Inr (), f (w\<lparr>w_faults := fs\<rparr>))
      | Reject e # fs \<Rightarrow> (Inl e, w\<lparr>w_faults := fs\<rparr>)
      | Lost e # fs \<Rightarrow> (Inl e, f (w\<lparr>w_faults := fs\<rparr>)))"

definition db_fetch :: "('c world \<Rightarrow> 'a) \<Rightarrow> ('c world, 'a) act" where
  "db_fetch g w =
     (case w_faults w of
        [] \<Rightarrow> (Inr (g w), w)
      | Commit # fs \<Rightarrow> (Inr (g w), w\<lparr>w_faults := fs\<rparr>)
      | Reject e # fs \<Rightarrow> (Inl e, w\<lparr>w_faults := fs\<rparr>)
      | Lost e # fs \<Rightarrow> (Inl e, w\<lparr>w_faults := fs\<rparr>))"

text \<open>A call on the connection of a chassis; \<open>cyclers_by_id[...]\<close> raises \<open>KeyError\<close> when absent.\<close>

definition on_port :: "int \<Rightarrow> ('c, 'a) act \<Rightarrow> ('c world, 'a) act" where
  "on_port cid m w =
     (case w_ports w cid of
        None \<Rightarrow> (Inl KeyErr, w)
      | Some c \<Rightarrow> (let (r, c') = m c in (r, w\<lparr>w_ports := (w_ports w)(cid \<mapsto> c')\<rparr>)))"

definition nth_or_raise :: "'a list \<Rightarrow> nat \<Rightarrow> exn + 'a" where
  "nth_or_raise xs i = (if i < length xs then Inr (xs ! i) else Inl IndexErr)"

definition upd_exp :: "(experiment_obj \<Rightarrow> experiment_obj) \<Rightarrow> ('c world, unit) act" where
  "upd_exp f = mod_act (\<lambda>w. w\<lparr>w_exp := f (w_exp w)\<rparr>)"

subsection \<open>The outgoing queues\<close>

definition QUEUE_MAX :: nat where "QUEUE_MAX = 1000"

definition put_nowait :: "'a \<Rightarrow> 'a list \<Rightarrow> 'a list" where
  "put_nowait x q = (if length q < QUEUE_MAX then q @ [x] else q)"

definition publish_context :: "experiment_obj \<Rightarrow> string \<Rightarrow> ('c world, unit) act" where
  "publish_context x name = mod_act (\<lambda>w. w\<lparr>w_context_queue :=
     put_nowait (CtxPublish (ex_chassis_id x) (ex_channel_idx x) (schedule_id (ex_schedule x)) name
       (ex_step_index x) (ex_cycle_index x) (ex_id x)) (w_context_queue w)\<rparr>)"

definition clear_context :: "int \<Rightarrow> nat \<Rightarrow> ('c world, unit) act" where
  "clear_context chassis_id channel_idx = mod_act (\<lambda>w. w\<lparr>w_context_queue :=
     put_nowait (CtxClear chassis_id channel_idx) (w_context_queue w)\<rparr>)"

definition enqueue_cycle_complete :: "experiment_obj \<Rightarrow> ('c world, unit) act" where
  "enqueue_cycle_complete x = bind_act now_utc (\<lambda>t. mod_act (\<lambda>w. w\<lparr>w_event_queue :=
     put_nowait \<lparr>ev_t = t, ev_experiment_id = ex_id x, ev_chassis_id = ex_chassis_id x,
       ev_channel_idx = ex_channel_idx x, ev_cycle_index = ex_cycle_index x,
       ev_schedule_id = schedule_id (ex_schedule x)\<rparr> (w_event_queue w)\<rparr>))"

text \<open>
  One pass of a publisher loop: take the head and publish it; on a broker error put it back
  at the end and reconnect. \<open>publish\<close> is the broker's answer.
\<close>

fun publisher_step :: "('a \<Rightarrow> bool) \<Rightarrow> 'a list \<Rightarrow> 'a option \<times> 'a list" where
  "publisher_step publish [] = (None, [])"
| "publisher_step publish (x # q) = (if publish x then (Some x, q) else (None, q @ [x]))"

subsection \<open>Statements of the executor\<close>

definition add_step_row :: "experiment_obj \<Rightarrow> string \<Rightarrow> real \<Rightarrow> step_row list \<Rightarrow> step_row list" where
  "add_step_row x name t rows =
     (if list_ex (\<lambda>r. sr_experiment_id r = ex_id x \<and> sr_cycle_index r = ex_cycle_index x
            \<and> sr_step_index r = ex_step_index x) rows
      then rows
      else rows @ [\<lparr>sr_experiment_id = ex_id x, sr_cycle_index = ex_cycle_index x,
             sr_step_index = ex_step_index x, sr_step_name = name, sr_state = StepRunning,
             sr_started_at = t, sr_ended_at = None\<rparr>])"

definition insert_step_row :: "experiment_obj \<Rightarrow> ('c world, unit) act" where
  "insert_step_row x =
     bind_act (lift_sum (nth_or_raise (sch_steps (ex_schedule x)) (ex_step_index x))) (\<lambda>step.
     bind_act now_utc (\<lambda>t.
       db_execute (\<lambda>w. w\<lparr>w_step_rows := add_step_row x (step_name step) t (w_step_rows w)\<rparr>)))"

definition complete_step_row :: "experiment_obj \<Rightarrow> real \<Rightarrow> step_row list \<Rightarrow> step_row list" where
  "complete_step_row x t rows =
     map (\<lambda>r. if sr_experiment_id r = ex_id x \<and> sr_cycle_index r = ex_cycle_index x
                \<and> sr_step_index r = ex_step_index x
              then r\<lparr>sr_state := StepCompleted, sr_ended_at := Some t\<rparr> else r) rows"

definition mark_step_completed :: "experiment_obj \<Rightarrow> ('c world, unit) act" where
  "mark_step_completed x = bind_act now_utc (\<lambda>t.
     db_execute (\<lambda>w. w\<lparr>w_step_rows := complete_step_row x t (w_step_rows w)\<rparr>))"

definition set_status :: "string \<Rightarrow> status \<Rightarrow> real \<Rightarrow> experiment_row list \<Rightarrow> experiment_row list" where
  "set_status exp_id st t rows =
     map (\<lambda>r. if er_id r = exp_id
              then r\<lparr>er_status := st,
                     er_finished_at := (if st \<in> {Completed, Failed} then Some t else er_finished_at r)\<rparr>
              else r) rows"

definition mark_experiment_status :: "string \<Rightarrow> status \<Rightarrow> ('c world, unit) act" where
  "mark_experiment_status exp_id st =
     db_execute (\<lambda>w. w\<lparr>w_experiment_rows :=
       set_status exp_id st (w_wall_clock w (w_reads w)) (w_experiment_rows w)\<rparr>)"

definition emit_critical_alert :: "string \<Rightarrow> string \<Rightarrow> int option \<Rightarrow> int option \<Rightarrow> ('c world, unit) act" where
  "emit_critical_alert source message chassis channel =
     catch_act (db_execute (\<lambda>w. w\<lparr>w_alerts := w_alerts w @
         [\<lparr>al_severity = ''critical'', al_source = source, al_message = message,
           al_chassis_id = chassis, al_channel_idx = channel\<rparr>]\<rparr>))
       (\<lambda>e. e = PostgresErr) (\<lambda>_. ret ())"

subsection \<open>Execution rules\<close>

lemma db_execute_ok [run_simps]: "w_faults w = [] \<Longrightarrow> db_execute f w = (Inr (), f w)"
  by (simp add: db_execute_def)

lemma db_fetch_ok [run_simps]: "w_faults w = [] \<Longrightarrow> db_fetch g w = (Inr (g w), w)"
  by (simp add: db_fetch_def)

lemma on_port_run [run_simps]:
  "w_ports w cid = Some c \<Longrightarrow> m c = (r, c') \<Longrightarrow> on_port cid m w = (r, w\<lparr>w_ports := (w_ports w)(cid \<mapsto> c')\<rparr>)"
  by (simp add: on_port_def)

text \<open>The world after a statement, without its fault oracle.\<close>

lemma triple_execute:
  "(\<And>w fs. P w \<Longrightarrow> Q () (f (w\<lparr>w_faults := fs\<rparr>)) \<and> (\<forall>e. E e (f (w\<lparr>w_faults := fs\<rparr>))) \<and> (\<forall>e. E e (w\<lparr>w_faults := fs\<rparr>))) \<Longrightarrow>
    triple P (db_execute f) Q E"
proof (rule tripleI)
  fix w assume *: "\<And>w fs. P w \<Longrightarrow> Q () (f (w\<lparr>w_faults := fs\<rparr>)) \<and> (\<forall>e. E e (f (w\<lparr>w_faults := fs\<rparr>))) \<and> (\<forall>e. E e (w\<lparr>w_faults := fs\<rparr>))"
    and P: "P w"
  from * [OF P, of "w_faults w"] * [OF P]
  show "case db_execute f w of (Inr x, s') \<Rightarrow> Q x s' | (Inl e, s') \<Rightarrow> E e s'"
    by (simp add: db_execute_def split: list.split fault.split)
qed

lemma triple_fetch:
  "(\<And>w fs. P w \<Longrightarrow> Q (g w) (w\<lparr>w_faults := fs\<rparr>) \<and> (\<forall>e. E e (w\<lparr>w_faults := fs\<rparr>))) \<Longrightarrow>
    triple P (db_fetch g) Q E"
proof (rule tripleI)
  fix w assume *: "\<And>w fs. P w \<Longrightarrow> Q (g w) (w\<lparr>w_faults := fs\<rparr>) \<and> (\<forall>e. E e (w\<lparr>w_faults := fs\<rparr>))" and P: "P w"
  from * [OF P, of "w_faults w"] * [OF P]
  show "case db_fetch g w of (Inr x, s') \<Rightarrow> Q x s' | (Inl e, s') \<Rightarrow> E e s'"
    by (simp add: db_fetch_def split: list.split fault.split)
qed

lemma triple_port:
  "(\<And>w ps. P w \<Longrightarrow> (\<forall>x. Q x (w\<lparr>w_ports := ps\<rparr>)) \<and> (\<forall>e. E e (w\<lparr>w_ports := ps\<rparr>))) \<Longrightarrow> triple P (on_port cid m) Q E"
proof (rule tripleI)
  fix w assume *: "\<And>w ps. P w \<Longrightarrow> (\<forall>x. Q x (w\<lparr>w_ports := ps\<rparr>)) \<and> (\<forall>e. E e (w\<lparr>w_ports := ps\<rparr>))" and P: "P w"
  from * [OF P, of "w_ports w"] * [OF P]
  show "case on_port cid m w of (Inr x, s') \<Rightarrow> Q x s' | (Inl e, s') \<Rightarrow> E e s'"
    by (auto simp: on_port_def split: option.split prod.split sum.split)
qed

lemma triple_clock:
  assumes "\<And>w x n. P w \<Longrightarrow> Q x (w\<lparr>w_reads := n\<rparr>)"
  shows "triple P now_sim Q E" "triple P now_utc Q E"
  using assms by (auto simp: triple_def now_sim_def now_utc_def)

lemma put_nowait_bound: "length q \<le> QUEUE_MAX \<Longrightarrow> length (put_nowait x q) \<le> QUEUE_MAX"
  by (simp add: put_nowait_def)

lemma publisher_step_keeps: "publisher_step p q = (o', q') \<Longrightarrow> mset q = mset q' + (case o' of Some x \<Rightarrow> {#x#} | None \<Rightarrow> {#})"
  by (cases q) (auto split: if_splits)

end
