(* ===== verification/Executor.thy ===== *)
theory Executor
  imports Orch_World
begin

section \<open>The experiment state machine\<close>

text \<open>
  \<open>orchestrator/executor.py\<close>: one tick of one experiment, the advance to the next step or cycle,
  and the kickoff of a pending experiment. The experiment object that the coroutine mutates is
  \<open>w_exp\<close>; what a failing call leaves half done stays so, as in the source. \<open>P\<close> is the Modbus
  client.
\<close>

text \<open>\<open>exp.step_index += 1\<close> and the wrap to the next cycle.\<close>

definition at_last_step :: "experiment_obj \<Rightarrow> bool" where
  "at_last_step x \<longleftrightarrow> length (sch_steps (ex_schedule x)) \<le> Suc (ex_step_index x)"

definition next_position :: "experiment_obj \<Rightarrow> experiment_obj" where
  "next_position x =
     (if at_last_step x then x\<lparr>ex_cycle_index := Suc (ex_cycle_index x), ex_step_index := 0\<rparr>
      else x\<lparr>ex_step_index := Suc (ex_step_index x)\<rparr>)"

text \<open>The command of a step over the wire, then the dead-man kick.\<close>

definition command_step :: "'c modbus_port \<Rightarrow> experiment_obj \<Rightarrow> chemistry_params \<Rightarrow> step \<Rightarrow> ('c world, unit) act" where
  "command_step P x chem step =
     (let (mode, setpoint) = step_to_command step (capacity_ah_nominal chem) (Some (max_charge_c_rate chem))
      in seq_act (on_port (ex_chassis_id x) (send_command_default P (ex_channel_idx x) mode setpoint))
           (on_port (ex_chassis_id x) (kick_channel P (ex_channel_idx x))))"

definition finish_experiment :: "'c modbus_port \<Rightarrow> experiment_obj \<Rightarrow> ('c world, unit) act" where
  "finish_experiment P x =
     seq_act (upd_exp (\<lambda>x. x\<lparr>ex_status := Completed\<rparr>))
     (seq_act (mark_experiment_status (ex_id x) Completed)
     (seq_act (on_port (ex_chassis_id x) (send_command_default P (ex_channel_idx x) Idle 0))
     (clear_context (ex_chassis_id x) (ex_channel_idx x))))"

definition start_step :: "'c modbus_port \<Rightarrow> bool \<Rightarrow> experiment_obj \<Rightarrow> ('c world, unit) act" where
  "start_step P cycle_advanced x =
     seq_act (bind_act now_sim (\<lambda>t. upd_exp (\<lambda>x. x\<lparr>ex_step_started_sim_s := t\<rparr>)))
     (seq_act (insert_step_row x)
     (bind_act (lift_sum (get_chemistry (sch_chemistry (ex_schedule x)))) (\<lambda>chem.
      bind_act (lift_sum (nth_or_raise (sch_steps (ex_schedule x)) (ex_step_index x))) (\<lambda>next_step.
        seq_act (when_act cycle_advanced (on_port (ex_chassis_id x)
            (client_set_cycle_index P (ex_channel_idx x) (int (ex_cycle_index x)))))
        (seq_act (publish_context x (step_name next_step))
          (command_step P x chem next_step))))))"

definition advance :: "'c modbus_port \<Rightarrow> ('c world, unit) act" where
  "advance P =
     bind_act (get_act w_exp) (\<lambda>x0.
       seq_act (when_act (at_last_step x0) (enqueue_cycle_complete x0))
       (seq_act (upd_exp next_position)
       (bind_act (get_act w_exp) (\<lambda>x.
          if sch_repeat (ex_schedule x) \<le> int (ex_cycle_index x) then finish_experiment P x
          else start_step P (at_last_step x0) x))))"

definition fail_on_latch :: "experiment_obj \<Rightarrow> ('c world, unit) act" where
  "fail_on_latch x =
     seq_act (upd_exp (\<lambda>x. x\<lparr>ex_status := Failed\<rparr>))
     (seq_act (mark_step_completed x)
     (seq_act (mark_experiment_status (ex_id x) Failed)
     (clear_context (ex_chassis_id x) (ex_channel_idx x))))"

definition step_one_tick :: "'c modbus_port \<Rightarrow> ('c world, unit) act" where
  "step_one_tick P =
     bind_act (get_act w_exp) (\<lambda>x.
     bind_act (on_port (ex_chassis_id x) (read_channel P (ex_channel_idx x))) (\<lambda>snap.
       if sn_last_error snap \<noteq> NONE then fail_on_latch x
       else
         bind_act (lift_sum (get_chemistry (sch_chemistry (ex_schedule x)))) (\<lambda>chem.
         bind_act (lift_sum (nth_or_raise (sch_steps (ex_schedule x)) (ex_step_index x))) (\<lambda>step.
         bind_act now_sim (\<lambda>now.
           if end_condition_met step (sn_voltage_v snap) (sn_current_a snap)
                (now - ex_step_started_sim_s x) (capacity_ah_nominal chem)
           then seq_act (mark_step_completed x) (advance P)
           else command_step P x chem step)))))"

definition kickoff :: "'c modbus_port \<Rightarrow> ('c world, unit) act" where
  "kickoff P =
     seq_act (upd_exp (\<lambda>x. x\<lparr>ex_status := Running\<rparr>))
     (seq_act (bind_act now_sim (\<lambda>t. upd_exp (\<lambda>x. x\<lparr>ex_step_started_sim_s := t\<rparr>)))
     (bind_act (get_act w_exp) (\<lambda>x.
      seq_act (mark_experiment_status (ex_id x) Running)
      (seq_act (insert_step_row x)
      (bind_act (lift_sum (get_chemistry (sch_chemistry (ex_schedule x)))) (\<lambda>chem.
       bind_act (lift_sum (chemistry_id_for_name (sch_chemistry (ex_schedule x)))) (\<lambda>chem_id.
       seq_act (on_port (ex_chassis_id x) (write_chassis_chemistry P chem_id))
       (bind_act (on_port (ex_chassis_id x) (read_chassis_chemistry P)) (\<lambda>rb.
          if rb \<noteq> chem_id then
            seq_act (upd_exp (\<lambda>x. x\<lparr>ex_status := Failed\<rparr>)) (mark_experiment_status (ex_id x) Failed)
          else
            bind_act (lift_sum (nth_or_raise (sch_steps (ex_schedule x)) (ex_step_index x))) (\<lambda>first_step.
              seq_act (on_port (ex_chassis_id x)
                  (client_set_cycle_index P (ex_channel_idx x) (int (ex_cycle_index x))))
              (seq_act (publish_context x (step_name first_step))
                (command_step P x chem first_step))))))))))))"

subsection \<open>Where a restarted orchestrator resumes\<close>

definition row_before :: "step_row \<Rightarrow> step_row \<Rightarrow> bool" where
  "row_before a b \<longleftrightarrow> sr_cycle_index a < sr_cycle_index b \<or>
     sr_cycle_index a = sr_cycle_index b \<and> sr_step_index a < sr_step_index b"

text \<open>\<open>ORDER BY cycle_index DESC, step_index DESC LIMIT 1\<close>.\<close>

fun latest_row :: "string \<Rightarrow> step_row list \<Rightarrow> step_row option" where
  "latest_row i [] = None"
| "latest_row i (r # rs) =
     (if sr_experiment_id r \<noteq> i then latest_row i rs
      else case latest_row i rs of
          None \<Rightarrow> Some r
        | Some b \<Rightarrow> if row_before r b then Some b else Some r)"

definition resume_position :: "schedule \<Rightarrow> string \<Rightarrow> step_row list \<Rightarrow> nat \<times> nat" where
  "resume_position sched i rows =
     (case latest_row i rows of
        None \<Rightarrow> (0, 0)
      | Some r \<Rightarrow>
          if sr_state r = StepRunning then (sr_cycle_index r, sr_step_index r)
          else if length (sch_steps sched) \<le> Suc (sr_step_index r) then (Suc (sr_cycle_index r), 0)
          else (sr_cycle_index r, Suc (sr_step_index r)))"

definition load_resume_state :: "schedule \<Rightarrow> string \<Rightarrow> ('c world, nat \<times> nat) act" where
  "load_resume_state sched exp_id = db_fetch (\<lambda>w. resume_position sched exp_id (w_step_rows w))"

subsection \<open>The journal\<close>

definition exp_pos :: "experiment_obj \<Rightarrow> nat \<times> nat" where
  "exp_pos x = (ex_cycle_index x, ex_step_index x)"

definition same_key :: "experiment_obj \<Rightarrow> step_row \<Rightarrow> bool" where
  "same_key x r \<longleftrightarrow> sr_experiment_id r = ex_id x \<and> sr_cycle_index r = ex_cycle_index x \<and>
     sr_step_index r = ex_step_index x"

text \<open>The journal of a running experiment: its latest row is the current step, still running.\<close>

definition journal_at :: "experiment_obj \<Rightarrow> step_row list \<Rightarrow> bool" where
  "journal_at x rows \<longleftrightarrow> (\<exists>r. latest_row (ex_id x) rows = Some r \<and> same_key x r \<and> sr_state r = StepRunning)"

lemma latest_row_complete:
  "latest_row i (complete_step_row x t rows) = map_option
     (\<lambda>r. if same_key x r then r\<lparr>sr_state := StepCompleted, sr_ended_at := Some t\<rparr> else r) (latest_row i rows)"
proof (induction rows)
  case Nil
  then show ?case by (simp add: complete_step_row_def)
next
  case (Cons a rows)
  let ?f = "\<lambda>r. if same_key x r then r\<lparr>sr_state := StepCompleted, sr_ended_at := Some t\<rparr> else r"
  have f: "sr_experiment_id (?f r) = sr_experiment_id r" "row_before (?f r) (?f q) = row_before r q" for r q
    by (simp_all add: row_before_def)
  have c: "complete_step_row x t (a # rows) = ?f a # complete_step_row x t rows"
    by (simp add: complete_step_row_def same_key_def)
  show ?case
    by (cases "latest_row i rows") (simp_all only: c latest_row.simps Cons.IH f option.map option.case if_distrib [of "map_option ?f"])
qed

lemma latest_row_append:
  "latest_row i (rows @ [r]) =
     (if sr_experiment_id r \<noteq> i then latest_row i rows
      else case latest_row i rows of None \<Rightarrow> Some r | Some b \<Rightarrow> if row_before b r then Some r else Some b)"
proof (induction rows)
  case (Cons a rows)
  have tr: "row_before a b \<Longrightarrow> row_before b r \<Longrightarrow> row_before a r"
    "\<not> row_before a b \<Longrightarrow> \<not> row_before b r \<Longrightarrow> \<not> row_before a r" for b
    by (auto simp: row_before_def)
  with Cons show ?case by (cases "latest_row i rows") auto
qed simp

lemma latest_row_max: "latest_row i rows = Some r \<Longrightarrow> b \<in> set rows \<Longrightarrow> sr_experiment_id b = i \<Longrightarrow> \<not> row_before r b"
proof (induction rows arbitrary: r)
  case (Cons a rows)
  have tr: "row_before a c \<Longrightarrow> \<not> row_before c b \<Longrightarrow> \<not> row_before b c \<Longrightarrow> row_before a b" "\<not> row_before a a"
    "\<not> row_before c b \<Longrightarrow> \<not> row_before a c \<Longrightarrow> \<not> row_before a b" "row_before a c \<Longrightarrow> \<not> row_before c a" for c
    by (auto simp: row_before_def)
  show ?case
  proof (cases "latest_row i rows")
    case None
    then have "sr_experiment_id b \<noteq> i \<or> b \<notin> set rows" for b
      by (induction rows) (auto split: option.splits if_splits)
    with Cons.prems None tr show ?thesis by (auto split: if_splits)
  next
    case (Some c)
    with Cons.IH [OF Some] Cons.prems tr show ?thesis by (auto split: if_splits)
  qed
qed simp

lemma next_position_frame [simp]:
  "ex_id (next_position x) = ex_id x" "ex_schedule (next_position x) = ex_schedule x"
  "ex_chassis_id (next_position x) = ex_chassis_id x" "ex_channel_idx (next_position x) = ex_channel_idx x"
  "ex_status (next_position x) = ex_status x" "ex_resume_drift_count (next_position x) = ex_resume_drift_count x"
  by (simp_all add: next_position_def)

lemma journal_position: "journal_at x rows \<Longrightarrow> resume_position sched (ex_id x) rows = exp_pos x"
  by (auto simp: journal_at_def resume_position_def same_key_def exp_pos_def)

lemma journal_completed_position:
  "journal_at x rows \<Longrightarrow>
    resume_position (ex_schedule x) (ex_id x) (complete_step_row x t rows) = exp_pos (next_position x)"
  by (auto simp: journal_at_def resume_position_def latest_row_complete same_key_def exp_pos_def
      next_position_def at_last_step_def)

lemma journal_next:
  assumes "journal_at x rows"
  shows "journal_at (next_position x) (add_step_row (next_position x) nm t (complete_step_row x t' rows))"
proof -
  let ?y = "next_position x" and ?rows = "complete_step_row x t' rows"
  obtain r where r: "latest_row (ex_id x) ?rows = Some r" "same_key x r"
    using assms by (auto simp: journal_at_def latest_row_complete same_key_def)
  have before: "row_before r b" if "same_key ?y b" for b
    using that r(2) by (auto simp: same_key_def row_before_def next_position_def split: if_splits)
  have "\<not> same_key ?y b" if "b \<in> set ?rows" for b
    using before [of b] latest_row_max [OF r(1) that] by (auto simp: same_key_def)
  then have new: "add_step_row ?y nm t ?rows = ?rows @ [\<lparr>sr_experiment_id = ex_id x, sr_cycle_index = ex_cycle_index ?y,
      sr_step_index = ex_step_index ?y, sr_step_name = nm, sr_state = StepRunning, sr_started_at = t, sr_ended_at = None\<rparr>]"
    by (auto simp: add_step_row_def list_ex_iff same_key_def)
  show ?thesis
    using r(1) before unfolding journal_at_def new
    by (simp add: latest_row_append same_key_def)
qed

subsection \<open>What an action does to the journal\<close>

text \<open>
  Two views of the world suffice: the journal with the whole experiment object, and the
  journal with the object's identity and position.
\<close>

lemma keeps_world [keeps_intros]:
  "keeps (\<lambda>w. F (w_step_rows w) (w_exp w)) (on_port cid m)"
  "keeps (\<lambda>w. F (w_step_rows w) (w_exp w)) now_sim"
  "keeps (\<lambda>w. F (w_step_rows w) (w_exp w)) now_utc"
  "keeps (\<lambda>w. F (w_step_rows w) (w_exp w)) (publish_context x nm)"
  "keeps (\<lambda>w. F (w_step_rows w) (w_exp w)) (clear_context i j)"
  "keeps (\<lambda>w. F (w_step_rows w) (w_exp w)) (mark_experiment_status eid st)"
  "keeps (\<lambda>w. F (w_step_rows w) (w_exp w)) (enqueue_cycle_complete x)"
  by (auto simp: keeps_def on_port_def mod_act_def now_sim_def now_utc_def publish_context_def
      clear_context_def mark_experiment_status_def db_execute_def enqueue_cycle_complete_def bind_act_def
      split: option.split prod.split list.split fault.split)

lemma keeps_command [keeps_intros]: "keeps (\<lambda>w. F (w_step_rows w) (w_exp w)) (command_step P x chem step)"
  unfolding command_step_def split_beta Let_def by (intro keeps_intros)

lemma keeps_set_started [keeps_intros]:
  "keeps (\<lambda>w. F (w_step_rows w) (ex_id (w_exp w)) (exp_pos (w_exp w)) (ex_status (w_exp w)))
    (upd_exp (\<lambda>x. x\<lparr>ex_step_started_sim_s := t\<rparr>))"
  by (simp add: keeps_def upd_exp_def mod_act_def exp_pos_def)

text \<open>A neutral action before or after one that writes the journal.\<close>

lemma triple_neutral: "keeps I m \<Longrightarrow> (\<And>s. I s \<Longrightarrow> E s) \<Longrightarrow> triple I m (\<lambda>_. I) (\<lambda>_. E)"
  unfolding triple_keeps by (erule triple_conseq) auto

definition at_journal :: "step_row list \<Rightarrow> string \<Rightarrow> nat \<times> nat \<Rightarrow> 'c world \<Rightarrow> bool" where
  "at_journal rows i p w \<longleftrightarrow> w_step_rows w = rows \<and> ex_id (w_exp w) = i \<and> exp_pos (w_exp w) = p"

lemma mark_rows:
  assumes "G rows" "\<And>t. G (complete_step_row x t rows)"
  shows "triple (\<lambda>w. w_step_rows w = rows \<and> w_exp w = y) (mark_step_completed x)
    (\<lambda>_ w. \<exists>t. w_step_rows w = complete_step_row x t rows \<and> w_exp w = y) (\<lambda>_ w. G (w_step_rows w))"
  unfolding mark_step_completed_def
proof (rule triple_bind [OF triple_clock(2) [where Q = "\<lambda>_ w. w_step_rows w = rows \<and> w_exp w = y"]])
  fix t
  show "triple (\<lambda>w. w_step_rows w = rows \<and> w_exp w = y)
      (db_execute (\<lambda>w. w\<lparr>w_step_rows := complete_step_row x t (w_step_rows w)\<rparr>))
      (\<lambda>_ w. \<exists>t. w_step_rows w = complete_step_row x t rows \<and> w_exp w = y) (\<lambda>_ w. G (w_step_rows w))"
    using assms by (intro triple_execute) auto
qed simp

lemma insert_rows:
  assumes "G rows" "\<And>nm t. G (add_step_row x nm t rows)"
  shows "triple (at_journal rows i p) (insert_step_row x)
    (\<lambda>_ w. \<exists>nm t. at_journal (add_step_row x nm t rows) i p w) (\<lambda>_ w. G (w_step_rows w))"
  unfolding insert_step_row_def
proof (rule triple_bind [OF triple_lift [where Q = "\<lambda>_. at_journal rows i p"]])
  fix st
  show "triple (at_journal rows i p) (bind_act now_utc (\<lambda>t.
       db_execute (\<lambda>w. w\<lparr>w_step_rows := add_step_row x (step_name st) t (w_step_rows w)\<rparr>)))
      (\<lambda>_ w. \<exists>nm t. at_journal (add_step_row x nm t rows) i p w) (\<lambda>_ w. G (w_step_rows w))"
  proof (rule triple_bind [OF triple_clock(2) [where Q = "\<lambda>_. at_journal rows i p"]])
    fix t
    show "triple (at_journal rows i p)
        (db_execute (\<lambda>w. w\<lparr>w_step_rows := add_step_row x (step_name st) t (w_step_rows w)\<rparr>))
        (\<lambda>_ w. \<exists>nm t. at_journal (add_step_row x nm t rows) i p w) (\<lambda>_ w. G (w_step_rows w))"
      using assms by (intro triple_execute) (auto simp: at_journal_def)
  qed (simp add: at_journal_def)
qed (use assms in \<open>auto simp: at_journal_def\<close>)

lemma keeps_at_journal [keeps_intros]:
  "keeps (\<lambda>w. \<exists>nm t. at_journal (add_step_row x nm t rows) i p w) (on_port cid m)"
  "keeps (\<lambda>w. \<exists>nm t. at_journal (add_step_row x nm t rows) i p w) (publish_context y nm')"
  "keeps (\<lambda>w. \<exists>nm t. at_journal (add_step_row x nm t rows) i p w) (command_step P y chem step)"
  unfolding at_journal_def
  by (rule keeps_world [where F = "\<lambda>r z. \<exists>nm t. r = add_step_row x nm t rows \<and> ex_id z = i \<and> exp_pos z = p"]
      keeps_command [where F = "\<lambda>r z. \<exists>nm t. r = add_step_row x nm t rows \<and> ex_id z = i \<and> exp_pos z = p"])+

lemma start_step_rows:
  assumes "G rows" "\<And>nm t. G (add_step_row x nm t rows)"
  shows "triple (at_journal rows i p) (start_step P b x)
    (\<lambda>_ w. \<exists>nm t. at_journal (add_step_row x nm t rows) i p w) (\<lambda>_ w. G (w_step_rows w))"
  unfolding start_step_def
proof (rule triple_seq [where R = "at_journal rows i p", OF _ triple_seq
      [where R = "\<lambda>w. \<exists>nm t. at_journal (add_step_row x nm t rows) i p w"]])
  have "keeps (at_journal rows i p) (bind_act now_sim (\<lambda>t. upd_exp (\<lambda>x. x\<lparr>ex_step_started_sim_s := t\<rparr>)))"
    unfolding at_journal_def
    by (intro keeps_bind keeps_world(2) [where F = "\<lambda>r z. r = rows \<and> ex_id z = i \<and> exp_pos z = p"]
        keeps_set_started [where F = "\<lambda>r j q st. r = rows \<and> j = i \<and> q = p"])
  then show "triple (at_journal rows i p) (bind_act now_sim (\<lambda>t. upd_exp (\<lambda>x. x\<lparr>ex_step_started_sim_s := t\<rparr>)))
      (\<lambda>_. at_journal rows i p) (\<lambda>_ w. G (w_step_rows w))"
    using assms(1) by (intro triple_neutral) (auto simp: at_journal_def)
  show "triple (at_journal rows i p) (insert_step_row x)
      (\<lambda>_ w. \<exists>nm t. at_journal (add_step_row x nm t rows) i p w) (\<lambda>_ w. G (w_step_rows w))"
    using assms by (rule insert_rows)
  show "triple (\<lambda>w. \<exists>nm t. at_journal (add_step_row x nm t rows) i p w)
      (bind_act (lift_sum (get_chemistry (sch_chemistry (ex_schedule x)))) (\<lambda>chem.
        bind_act (lift_sum (nth_or_raise (sch_steps (ex_schedule x)) (ex_step_index x))) (\<lambda>next_step.
          seq_act (when_act b (on_port (ex_chassis_id x) (client_set_cycle_index P (ex_channel_idx x) (int (ex_cycle_index x)))))
           (seq_act (publish_context x (step_name next_step)) (command_step P x chem next_step)))))
      (\<lambda>_ w. \<exists>nm t. at_journal (add_step_row x nm t rows) i p w) (\<lambda>_ w. G (w_step_rows w))"
    by (intro triple_neutral keeps_intros) (use assms(2) in \<open>auto simp: at_journal_def\<close>)
qed

lemma finish_rows:
  assumes "G rows"
  shows "triple (\<lambda>w. w_step_rows w = rows) (finish_experiment P x)
    (\<lambda>_ w. w_step_rows w = rows \<and> ex_status (w_exp w) = Completed) (\<lambda>_ w. G (w_step_rows w))"
  unfolding finish_experiment_def
proof (rule triple_seq [where R = "\<lambda>w. w_step_rows w = rows \<and> ex_status (w_exp w) = Completed"])
  show "triple (\<lambda>w. w_step_rows w = rows) (upd_exp (\<lambda>x. x\<lparr>ex_status := Completed\<rparr>))
      (\<lambda>_ w. w_step_rows w = rows \<and> ex_status (w_exp w) = Completed) (\<lambda>_ w. G (w_step_rows w))"
    unfolding upd_exp_def by (rule triple_mod) simp
  show "triple (\<lambda>w. w_step_rows w = rows \<and> ex_status (w_exp w) = Completed)
     (seq_act (mark_experiment_status (ex_id x) Completed)
       (seq_act (on_port (ex_chassis_id x) (send_command_default P (ex_channel_idx x) Idle 0))
         (clear_context (ex_chassis_id x) (ex_channel_idx x))))
     (\<lambda>_ w. w_step_rows w = rows \<and> ex_status (w_exp w) = Completed) (\<lambda>_ w. G (w_step_rows w))"
    by (intro triple_neutral keeps_seq keeps_world [where F = "\<lambda>r z. r = rows \<and> ex_status z = Completed"])
      (use assms in simp)
qed

text \<open>After a normal advance: completed, or the row of the new position is in the journal.\<close>

lemma advance_rows:
  assumes "G rows" "\<And>nm t. G (add_step_row (next_position x) nm t rows)"
  shows "triple (\<lambda>w. w_step_rows w = rows \<and> w_exp w = x) (advance P)
    (\<lambda>_ w. ex_status (w_exp w) = Completed \<and> w_step_rows w = rows \<or>
       (\<exists>nm t. at_journal (add_step_row (next_position x) nm t rows) (ex_id x) (exp_pos (next_position x)) w))
    (\<lambda>_ w. G (w_step_rows w))" (is "triple ?pre _ ?post ?exc")
  unfolding advance_def
proof (rule triple_bind [OF triple_get [where Q = "\<lambda>y w. y = x \<and> ?pre w"]])
  fix x0
  let ?y = "next_position x"
  let ?rest = "bind_act (get_act w_exp) (\<lambda>y. if sch_repeat (ex_schedule y) \<le> int (ex_cycle_index y)
      then finish_experiment P y else start_step P (at_last_step x0) y)"
  have "triple ?pre (when_act (at_last_step x0) (enqueue_cycle_complete x0)) (\<lambda>_. ?pre) ?exc"
    using assms(1) by (intro triple_neutral keeps_when keeps_world [where F = "\<lambda>r z. r = rows \<and> z = x"]) simp
  moreover have "triple ?pre (upd_exp next_position) (\<lambda>_ w. w_step_rows w = rows \<and> w_exp w = ?y) ?exc"
    unfolding upd_exp_def by (rule triple_mod) simp
  moreover have "triple (\<lambda>w. w_step_rows w = rows \<and> w_exp w = ?y) ?rest ?post ?exc"
  proof (rule triple_bind [OF triple_get [where Q = "\<lambda>y w. y = ?y \<and> w_step_rows w = rows \<and> w_exp w = ?y"]])
    fix y
    show "triple (\<lambda>w. y = ?y \<and> w_step_rows w = rows \<and> w_exp w = ?y)
       (if sch_repeat (ex_schedule y) \<le> int (ex_cycle_index y) then finish_experiment P y
        else start_step P (at_last_step x0) y) ?post ?exc"
    proof (cases "y = ?y")
      case True
      show ?thesis
      proof (rule triple_if)
        show "triple (\<lambda>w. y = ?y \<and> w_step_rows w = rows \<and> w_exp w = ?y) (finish_experiment P y) ?post ?exc"
          by (rule triple_conseq [OF finish_rows [where G = G, OF assms(1)]]) auto
        show "triple (\<lambda>w. y = ?y \<and> w_step_rows w = rows \<and> w_exp w = ?y) (start_step P (at_last_step x0) y) ?post ?exc"
          unfolding True
          by (rule triple_conseq [OF start_step_rows [where G = G, OF assms]]) (auto simp: at_journal_def)
      qed
    qed (simp add: triple_def)
  qed simp
  ultimately have "triple ?pre (seq_act (when_act (at_last_step x0) (enqueue_cycle_complete x0))
      (seq_act (upd_exp next_position) ?rest)) ?post ?exc"
    by (intro triple_seq)
  then show "triple (\<lambda>w. x0 = x \<and> ?pre w) (seq_act (when_act (at_last_step x0) (enqueue_cycle_complete x0))
      (seq_act (upd_exp next_position) ?rest)) ?post ?exc"
    by (rule triple_pre) simp
qed simp

text \<open>One tick, from a journal that is in step with the object.\<close>

lemma tick_rows:
  fixes P :: "'c modbus_port"
  assumes "G rows" "\<And>t. G (complete_step_row x t rows)"
    "\<And>nm t t'. G (add_step_row (next_position x) nm t (complete_step_row x t' rows))"
  shows "triple (\<lambda>w. w_step_rows w = rows \<and> w_exp w = x) (step_one_tick P)
    (\<lambda>_ w. ex_status (w_exp w) \<in> {Completed, Failed} \<and> G (w_step_rows w) \<or>
       w_step_rows w = rows \<and> w_exp w = x \<or>
       (\<exists>nm t t'. at_journal (add_step_row (next_position x) nm t (complete_step_row x t' rows))
          (ex_id x) (exp_pos (next_position x)) w))
    (\<lambda>_ w. G (w_step_rows w))" (is "triple ?pre _ ?post ?exc")
  unfolding step_one_tick_def
proof (rule triple_bind [OF triple_get [where Q = "\<lambda>y w. y = x \<and> ?pre w"]])
  fix y
  have kp: "triple ?pre m (\<lambda>_. ?pre) ?exc" if "keeps ?pre m" for m :: "('c world, 'a) act"
    using that assms(1) by (intro triple_neutral) auto
  have kw: "keeps ?pre (on_port cid m)" "keeps ?pre now_sim" "keeps ?pre (lift_sum r)"
    "keeps ?pre (command_step P z chem step)" for cid and m :: "('c, 'b) act" and r :: "exn + 'd" and z chem step
    by (intro keeps_world [where F = "\<lambda>r z. r = rows \<and> z = x"] keeps_lift
        keeps_command [where F = "\<lambda>r z. r = rows \<and> z = x"])+
  have latch: "triple ?pre (fail_on_latch x) ?post ?exc"
    unfolding fail_on_latch_def
  proof (rule triple_seq)
    let ?z = "x\<lparr>ex_status := Failed\<rparr>"
    show "triple ?pre (upd_exp (\<lambda>x. x\<lparr>ex_status := Failed\<rparr>)) (\<lambda>_ w. w_step_rows w = rows \<and> w_exp w = ?z) ?exc"
      unfolding upd_exp_def by (rule triple_mod) simp
    let ?mid = "\<lambda>w. (\<exists>t. w_step_rows w = complete_step_row x t rows \<and> w_exp w = ?z)"
    have "triple ?mid (seq_act (mark_experiment_status (ex_id x) Failed)
         (clear_context (ex_chassis_id x) (ex_channel_idx x))) (\<lambda>_. ?mid) ?exc"
      by (intro triple_neutral keeps_seq
          keeps_world [where F = "\<lambda>r z. \<exists>t. r = complete_step_row x t rows \<and> z = ?z"]) (use assms(2) in auto)
    then have "triple ?mid (seq_act (mark_experiment_status (ex_id x) Failed)
         (clear_context (ex_chassis_id x) (ex_channel_idx x))) ?post ?exc"
      by (rule triple_conseq) (use assms(2) in \<open>fastforce+\<close>)
    then show "triple (\<lambda>w. w_step_rows w = rows \<and> w_exp w = ?z) (seq_act (mark_step_completed x)
        (seq_act (mark_experiment_status (ex_id x) Failed) (clear_context (ex_chassis_id x) (ex_channel_idx x)))) ?post ?exc"
      by (rule triple_seq [OF mark_rows [where G = G, OF assms(1,2)]])
  qed
  have adv: "triple ?pre (seq_act (mark_step_completed x) (advance P)) ?post ?exc"
  proof (rule triple_seq [OF mark_rows [where G = G, OF assms(1,2)]], rule triple_ex)
    fix t
    show "triple (\<lambda>w. w_step_rows w = complete_step_row x t rows \<and> w_exp w = x) (advance P) ?post ?exc"
    proof (rule triple_conseq [OF advance_rows [where G = G, OF assms(2) assms(3)]])
      fix v and w :: "'c world"
      assume "ex_status (w_exp w) = Completed \<and> w_step_rows w = complete_step_row x t rows \<or>
        (\<exists>nm t'. at_journal (add_step_row (next_position x) nm t' (complete_step_row x t rows))
          (ex_id x) (exp_pos (next_position x)) w)"
      then show "?post v w"
      proof (elim disjE)
        assume "ex_status (w_exp w) = Completed \<and> w_step_rows w = complete_step_row x t rows"
        then show ?thesis using assms(2) by simp
      qed blast
    qed simp_all
  qed
  have cmd: "triple ?pre (command_step P x chem step) ?post ?exc" for chem step
    by (rule triple_conseq [OF kp [OF kw(4)]]) simp_all
  have inner: "triple ?pre (bind_act (on_port (ex_chassis_id x) (read_channel P (ex_channel_idx x))) (\<lambda>snap.
       if sn_last_error snap \<noteq> NONE then fail_on_latch x
       else
         bind_act (lift_sum (get_chemistry (sch_chemistry (ex_schedule x)))) (\<lambda>chem.
         bind_act (lift_sum (nth_or_raise (sch_steps (ex_schedule x)) (ex_step_index x))) (\<lambda>step.
         bind_act now_sim (\<lambda>now.
           if end_condition_met step (sn_voltage_v snap) (sn_current_a snap)
                (now - ex_step_started_sim_s x) (capacity_ah_nominal chem)
           then seq_act (mark_step_completed x) (advance P)
           else command_step P x chem step))))) ?post ?exc"
    by (rule triple_bind [OF kp [OF kw(1)]], rule triple_if, rule latch, rule triple_bind [OF kp [OF kw(3)]],
        rule triple_bind [OF kp [OF kw(3)]], rule triple_bind [OF kp [OF kw(2)]], rule triple_if, rule adv, rule cmd)
  show "triple (\<lambda>w. y = x \<and> ?pre w) (bind_act (on_port (ex_chassis_id y) (read_channel P (ex_channel_idx y))) (\<lambda>snap.
       if sn_last_error snap \<noteq> NONE then fail_on_latch y
       else
         bind_act (lift_sum (get_chemistry (sch_chemistry (ex_schedule y)))) (\<lambda>chem.
         bind_act (lift_sum (nth_or_raise (sch_steps (ex_schedule y)) (ex_step_index y))) (\<lambda>step.
         bind_act now_sim (\<lambda>now.
           if end_condition_met step (sn_voltage_v snap) (sn_current_a snap)
                (now - ex_step_started_sim_s y) (capacity_ah_nominal chem)
           then seq_act (mark_step_completed y) (advance P)
           else command_step P y chem step))))) ?post ?exc"
    by (rule triple_fact) (simp only: inner)
qed simp

subsection \<open>Order of the schedule\<close>

fun after_advances :: "nat \<Rightarrow> experiment_obj \<Rightarrow> experiment_obj" where
  "after_advances 0 x = x"
| "after_advances (Suc k) x = next_position (after_advances k x)"

lemma after_advances_frame [simp]: "ex_schedule (after_advances k x) = ex_schedule x" "ex_id (after_advances k x) = ex_id x"
  by (induction k) simp_all

lemma after_advances_position:
  assumes "ex_cycle_index x = 0" "ex_step_index x = 0" "sch_steps (ex_schedule x) \<noteq> []"
  shows "exp_pos (after_advances k x) = (k div length (sch_steps (ex_schedule x)), k mod length (sch_steps (ex_schedule x)))"
proof (induction k)
  case 0
  then show ?case using assms by (simp add: exp_pos_def)
next
  case (Suc k)
  let ?n = "length (sch_steps (ex_schedule x))"
  have n: "0 < ?n" using assms(3) by simp
  have at: "at_last_step (after_advances k x) \<longleftrightarrow> Suc (k mod ?n) = ?n"
    using Suc mod_less_divisor [OF n, of k] by (auto simp: at_last_step_def exp_pos_def)
  show ?case
    using Suc by (simp add: next_position_def at exp_pos_def mod_Suc div_Suc)
qed

text \<open>
  A fresh experiment walks its schedule in order: after \<open>k\<close> advances it is in cycle
  \<open>k div n\<close> at step \<open>k mod n\<close> of \<open>n\<close> steps, every position before the end of the last
  cycle is visited with the cycle index still below the repeat count, and exactly the
  \<open>n * repeat\<close>-th advance completes the experiment.
\<close>

theorem schedule_walked_in_order:
  assumes "ex_cycle_index x = 0" "ex_step_index x = 0" "schedule_ok (ex_schedule x)"
  shows "exp_pos (after_advances k x) = (k div length (sch_steps (ex_schedule x)), k mod length (sch_steps (ex_schedule x))) \<and>
    (sch_repeat (ex_schedule x) \<le> int (ex_cycle_index (after_advances k x)) \<longleftrightarrow>
      length (sch_steps (ex_schedule x)) * nat (sch_repeat (ex_schedule x)) \<le> k)"
proof -
  let ?n = "length (sch_steps (ex_schedule x))"
  have ne: "sch_steps (ex_schedule x) \<noteq> []" and r: "1 \<le> sch_repeat (ex_schedule x)"
    using assms(3) by (auto simp: schedule_ok_def)
  note p = after_advances_position [OF assms(1,2) ne, of k]
  then have c: "ex_cycle_index (after_advances k x) = k div ?n" by (simp add: exp_pos_def)
  have "nat (sch_repeat (ex_schedule x)) \<le> k div ?n \<longleftrightarrow> nat (sch_repeat (ex_schedule x)) * ?n \<le> k"
    using ne by (simp add: less_eq_div_iff_mult_less_eq)
  moreover have "nat (sch_repeat (ex_schedule x)) \<le> k div ?n \<longleftrightarrow> sch_repeat (ex_schedule x) \<le> int (k div ?n)"
    by linarith
  ultimately show ?thesis using p c by (simp add: mult.commute)
qed

definition demo_schedule :: schedule where
  "demo_schedule = \<lparr>schedule_id = ''demo'', sch_chemistry = ''NMC'', sch_chassis = [1], sch_channels_per_chassis = 1,
     sch_setpoint_c = 25, sch_soak_seconds = 0,
     sch_steps = [CCStep ''cc_charge'' 1 \<lparr>voltage_v_above = Some 4.2, voltage_v_below = None,
         current_a_below_c_rate = None, max_duration_s = None\<rparr>, RestStep ''rest'' 60],
     sch_repeat = 2\<rparr>"

definition demo_exp :: experiment_obj where
  "demo_exp = \<lparr>ex_id = ''e1'', ex_chassis_id = 1, ex_channel_idx = 0, ex_schedule = demo_schedule,
     ex_git_sha = ''abc'', ex_cycle_index = 0, ex_step_index = 0, ex_step_started_sim_s = 0,
     ex_status = Running, ex_resume_drift_count = 0\<rparr>"

lemma demo_schedule_ok: "schedule_ok demo_schedule"
  by (simp add: schedule_ok_def demo_schedule_def MAX_CHASSIS_def MAX_CHANNELS_PER_CHASSIS_def)

lemma schedule_walked_in_order_witness:
  "exp_pos (after_advances 3 demo_exp) = (1, 1) \<and> 2 \<le> int (ex_cycle_index (after_advances 4 demo_exp))"
proof -
  have s: "ex_schedule demo_exp = demo_schedule" "length (sch_steps demo_schedule) = 2" "sch_repeat demo_schedule = 2"
    by (simp_all add: demo_exp_def demo_schedule_def)
  show ?thesis
    using schedule_walked_in_order [of demo_exp 3] schedule_walked_in_order [of demo_exp 4] demo_schedule_ok
    by (simp add: s) (simp add: demo_exp_def)
qed

subsection \<open>Crash consistency\<close>

text \<open>
  C7. Whatever happens during a tick (statements rejected, committed with the answer lost, Modbus
  errors, or the end of the process at any point), if the journal was in step with the
  experiment before, then a restarted orchestrator resumes at the old position or at the next
  one, never anywhere else; and a tick that returns leaves the journal in step with the object,
  unless the experiment has ended.
\<close>

theorem tick_crash_consistent:
  assumes "journal_at x (w_step_rows w)" "w_exp w = x" "step_one_tick P w = (r, w')"
  shows "resume_position (ex_schedule x) (ex_id x) (w_step_rows w') \<in> {exp_pos x, exp_pos (next_position x)} \<and>
    (\<forall>u. r = Inr u \<longrightarrow> ex_status (w_exp w') \<in> {Completed, Failed} \<or> journal_at (w_exp w') (w_step_rows w'))"
proof -
  let ?rows = "w_step_rows w"
  define G where "G rs \<longleftrightarrow> resume_position (ex_schedule x) (ex_id x) rs \<in> {exp_pos x, exp_pos (next_position x)}" for rs
  have g: "G ?rows" "\<And>t. G (complete_step_row x t ?rows)"
    using assms(1) journal_position journal_completed_position by (auto simp: G_def)
  have n: "journal_at (next_position x) (add_step_row (next_position x) nm t (complete_step_row x t' ?rows))" for nm t t'
    using assms(1) by (rule journal_next)
  then have ga: "G (add_step_row (next_position x) nm t (complete_step_row x t' ?rows))" for nm t t'
    using journal_position [OF n] by (simp add: G_def)
  have same: "journal_at y rs \<longleftrightarrow> journal_at z rs" if "ex_id y = ex_id z" "exp_pos y = exp_pos z" for y z rs
    using that by (auto simp: journal_at_def same_key_def exp_pos_def)
  note tr = tick_rows [of G ?rows x P, OF g ga]
  have "G (w_step_rows w')" if "r = Inl e" for e
    using triple_Inl [OF tr _ assms(3) [unfolded that]] assms(2) by simp
  moreover have "G (w_step_rows w') \<and>
      (ex_status (w_exp w') \<in> {Completed, Failed} \<or> journal_at (w_exp w') (w_step_rows w'))" if "r = Inr u" for u
    using triple_Inr [OF tr _ assms(3) [unfolded that]] assms(2)
  proof (elim disjE meta_impE exE)
    fix nm t t' assume a: "at_journal (add_step_row (next_position x) nm t (complete_step_row x t' ?rows))
        (ex_id x) (exp_pos (next_position x)) w'"
    then have "journal_at (w_exp w') (w_step_rows w')"
      using n [of nm t t'] same [of "w_exp w'" "next_position x"] by (simp add: at_journal_def)
    with ga a show ?thesis by (simp add: at_journal_def)
  qed (use g assms(1) in auto)
  ultimately show ?thesis by (cases r) (auto simp: G_def)
qed

text \<open>A world with one experiment in its first step, and a connection that always answers \<open>regs\<close>.\<close>

definition demo_world :: "fault list \<Rightarrow> (int \<rightharpoonup> 'c) \<Rightarrow> 'c world" where
  "demo_world faults ports = \<lparr>w_schedules = Map.empty,
     w_experiment_rows = [\<lparr>er_id = ''e1'', er_chassis_id = 1, er_channel_idx = 0, er_schedule_id = ''demo'',
        er_git_sha = ''abc'', er_status = Running, er_finished_at = None\<rparr>],
     w_step_rows = [\<lparr>sr_experiment_id = ''e1'', sr_cycle_index = 0, sr_step_index = 0, sr_step_name = ''cc_charge'',
        sr_state = StepRunning, sr_started_at = 0, sr_ended_at = None\<rparr>],
     w_alerts = [], w_faults = faults, w_ports = ports, w_context_queue = [], w_event_queue = [],
     w_sim_clock = real, w_wall_clock = real, w_reads = 0, w_alerted = {}, w_experiments = [demo_exp],
     w_exp = demo_exp\<rparr>"

definition constant_port :: "int list \<Rightarrow> unit modbus_port" where
  "constant_port regs = \<lparr>mb_read = (\<lambda>a n c. (Inr (Some regs), c)), mb_write = (\<lambda>a vs c. (Inr (), c))\<rparr>"

lemma demo_journal: "journal_at demo_exp (w_step_rows (demo_world fs ps))"
  by (simp add: journal_at_def demo_world_def demo_exp_def same_key_def)

lemma tick_crash_consistent_witness:
  "resume_position demo_schedule ''e1'' (w_step_rows (snd (step_one_tick (constant_port ((replicate 50 0)[10 := 4300]))
      (demo_world [Commit, Reject Killed] [1 \<mapsto> ()])))) \<in> {(0, 0), (0, 1)}"
proof -
  have p: "exp_pos demo_exp = (0, 0)" "exp_pos (next_position demo_exp) = (0, 1)" "ex_schedule demo_exp = demo_schedule"
    "ex_id demo_exp = ''e1''"
    by (simp_all add: exp_pos_def demo_exp_def next_position_def at_last_step_def demo_schedule_def)
  let ?w = "demo_world [Commit, Reject Killed] [1 \<mapsto> ()]" and ?P = "constant_port ((replicate 50 0)[10 := 4300])"
  have e: "w_exp ?w = demo_exp" by (simp add: demo_world_def)
  show ?thesis
    using tick_crash_consistent [OF demo_journal e, of ?P "fst (step_one_tick ?P ?w)" "snd (step_one_tick ?P ?w)"]
    by (simp only: p prod.collapse)
qed

subsection \<open>What a tick does to the channel\<close>

text \<open>
  C23. A tick that finds the channel latched only looks: it sends the chassis nothing beyond the
  read, marks the experiment failed in memory and in the database, closes its running step
  and clears the retained context of the channel.
\<close>

theorem latched_channel_fails_experiment:
  assumes "w_exp w = x" "w_faults w = []" "w_ports w (ex_chassis_id x) = Some c"
    and "read_channel P (ex_channel_idx x) c = (Inr snap, c')" "sn_last_error snap \<noteq> NONE"
  shows "\<exists>w' t. step_one_tick P w = (Inr (), w') \<and> w_ports w' = (w_ports w)(ex_chassis_id x \<mapsto> c') \<and>
    ex_status (w_exp w') = Failed \<and>
    w_step_rows w' = complete_step_row x t (w_step_rows w) \<and>
    (\<forall>r \<in> set (w_experiment_rows w'). er_id r = ex_id x \<longrightarrow> er_status r = Failed \<and> er_finished_at r \<noteq> None) \<and>
    w_context_queue w' = put_nowait (CtxClear (ex_chassis_id x) (ex_channel_idx x)) (w_context_queue w) \<and>
    w_event_queue w' = w_event_queue w"
  using assms
  by (auto simp: step_one_tick_def fail_on_latch_def mark_step_completed_def mark_experiment_status_def
      clear_context_def upd_exp_def bind_act_def seq_act_def get_act_def mod_act_def on_port_def now_utc_def
      db_execute_def set_status_def)

lemma latched_channel_fails_experiment_witness:
  "\<exists>w'. step_one_tick (constant_port ((replicate 50 0)[40 := 3])) (demo_world [] [1 \<mapsto> ()]) = (Inr (), w') \<and>
    ex_status (w_exp w') = Failed"
proof -
  let ?P = "constant_port ((replicate 50 0)[40 := 3])"
  have r: "read_channel ?P (ex_channel_idx demo_exp) () = (Inr (decode_snapshot ((replicate 50 0)[40 := 3])), ())"
    by (simp add: read_channel_def constant_port_def bind_act_def ret_def)
  have e: "sn_last_error (decode_snapshot ((replicate 50 0)[40 := 3])) \<noteq> NONE"
    by (simp add: decode_snapshot_def error_code_of_int_def all_error_codes_def)
  show ?thesis
    using latched_channel_fails_experiment [OF _ _ _ r e, of "demo_world [] [1 \<mapsto> ()]"]
    by (auto simp: demo_world_def demo_exp_def)
qed

end
