(* ===== verification/Orch_Props.thy ===== *)
theory Orch_Props
  imports Cycler_Props Executor
begin

section \<open>The orchestrator driving a chassis\<close>

text \<open>The executor on top of the Modbus client on top of the chassis model.\<close>

text \<open>
  C11. A tick in the middle of a step, over a working connection to a chassis whose channel is not
  latched, re-issues the command of the current step and kicks the channel: afterwards the
  channel runs that step's mode and setpoint with its dead man freshly kicked, no other
  channel has changed, and neither database nor queues have been touched.
\<close>

theorem tick_drives_channel:
  assumes "modbus_link P R has dev" "w_exp w = x" "w_ports w (ex_chassis_id x) = Some c" "sys_ok has (dev c)"
    and "ex_channel_idx x < length (sys_channels (dev c))"
    and "ch_latched_error (sys_channels (dev c) ! ex_channel_idx x) = NONE"
    and "read_channel P (ex_channel_idx x) c = (Inr snap, c0)" "sn_last_error snap = NONE"
    and "get_chemistry (sch_chemistry (ex_schedule x)) = Inr chem"
    and "ex_step_index x < length (sch_steps (ex_schedule x))"
    and "\<not> end_condition_met (sch_steps (ex_schedule x) ! ex_step_index x) (sn_voltage_v snap) (sn_current_a snap)
        (w_sim_clock w (w_reads w) - ex_step_started_sim_s x) (capacity_ah_nominal chem)"
    and "step_to_command (sch_steps (ex_schedule x) ! ex_step_index x) (capacity_ah_nominal chem)
        (Some (max_charge_c_rate chem)) = (mode, sp)" "\<bar>sp\<bar> < 2 powi 127"
  shows "\<exists>w' c' ch. step_one_tick P w = (Inr (), w') \<and> w_ports w' = (w_ports w)(ex_chassis_id x \<mapsto> c') \<and>
    sys_channels (dev c') = (sys_channels (dev c))[ex_channel_idx x := ch] \<and>
    ch_mode ch = mode \<and> \<bar>ch_setpoint ch - f32_trip sp\<bar> \<le> 0.000000001 \<and>
    ch_last_kick_wall_s ch = sys_now (dev c) \<and> ch_latched_error ch = NONE \<and>
    w_step_rows w' = w_step_rows w \<and> w_experiment_rows w' = w_experiment_rows w \<and>
    w_context_queue w' = w_context_queue w \<and> w_exp w' = x"
proof -
  let ?i = "ex_channel_idx x" and ?ch = "sys_channels (dev c) ! ex_channel_idx x"
  have c0: "dev c0 = dev c" using modbus_link.read_channel_regs [OF assms(1,4,5)] assms(7) by auto
  obtain hi lo where e: "encode_f32 sp = Inr (hi, lo)" using encode_f32_small [OF assms(13)] by blast
  from modbus_link.send_command_run [OF assms(1) _ _ e, of c0 ?i mode 4500 600] assms(4,5)
  obtain c1 n m0 v0 t0 where c1: "send_command P ?i mode sp 4500 600 c0 = (Inr (), c1)" "sys_ok has (dev c1)"
    "sys_now (dev c1) = sys_now (dev c)"
    "sys_channels (dev c1) = (sys_channels (dev c))[?i := after_command n m0 v0 t0 mode (f32_trip sp) 4500 600 ?ch]"
    unfolding c0 by blast
  let ?ch1 = "after_command n m0 v0 t0 mode (f32_trip sp) 4500 600 ?ch"
  from modbus_link.kick_channel_run [OF assms(1) c1(2), of ?i] c1(4) assms(5)
  obtain c2 where c2: "kick_channel P ?i c1 = (Inr (), c2)"
    "sys_channels (dev c2) = (sys_channels (dev c))[?i := kick_watchdog (sys_now (dev c)) ?ch1]"
    by (auto simp: c1(3))
  have "ch_mode ?ch1 = mode" "\<bar>ch_setpoint ?ch1 - f32_trip sp\<bar> \<le> 0.000000001"
    using after_command_accepts [of ?ch mode] assms(6) by simp_all
  then have chans: "ch_mode (kick_watchdog (sys_now (dev c)) ?ch1) = mode"
    "\<bar>ch_setpoint (kick_watchdog (sys_now (dev c)) ?ch1) - f32_trip sp\<bar> \<le> 0.000000001"
    "ch_last_kick_wall_s (kick_watchdog (sys_now (dev c)) ?ch1) = sys_now (dev c)"
    "ch_latched_error (kick_watchdog (sys_now (dev c)) ?ch1) = NONE"
    using assms(6) by simp_all
  have "step_one_tick P w = (Inr (), w\<lparr>w_reads := Suc (w_reads w),
      w_ports := (w_ports w)(ex_chassis_id x \<mapsto> c2)\<rparr>)"
    using assms(2,3,7-12) c1(1) c2(1)
    by (simp add: step_one_tick_def command_step_def send_command_default_def nth_or_raise_def bind_act_def
        seq_act_def get_act_def lift_sum_def on_port_def now_sim_def)
  with chans c2(2) assms(2) show ?thesis
    by (intro exI [of _ "w\<lparr>w_reads := Suc (w_reads w), w_ports := (w_ports w)(ex_chassis_id x \<mapsto> c2)\<rparr>"]
        exI [of _ c2] exI [of _ "kick_watchdog (sys_now (dev c)) ?ch1"]) simp
qed

lemma mirrored_channel:
  "\<exists>(s :: (nat \<Rightarrow> int option) chassis_sys) snap s'. sys_ok has_dict s \<and> length (sys_channels s) = 1 \<and>
    ch_latched_error (sys_channels s ! 0) = NONE \<and>
    read_channel (direct_port dict_ops) 0 s = (Inr snap, s') \<and> sn_last_error snap = NONE"
proof -
  obtain s :: "(nat \<Rightarrow> int option) chassis_sys" where s: "sys_ok has_dict s" "length (sys_channels s) = 1"
    "ch_latched_error (sys_channels s ! 0) = NONE" using charging by blast
  obtain cb where cb: "mirror_tick lin_interp dict_ops (sys_block s) = Inr cb" "sys_ok has_dict (s\<lparr>sys_block := cb\<rparr>)"
    "cb_channels cb = sys_channels s"
    using mirror_tick_ok [OF dict.sparse_block_axioms, of "sys_block s" lin_interp] s(1) by (auto simp: sys_ok_def)
  from direct.read_after_mirror [OF s(1) _ cb(1) refl, of 0] s(2) obtain s' st where
    "read_channel (direct_port dict_ops) 0 (s\<lparr>sys_block := cb\<rparr>) = (Inr (snapshot_of (sys_channels s ! 0) st), s')"
    by auto
  with s(2,3) cb show ?thesis by (auto simp: snapshot_of_def)
qed

lemma tick_drives_channel_witness:
  "\<exists>(s :: (nat \<Rightarrow> int option) chassis_sys) w' s' ch.
    step_one_tick (direct_port dict_ops) ((demo_world [] [1 \<mapsto> s])\<lparr>w_exp := demo_exp\<lparr>ex_step_index := 1\<rparr>\<rparr>) = (Inr (), w') \<and>
    w_ports w' 1 = Some s' \<and> sys_channels s' = [ch] \<and> ch_mode ch = Rest"
proof -
  obtain s :: "(nat \<Rightarrow> int option) chassis_sys" and snap s0 where s: "sys_ok has_dict s" "length (sys_channels s) = 1"
    "ch_latched_error (sys_channels s ! 0) = NONE"
    "read_channel (direct_port dict_ops) 0 s = (Inr snap, s0)" "sn_last_error snap = NONE"
    using mirrored_channel by blast
  let ?x = "demo_exp\<lparr>ex_step_index := 1\<rparr>" and ?w = "(demo_world [] [1 \<mapsto> s])\<lparr>w_exp := demo_exp\<lparr>ex_step_index := 1\<rparr>\<rparr>"
  have x: "ex_chassis_id ?x = 1" "ex_channel_idx ?x = 0" "ex_step_index ?x = 1" "ex_step_started_sim_s ?x = 0"
    "ex_schedule ?x = demo_schedule" "sch_chemistry demo_schedule = ''NMC''" "length (sch_steps demo_schedule) = 2"
    "sch_steps demo_schedule ! 1 = RestStep ''rest'' 60"
    by (simp_all add: demo_exp_def demo_schedule_def)
  have w: "w_exp ?w = ?x" "w_ports ?w (ex_chassis_id ?x) = Some s" "w_sim_clock ?w (w_reads ?w) = 0"
    by (simp_all add: demo_world_def demo_exp_def)
  have chem: "get_chemistry ''NMC'' = Inr chem_NMC" by (simp add: get_chemistry_def CHEMISTRIES_def)
  from tick_drives_channel [OF direct.modbus_link_axioms w(1,2) s(1), of snap s0 chem_NMC Rest 0]
  obtain w' s' ch where "step_one_tick (direct_port dict_ops) ?w = (Inr (), w')" "w_ports w' = (w_ports ?w)(1 \<mapsto> s')"
    "sys_channels s' = (sys_channels s)[0 := ch]" "ch_mode ch = Rest"
    unfolding x w(3) using s chem by auto
  moreover obtain a where "sys_channels s = [a]" using s(2) by (auto simp: length_Suc_conv)
  ultimately show ?thesis
    by (intro exI [of _ s] exI [of _ w'] exI [of _ s'] exI [of _ ch]) simp
qed

end
