(* ===== verification/Orch_Main.thy ===== *)
theory Orch_Main
  imports Executor
begin

section \<open>The orchestrator process\<close>

text \<open>
  \<open>orchestrator/main.py\<close>, \<open>heartbeat.py\<close>, \<open>channel_keepalive.py\<close>: boot, resume, the executor loop and
  the two kick loops. The sweeps over the chassis run concurrently in the source
  (\<open>asyncio.gather\<close>); here they run one after another in the order of the dict, which is one of
  the schedules the event loop may choose. An exception inside one chassis is collected and
  logged, so it ends that chassis's part of the sweep only; the end of the process ends all.

  \<open>parse\<close> stands for \<open>yaml.safe_load\<close> followed by \<open>Schedule.model_validate\<close> on the stored body.
\<close>

fun parse_host_tokens :: "string list \<Rightarrow> exn + (string \<times> int) list" where
  "parse_host_tokens [] = Inr []"
| "parse_host_tokens (t # ts) =
     (let token = strip t in
      if token = [] then parse_host_tokens ts
      else (let (host, port) = partition_at CHR '':'' token in
        bind_sum (if port = [] then Inr 502 else parse_int port) (\<lambda>p.
          bind_sum (parse_host_tokens ts) (\<lambda>out. Inr ((host, p) # out)))))"

definition parse_cycler_hosts :: "string \<Rightarrow> exn + (string \<times> int) list" where
  "parse_cycler_hosts env_value = parse_host_tokens (split_on CHR '','' env_value)"

subsection \<open>Fan-out per chassis\<close>

fun group_add :: "'k \<Rightarrow> 'a \<Rightarrow> ('k \<times> 'a list) list \<Rightarrow> ('k \<times> 'a list) list" where
  "group_add k x [] = [(k, [x])]"
| "group_add k x ((j, ys) # g) = (if j = k then (j, ys @ [x]) # g else (j, ys) # group_add k x g)"

definition group_by_key :: "('a \<Rightarrow> 'k) \<Rightarrow> 'a list \<Rightarrow> ('k \<times> 'a list) list" where
  "group_by_key key xs = foldl (\<lambda>g x. group_add (key x) x g) [] xs"

definition gather_chassis :: "('k \<Rightarrow> 'a list \<Rightarrow> ('s, unit) act) \<Rightarrow> ('k \<times> 'a list) list \<Rightarrow> ('s, unit) act" where
  "gather_chassis f groups = for_act (\<lambda>(k, xs). catch_act (f k xs) any_exception (\<lambda>_. ret ())) groups"

text \<open>The live dict of experiments, by id, in insertion order.\<close>

fun dict_put :: "experiment_obj \<Rightarrow> experiment_obj list \<Rightarrow> experiment_obj list" where
  "dict_put x [] = [x]"
| "dict_put x (y # ys) = (if ex_id y = ex_id x then x # ys else y # dict_put x ys)"

definition known_ids :: "'c world \<Rightarrow> string set" where
  "known_ids w = set (map ex_id (w_experiments w))"

definition add_experiment :: "('c world, unit) act" where
  "add_experiment = mod_act (\<lambda>w. w\<lparr>w_experiments := dict_put (w_exp w) (w_experiments w)\<rparr>)"

text \<open>Run a coroutine on the object of the dict with a given id; what it changed stays changed.\<close>

definition with_experiment :: "string \<Rightarrow> ('c world, 'a) act \<Rightarrow> ('c world, 'a option) act" where
  "with_experiment i m w =
     (case find (\<lambda>x. ex_id x = i) (w_experiments w) of
        None \<Rightarrow> (Inr None, w)
      | Some x \<Rightarrow> (let (r, w') = m (w\<lparr>w_exp := x\<rparr>)
                 in (map_sum (\<lambda>e. e) Some r, w'\<lparr>w_experiments := dict_put (w_exp w') (w_experiments w')\<rparr>)))"

subsection \<open>From database rows to experiments\<close>

definition load_schedule_from_db :: "(string \<Rightarrow> exn + schedule) \<Rightarrow> string \<Rightarrow> ('c world, schedule \<times> string) act" where
  "load_schedule_from_db parse sid =
     bind_act (db_fetch (\<lambda>w. w_schedules w sid)) (\<lambda>row.
       case row of
         None \<Rightarrow> raise ScheduleErr
       | Some (body_yaml, sha) \<Rightarrow> bind_act (lift_sum (parse body_yaml)) (\<lambda>sched. ret (sched, sha)))"

definition load_running_or_pending :: "('c world, experiment_row list) act" where
  "load_running_or_pending = db_fetch (\<lambda>w. filter (\<lambda>r. er_status r \<in> {Pending, Running}) (w_experiment_rows w))"

definition poll_pending :: "('c world, experiment_row list) act" where
  "poll_pending = db_fetch (\<lambda>w. filter (\<lambda>r. er_id r \<notin> known_ids w)
     (filter (\<lambda>r. er_status r = Pending) (w_experiment_rows w)))"

definition make_experiment :: "experiment_row \<Rightarrow> schedule \<Rightarrow> nat \<Rightarrow> nat \<Rightarrow> experiment_obj" where
  "make_experiment r sched c s =
     \<lparr>ex_id = er_id r, ex_chassis_id = er_chassis_id r, ex_channel_idx = er_channel_idx r, ex_schedule = sched,
       ex_git_sha = er_git_sha r, ex_cycle_index = c, ex_step_index = s, ex_step_started_sim_s = 0,
       ex_status = er_status r, ex_resume_drift_count = 0\<rparr>"

definition build_experiment :: "(string \<Rightarrow> exn + schedule) \<Rightarrow> experiment_row \<Rightarrow> ('c world, experiment_obj option) act" where
  "build_experiment parse r =
     bind_act (catch_act (bind_act (load_schedule_from_db parse (er_schedule_id r)) (\<lambda>p. ret (Some (fst p))))
         (\<lambda>e. e = ScheduleErr) (\<lambda>_. seq_act (mark_experiment_status (er_id r) Failed) (ret None)))
       (\<lambda>loaded. case loaded of
          None \<Rightarrow> ret None
        | Some sched \<Rightarrow>
            if er_status r = Running then
              bind_act (load_resume_state sched (er_id r)) (\<lambda>(cycle_idx, step_idx).
                if sch_repeat sched \<le> int cycle_idx
                then seq_act (mark_experiment_status (er_id r) Completed) (ret None)
                else ret (Some (make_experiment r sched cycle_idx step_idx)))
            else ret (Some (make_experiment r sched 0 0)))"

definition check_chassis_reachable :: "string \<Rightarrow> int \<Rightarrow> nat \<Rightarrow> ('c world, bool) act" where
  "check_chassis_reachable exp_id chassis_id channel_idx =
     bind_act (get_act (\<lambda>w. w_ports w chassis_id \<noteq> None)) (\<lambda>known.
       if known then ret True
       else seq_act (mark_experiment_status exp_id Failed)
         (bind_act (get_act (\<lambda>w. chassis_id \<in> w_alerted w)) (\<lambda>alerted.
           seq_act (when_act (\<not> alerted)
             (seq_act (mod_act (\<lambda>w. w\<lparr>w_alerted := insert chassis_id (w_alerted w)\<rparr>))
               (emit_critical_alert ''orchestrator'' ''unreachable_chassis_in_pending_experiment''
                 (Some chassis_id) (Some (int channel_idx)))))
             (ret False))))"

subsection \<open>The executor loop\<close>

definition kickoff_record :: "'c modbus_port \<Rightarrow> (string \<Rightarrow> exn + schedule) \<Rightarrow> experiment_row \<Rightarrow> ('c world, unit) act" where
  "kickoff_record P parse r =
     bind_act (check_chassis_reachable (er_id r) (er_chassis_id r) (er_channel_idx r)) (\<lambda>ok.
       if \<not> ok then ret ()
       else bind_act (build_experiment parse r) (\<lambda>built.
         case built of
           None \<Rightarrow> ret ()
         | Some x \<Rightarrow>
             seq_act (upd_exp (\<lambda>_. x))
               (bind_act (catch_act (seq_act (kickoff P) (ret True)) (\<lambda>e. e = OSErr) (\<lambda>_. ret False))
                 (\<lambda>started. when_act started add_experiment))))"

definition kickoff_pending ::
  "'c modbus_port \<Rightarrow> (string \<Rightarrow> exn + schedule) \<Rightarrow> experiment_row list \<Rightarrow> ('c world, unit) act" where
  "kickoff_pending P parse recs =
     gather_chassis (\<lambda>_. for_act (kickoff_record P parse)) (group_by_key er_chassis_id recs)"

definition tick_experiment :: "'c modbus_port \<Rightarrow> experiment_obj \<Rightarrow> ('c world, unit) act" where
  "tick_experiment P x =
     catch_act (bind_act (with_experiment (ex_id x) (step_one_tick P)) (\<lambda>_. ret ())) (\<lambda>e. e = OSErr) (\<lambda>_. ret ())"

definition running_on_bench :: "'c world \<Rightarrow> experiment_obj list" where
  "running_on_bench w =
     filter (\<lambda>x. ex_status x = Running \<and> w_ports w (ex_chassis_id x) \<noteq> None) (w_experiments w)"

definition tick_running :: "'c modbus_port \<Rightarrow> ('c world, unit) act" where
  "tick_running P = bind_act (get_act running_on_bench) (\<lambda>xs.
     gather_chassis (\<lambda>_. for_act (tick_experiment P)) (group_by_key ex_chassis_id xs))"

definition reap :: "('c world, unit) act" where
  "reap = mod_act (\<lambda>w. w\<lparr>w_experiments :=
     filter (\<lambda>x. ex_status x \<notin> {Completed, Failed}) (w_experiments w)\<rparr>)"

definition executor_iteration :: "'c modbus_port \<Rightarrow> (string \<Rightarrow> exn + schedule) \<Rightarrow> ('c world, unit) act" where
  "executor_iteration P parse =
     bind_act poll_pending (\<lambda>recs.
       seq_act (kickoff_pending P parse recs) (seq_act (tick_running P) reap))"

subsection \<open>Resume\<close>

definition handle_resume_drift :: "'c modbus_port \<Rightarrow> experiment_obj \<Rightarrow> channel_mode \<Rightarrow> real \<Rightarrow> ('c world, unit) act" where
  "handle_resume_drift P x expected_mode expected_setpoint =
     seq_act (upd_exp (\<lambda>x. x\<lparr>ex_resume_drift_count := Suc (ex_resume_drift_count x)\<rparr>))
     (bind_act (get_act (\<lambda>w. ex_resume_drift_count (w_exp w))) (\<lambda>n.
        if 2 \<le> n then
          seq_act (mark_experiment_status (ex_id x) Failed)
          (seq_act (emit_critical_alert ''orchestrator'' ''mode_drift_persistent''
              (Some (ex_chassis_id x)) (Some (int (ex_channel_idx x))))
            (upd_exp (\<lambda>x. x\<lparr>ex_status := Failed\<rparr>)))
        else
          catch_act
            (seq_act (on_port (ex_chassis_id x) (send_command_default P (ex_channel_idx x) expected_mode expected_setpoint))
              (on_port (ex_chassis_id x) (kick_channel P (ex_channel_idx x))))
            (\<lambda>e. e = OSErr)
            (\<lambda>_. seq_act (mark_experiment_status (ex_id x) Failed) (upd_exp (\<lambda>x. x\<lparr>ex_status := Failed\<rparr>)))))"

text \<open>What follows the mode check: restart the step timer, journal the step, publish its context.\<close>

definition resume_step :: "experiment_obj \<Rightarrow> ('c world, bool) act" where
  "resume_step x =
     seq_act (bind_act now_sim (\<lambda>t. upd_exp (\<lambda>x. x\<lparr>ex_step_started_sim_s := t\<rparr>)))
     (seq_act (insert_step_row x)
     (bind_act (lift_sum (nth_or_raise (sch_steps (ex_schedule x)) (ex_step_index x))) (\<lambda>step.
       seq_act (publish_context x (step_name step)) (ret True))))"

definition resume_experiment :: "'c modbus_port \<Rightarrow> experiment_obj \<Rightarrow> ('c world, bool) act" where
  "resume_experiment P x =
     seq_act (upd_exp (\<lambda>_. x))
     (bind_act (catch_act (bind_act (on_port (ex_chassis_id x) (read_channel P (ex_channel_idx x))) (\<lambda>s. ret (Some s)))
         (\<lambda>e. e = OSErr) (\<lambda>_. ret None)) (\<lambda>got.
        case got of
          None \<Rightarrow> ret False
        | Some snap \<Rightarrow>
            if sn_last_error snap \<noteq> NONE then seq_act (mark_experiment_status (ex_id x) Failed) (ret False)
            else
              bind_act (lift_sum (get_chemistry (sch_chemistry (ex_schedule x)))) (\<lambda>chem.
              bind_act (lift_sum (nth_or_raise (sch_steps (ex_schedule x)) (ex_step_index x))) (\<lambda>step.
                let (expected_mode, expected_setpoint) =
                      step_to_command step (capacity_ah_nominal chem) (Some (max_charge_c_rate chem))
                in seq_act (when_act (sn_mode snap \<noteq> expected_mode)
                     (handle_resume_drift P x expected_mode expected_setpoint))
                   (bind_act (get_act (\<lambda>w. ex_status (w_exp w))) (\<lambda>st.
                      if sn_mode snap \<noteq> expected_mode \<and> st = Failed then ret False
                      else resume_step x))))))"

definition resume_record ::
  "'c modbus_port \<Rightarrow> (string \<Rightarrow> exn + schedule) \<Rightarrow> experiment_row \<Rightarrow> ('c world, experiment_obj option) act" where
  "resume_record P parse r =
     bind_act (check_chassis_reachable (er_id r) (er_chassis_id r) (er_channel_idx r)) (\<lambda>ok.
       if \<not> ok then ret None
       else bind_act (build_experiment parse r) (\<lambda>built.
         case built of
           None \<Rightarrow> ret None
         | Some x \<Rightarrow> bind_act (resume_experiment P x) (\<lambda>live.
             if live then get_act (\<lambda>w. Some (w_exp w)) else ret None)))"

text \<open>The private dict of one chassis: it is lost when a record of the chassis raises.\<close>

fun resume_records ::
  "'c modbus_port \<Rightarrow> (string \<Rightarrow> exn + schedule) \<Rightarrow> experiment_row list \<Rightarrow> experiment_obj list \<Rightarrow>
    ('c world, experiment_obj list) act" where
  "resume_records P parse [] local = ret local"
| "resume_records P parse (r # rs) local =
     bind_act (resume_record P parse r) (\<lambda>x.
       resume_records P parse rs (case x of None \<Rightarrow> local | Some x \<Rightarrow> dict_put x local))"

definition resume_inflight :: "'c modbus_port \<Rightarrow> (string \<Rightarrow> exn + schedule) \<Rightarrow> ('c world, unit) act" where
  "resume_inflight P parse =
     bind_act load_running_or_pending (\<lambda>recs.
       gather_chassis
         (\<lambda>_ rs. bind_act (resume_records P parse rs []) (\<lambda>local.
            mod_act (\<lambda>w. w\<lparr>w_experiments := foldl (\<lambda>out x. dict_put x out) (w_experiments w) local\<rparr>)))
         (group_by_key er_chassis_id (filter (\<lambda>r. er_status r = Running) recs)))"

subsection \<open>The kicks\<close>

definition kick_or_log :: "'c modbus_port \<Rightarrow> int \<Rightarrow> ('c world, unit) act" where
  "kick_or_log P cid = catch_act (on_port cid (kick_chassis P)) (\<lambda>e. e = OSErr) (\<lambda>_. ret ())"

definition initial_kicks :: "'c modbus_port \<Rightarrow> int list \<Rightarrow> ('c world, unit) act" where
  "initial_kicks P cids = for_act (kick_or_log P) cids"

text \<open>
  One turn of \<open>heartbeat_loop\<close>: without a broker session it only tries to connect; with one it
  kicks every chassis and publishes. \<open>up\<close> is the broker's answer.
\<close>

datatype hb_session = NoSession | InSession

definition heartbeat_step :: "'c modbus_port \<Rightarrow> int list \<Rightarrow> bool \<Rightarrow> hb_session \<Rightarrow> ('c world, hb_session) act" where
  "heartbeat_step P cids up s =
     (case s of
        NoSession \<Rightarrow> ret (if up then InSession else NoSession)
      | InSession \<Rightarrow> seq_act (for_act (kick_or_log P) cids) (ret (if up then InSession else NoSession)))"

definition kick_chassis_channels :: "'c modbus_port \<Rightarrow> int \<Rightarrow> nat list \<Rightarrow> ('c world, unit) act" where
  "kick_chassis_channels P cid idxs =
     for_act (\<lambda>i. catch_act (on_port cid (kick_channel P i)) (\<lambda>e. e = OSErr) (\<lambda>_. ret ())) idxs"

definition channel_keepalive_pass :: "'c modbus_port \<Rightarrow> ('c world, unit) act" where
  "channel_keepalive_pass P = bind_act (get_act running_on_bench) (\<lambda>xs.
     gather_chassis (\<lambda>cid ys. kick_chassis_channels P cid (map ex_channel_idx ys)) (group_by_key ex_chassis_id xs))"

text \<open>The boot order: arm the chassis dead men, resume, then the loops.\<close>

definition orchestrator_boot :: "'c modbus_port \<Rightarrow> (string \<Rightarrow> exn + schedule) \<Rightarrow> int list \<Rightarrow> ('c world, unit) act" where
  "orchestrator_boot P parse cids =
     seq_act (mod_act (\<lambda>w. w\<lparr>w_alerted := {}, w_experiments := []\<rparr>))
       (seq_act (initial_kicks P cids) (resume_inflight P parse))"

end
