(* ===== verification/Orch_Life.thy ===== *)
theory Orch_Life
  imports Orch_Main
begin

section \<open>The life of an experiment\<close>

text \<open>
  The abstract specification of the orchestrator is a small automaton per experiment row:
  pending, then running, then completed or failed. This theory shows that the whole process
  (boot, resume, executor loop, kicks, restarts after a crash at any point, any database and
  Modbus failure) refines it.
\<close>

inductive life_step :: "status \<Rightarrow> status \<Rightarrow> bool" where
  start: "life_step Pending Running"
| reject: "life_step Pending Failed"
| complete: "life_step Running Completed"
| fail: "life_step Running Failed"

inductive_simps life_step_simps [simp]:
  "life_step Pending s" "life_step Running s" "life_step Completed s" "life_step Failed s"

abbreviation life :: "status \<Rightarrow> status \<Rightarrow> bool" where
  "life \<equiv> life_step\<^sup>*\<^sup>*"

lemma life_intros [simp]:
  "life s s" "life Pending s" "life Running Completed" "life Running Failed"
proof -
  show "life Pending s"
    using rtranclp.rtrancl_into_rtrancl [of life_step, OF r_into_rtranclp [of life_step, OF start] complete] start reject
    by (cases s) (auto intro: r_into_rtranclp)
qed (auto intro: r_into_rtranclp)

lemma life_terminal: "life s t \<Longrightarrow> s \<in> {Completed, Failed} \<Longrightarrow> t = s"
  by (induction rule: rtranclp_induct) auto

text \<open>Two snapshots of the experiments table: the same rows, each further along its life.\<close>

definition row_follows :: "experiment_row \<Rightarrow> experiment_row \<Rightarrow> bool" where
  "row_follows r r' \<longleftrightarrow> (\<exists>st f. r' = r\<lparr>er_status := st, er_finished_at := f\<rparr> \<and> life (er_status r) st)"

abbreviation follows :: "experiment_row list \<Rightarrow> experiment_row list \<Rightarrow> bool" where
  "follows \<equiv> list_all2 row_follows"

lemma row_follows_refl [simp]: "row_follows r r"
  unfolding row_follows_def by (rule exI [of _ "er_status r"], rule exI [of _ "er_finished_at r"]) simp

lemma row_follows_id: "row_follows r r' \<Longrightarrow> er_id r' = er_id r"
  by (auto simp: row_follows_def)

lemma row_follows_trans: "row_follows a b \<Longrightarrow> row_follows b c \<Longrightarrow> row_follows a c"
  unfolding row_follows_def by (elim exE conjE) (auto intro: rtranclp_trans)

lemma follows_refl [simp]: "follows rs rs"
  by (simp add: list_all2_refl)

lemma follows_trans: "follows as bs \<Longrightarrow> follows bs cs \<Longrightarrow> follows as cs"
  by (rule list_all2_trans [of row_follows row_follows row_follows]) (auto intro: row_follows_trans)

lemma follows_ids: "follows rs rs' \<Longrightarrow> map er_id rs' = map er_id rs"
  by (induction rule: list_all2_induct) (simp_all add: row_follows_id)

text \<open>What the table says about an experiment.\<close>

fun db_status :: "string \<Rightarrow> experiment_row list \<Rightarrow> status option" where
  "db_status i [] = None"
| "db_status i (r # rs) = (if er_id r = i then Some (er_status r) else db_status i rs)"

lemma set_status_ids [simp]: "map er_id (set_status i st t rs) = map er_id rs"
  by (simp add: set_status_def comp_def if_distrib cong: if_cong)

lemma db_status_set: "db_status j (set_status i st t rs) =
    (if j = i \<and> db_status j rs \<noteq> None then Some st else db_status j rs)"
  by (induction rs) (auto simp: set_status_def)

lemma db_status_None: "db_status i rs = None \<longleftrightarrow> i \<notin> er_id ` set rs"
  by (induction rs) auto

lemma db_status_row: "distinct (map er_id rs) \<Longrightarrow> r \<in> set rs \<Longrightarrow> db_status (er_id r) rs = Some (er_status r)"
  by (induction rs) auto

lemma follows_set_status:
  assumes "distinct (map er_id rs)" "\<And>s. db_status i rs = Some s \<Longrightarrow> life s st"
  shows "follows rs (set_status i st t rs)"
  using assms
proof (induction rs)
  case Nil
  then show ?case by (simp add: set_status_def)
next
  case (Cons r rs)
  have "follows rs (set_status i st t rs)"
  proof (cases "er_id r = i")
    case True
    with Cons.prems(1) have "set_status i st t rs = rs"
      by (auto simp: set_status_def image_iff intro!: map_idI dest: bspec)
    then show ?thesis by simp
  qed (use Cons in auto)
  moreover have "row_follows r (r\<lparr>er_status := st, er_finished_at := f\<rparr>)" if "er_id r = i" for f
    using Cons.prems(2) that by (auto simp: row_follows_def)
  ultimately show ?case by (simp add: set_status_def)
qed

subsection \<open>What each action does to the table and to the live experiments\<close>

definition life_view :: "'c world \<Rightarrow> experiment_row list \<times> experiment_obj list \<times> string \<times> status" where
  "life_view w = (w_experiment_rows w, w_experiments w, ex_id (w_exp w), ex_status (w_exp w))"

lemma unchanged_life [unchanged_intros]:
  "unchanged life_view (on_port cid m)" "unchanged life_view now_sim" "unchanged life_view now_utc"
  "unchanged life_view (publish_context x nm)" "unchanged life_view (clear_context i j)"
  "unchanged life_view (enqueue_cycle_complete x)" "unchanged life_view (insert_step_row x)"
  "unchanged life_view (mark_step_completed x)" "unchanged life_view (upd_exp next_position)"
  "unchanged life_view (upd_exp (\<lambda>x. x\<lparr>ex_step_started_sim_s := t\<rparr>))"
  "unchanged life_view (upd_exp (\<lambda>x. x\<lparr>ex_resume_drift_count := Suc (ex_resume_drift_count x)\<rparr>))"
  "unchanged life_view (db_fetch g)"
  "unchanged life_view (emit_critical_alert a b c d)"
  by (rule unchangedI, simp add: life_view_def on_port_def mod_act_def now_sim_def now_utc_def publish_context_def upd_exp_def
      clear_context_def db_execute_def db_fetch_def enqueue_cycle_complete_def bind_act_def insert_step_row_def mark_step_completed_def
      lift_sum_def emit_critical_alert_def catch_act_def ret_def
      split: option.split prod.split list.split fault.split sum.split)+

lemma unchanged_command [unchanged_intros]: "unchanged life_view (command_step P x chem step)"
  unfolding command_step_def split_beta Let_def by (intro unchanged_intros)

lemma unchanged_start [unchanged_intros]: "unchanged life_view (start_step P b x)"
  unfolding start_step_def by (intro unchanged_intros)

text \<open>A status statement, with the object's own status already set.\<close>

lemma mark_life:
  "triple (\<lambda>w. life_view w = (rs, D, i, s)) (mark_experiment_status j st)
    (\<lambda>_ w. \<exists>t. life_view w = (set_status j st t rs, D, i, s))
    (\<lambda>_ w. \<exists>t. life_view w \<in> {(rs, D, i, s), (set_status j st t rs, D, i, s)})"
  unfolding mark_experiment_status_def by (rule triple_execute) (auto simp: life_view_def)

lemma status_life:
  "triple (\<lambda>w. life_view w = (rs, D, i, s)) (upd_exp (\<lambda>x. x\<lparr>ex_status := st\<rparr>))
    (\<lambda>_ w. life_view w = (rs, D, i, st)) E"
  unfolding upd_exp_def by (rule triple_mod) (auto simp: life_view_def)

text \<open>After a tick: nothing, or the object has ended and the row may have.\<close>

definition ended :: "experiment_row list \<Rightarrow> experiment_obj list \<Rightarrow> string \<Rightarrow> 'c world \<Rightarrow> bool" where
  "ended rs D i w \<longleftrightarrow> (\<exists>rs' st. life_view w = (rs', D, i, st) \<and> st \<in> {Completed, Failed} \<and>
     (rs' = rs \<or> (\<exists>t. rs' = set_status i st t rs)))"

definition ticked :: "experiment_row list \<Rightarrow> experiment_obj list \<Rightarrow> string \<Rightarrow> 'c world \<Rightarrow> bool" where
  "ticked rs D i w \<longleftrightarrow> life_view w = (rs, D, i, Running) \<or> ended rs D i w"

lemma triple_view:
  assumes "unchanged life_view m" "\<And>w. P w \<Longrightarrow> G (life_view w)" "\<And>w. G (life_view w) \<Longrightarrow> Q w"
  shows "triple P m (\<lambda>_. Q) (\<lambda>_. Q)"
  by (rule triple_unchanged [where f = life_view and G = G]) (use assms in auto)

lemma get_exp_life:
  "triple (\<lambda>w. life_view w = (rs, D, i, s)) (get_act w_exp) (\<lambda>x w. ex_id x = i \<and> life_view w = (rs, D, i, s)) E"
  by (rule triple_get) (simp add: life_view_def)

lemma end_life:
  assumes "st \<in> {Completed, Failed}" "unchanged life_view m"
  shows "triple (\<lambda>w. life_view w = (rs, D, i, st)) (seq_act (mark_experiment_status i st) m)
    (\<lambda>_. ended rs D i) (\<lambda>_. ended rs D i)"
proof (rule triple_seq)
  show "triple (\<lambda>w. life_view w = (rs, D, i, st)) (mark_experiment_status i st) (\<lambda>_. ended rs D i) (\<lambda>_. ended rs D i)"
    by (rule triple_conseq [OF mark_life [where rs = rs and D = D and i = i and s = st]])
      (use assms(1) in \<open>auto simp: ended_def\<close>)
  show "triple (ended rs D i) m (\<lambda>_. ended rs D i) (\<lambda>_. ended rs D i)"
    by (rule triple_view [OF assms(2), where G = "\<lambda>v. \<exists>rs' st. v = (rs', D, i, st) \<and> st \<in> {Completed, Failed} \<and>
     (rs' = rs \<or> (\<exists>t. rs' = set_status i st t rs))"]) (simp_all add: ended_def)
qed

lemma finish_life:
  assumes "ex_id x = i"
  shows "triple (\<lambda>w. life_view w = (rs, D, i, s)) (finish_experiment P x) (\<lambda>_. ended rs D i) (\<lambda>_. ended rs D i)"
  unfolding finish_experiment_def assms
  by (rule triple_seq [OF status_life end_life]) (simp, intro unchanged_intros)

lemma latch_life:
  assumes "ex_id x = i"
  shows "triple (\<lambda>w. life_view w = (rs, D, i, s)) (fail_on_latch x) (\<lambda>_. ended rs D i) (\<lambda>_. ended rs D i)"
  unfolding fail_on_latch_def assms
proof (rule triple_seq [OF status_life triple_seq])
  show "triple (\<lambda>w. life_view w = (rs, D, i, Failed)) (mark_step_completed x)
      (\<lambda>_ w. life_view w = (rs, D, i, Failed)) (\<lambda>_. ended rs D i)"
    by (rule triple_unchanged [OF unchanged_life(8), where G = "\<lambda>v. v = (rs, D, i, Failed)"]) (auto simp: ended_def)
qed (rule end_life; simp add: unchanged_intros)

lemma quiet_life:
  assumes "unchanged life_view m"
  shows "triple (\<lambda>w. life_view w = (rs, D, i, Running)) m (\<lambda>_ w. life_view w = (rs, D, i, Running)) (\<lambda>_. ticked rs D i)"
  by (rule triple_unchanged [OF assms, where G = "\<lambda>v. v = (rs, D, i, Running)"]) (auto simp: ticked_def)

lemma ticked_of_ended: "triple P m (\<lambda>_. ended rs D i) (\<lambda>_. ended rs D i) \<Longrightarrow> triple P m (\<lambda>_. ticked rs D i) (\<lambda>_. ticked rs D i)"
  by (erule triple_conseq) (simp_all add: ticked_def)

lemma ticked_of_quiet:
  "unchanged life_view m \<Longrightarrow> triple (\<lambda>w. life_view w = (rs, D, i, Running)) m (\<lambda>_. ticked rs D i) (\<lambda>_. ticked rs D i)"
  by (rule triple_conseq [OF quiet_life]) (simp_all add: ticked_def)

lemma advance_life:
  "triple (\<lambda>w. life_view w = (rs, D, i, Running)) (advance P) (\<lambda>_. ticked rs D i) (\<lambda>_. ticked rs D i)"
  unfolding advance_def
proof (rule triple_bind [OF get_exp_life triple_fact])
  fix x0 :: experiment_obj
  assume "ex_id x0 = i"
  show "triple (\<lambda>w. life_view w = (rs, D, i, Running))
      (seq_act (when_act (at_last_step x0) (enqueue_cycle_complete x0))
       (seq_act (upd_exp next_position)
         (bind_act (get_act w_exp) (\<lambda>x. if sch_repeat (ex_schedule x) \<le> int (ex_cycle_index x) then finish_experiment P x
             else start_step P (at_last_step x0) x)))) (\<lambda>_. ticked rs D i) (\<lambda>_. ticked rs D i)"
  proof (rule triple_seq [OF quiet_life triple_seq [OF quiet_life triple_bind [OF get_exp_life triple_fact]]])
    fix x :: experiment_obj
    assume x: "ex_id x = i"
    show "triple (\<lambda>w. life_view w = (rs, D, i, Running)) (if sch_repeat (ex_schedule x) \<le> int (ex_cycle_index x)
        then finish_experiment P x else start_step P (at_last_step x0) x) (\<lambda>_. ticked rs D i) (\<lambda>_. ticked rs D i)"
      using finish_life [OF x] by (intro triple_if ticked_of_quiet unchanged_intros ticked_of_ended)
  qed (intro unchanged_intros)+
qed

lemma tick_life:
  "triple (\<lambda>w. life_view w = (rs, D, i, Running)) (step_one_tick P) (\<lambda>_. ticked rs D i) (\<lambda>_. ticked rs D i)"
  unfolding step_one_tick_def
proof (rule triple_bind [OF get_exp_life triple_fact])
  fix x :: experiment_obj
  assume x: "ex_id x = i"
  let ?tick = "\<lambda>snap. if sn_last_error snap \<noteq> NONE then fail_on_latch x
       else bind_act (lift_sum (get_chemistry (sch_chemistry (ex_schedule x)))) (\<lambda>chem.
         bind_act (lift_sum (nth_or_raise (sch_steps (ex_schedule x)) (ex_step_index x))) (\<lambda>step.
         bind_act now_sim (\<lambda>now.
           if end_condition_met step (sn_voltage_v snap) (sn_current_a snap)
                (now - ex_step_started_sim_s x) (capacity_ah_nominal chem)
           then seq_act (mark_step_completed x) (advance P)
           else command_step P x chem step)))"
  show "triple (\<lambda>w. life_view w = (rs, D, i, Running))
      (bind_act (on_port (ex_chassis_id x) (read_channel P (ex_channel_idx x))) ?tick) (\<lambda>_. ticked rs D i) (\<lambda>_. ticked rs D i)"
    by (rule triple_bind [OF quiet_life]; (rule triple_if)?;
      intro unchanged_intros ticked_of_ended latch_life x triple_bind [OF quiet_life] triple_if
        triple_seq [OF quiet_life advance_life] ticked_of_quiet)
qed

lemma kickoff_life:
  assumes "unchanged life_view m"
  shows "triple (\<lambda>w. life_view w = (rs, D, i, s)) m (\<lambda>_ w. life_view w = (rs, D, i, s))
    (\<lambda>_ w. life_view w = (rs, D, i, s))"
  by (rule triple_unchanged [OF assms, where G = "\<lambda>v. v = (rs, D, i, s)"]) auto

text \<open>After a kickoff: the row is running with its object, or has failed with it, or an exception left it anywhere.\<close>

definition kicked :: "experiment_row list \<Rightarrow> experiment_obj list \<Rightarrow> string \<Rightarrow> 'c world \<Rightarrow> bool" where
  "kicked rs D i w \<longleftrightarrow> (\<exists>t. life_view w = (set_status i Running t rs, D, i, Running)) \<or>
     (\<exists>t t'. life_view w = (set_status i Failed t' (set_status i Running t rs), D, i, Failed))"

definition kick_raised :: "experiment_row list \<Rightarrow> experiment_obj list \<Rightarrow> string \<Rightarrow> 'c world \<Rightarrow> bool" where
  "kick_raised rs D i w \<longleftrightarrow> (\<exists>rs' s. life_view w = (rs', D, i, s) \<and> (rs' = rs \<or> (\<exists>t. rs' = set_status i Running t rs) \<or>
     (\<exists>t t'. rs' = set_status i Failed t' (set_status i Running t rs))))"

lemma kick_quiet:
  assumes "unchanged life_view m"
  shows "triple (\<lambda>w. \<exists>t. life_view w = (set_status i Running t rs, D, i, Running)) m
    (\<lambda>_ w. \<exists>t. life_view w = (set_status i Running t rs, D, i, Running)) (\<lambda>_. kick_raised rs D i)"
  by (rule triple_unchanged [OF assms, where G = "\<lambda>v. \<exists>t. v = (set_status i Running t rs, D, i, Running)"])
    (auto simp: kick_raised_def)

lemma kick_failed:
  "triple (\<lambda>w. \<exists>t. life_view w = (set_status i Running t rs, D, i, Running))
    (seq_act (upd_exp (\<lambda>x. x\<lparr>ex_status := Failed\<rparr>)) (mark_experiment_status i Failed))
    (\<lambda>_. kicked rs D i) (\<lambda>_. kick_raised rs D i)"
proof (rule triple_ex, rule triple_seq [OF status_life])
  fix t
  show "triple (\<lambda>w. life_view w = (set_status i Running t rs, D, i, Failed)) (mark_experiment_status i Failed)
    (\<lambda>_. kicked rs D i) (\<lambda>_. kick_raised rs D i)"
    by (rule triple_conseq [OF mark_life [where rs = "set_status i Running t rs" and D = D and i = i and s = Failed]])
      (auto simp: kicked_def kick_raised_def)
qed

lemma kickoff_runs:
  "triple (\<lambda>w. life_view w = (rs, D, i, s)) (kickoff P) (\<lambda>_. kicked rs D i) (\<lambda>_. kick_raised rs D i)"
  unfolding kickoff_def
proof (rule triple_seq [OF status_life triple_seq [OF _ triple_bind [OF get_exp_life triple_fact]]])
  show "triple (\<lambda>w. life_view w = (rs, D, i, Running)) (bind_act now_sim (\<lambda>t. upd_exp (\<lambda>x. x\<lparr>ex_step_started_sim_s := t\<rparr>)))
      (\<lambda>_ w. life_view w = (rs, D, i, Running)) (\<lambda>_. kick_raised rs D i)"
    by (rule triple_conseq [OF kickoff_life [where rs = rs and D = D and i = i and s = Running]])
      (auto simp: kick_raised_def intro: unchanged_intros)
next
  fix x :: experiment_obj
  assume x: "ex_id x = i"
  have mark: "triple (\<lambda>w. life_view w = (rs, D, i, Running)) (mark_experiment_status i Running)
      (\<lambda>_ w. \<exists>t. life_view w = (set_status i Running t rs, D, i, Running)) (\<lambda>_. kick_raised rs D i)"
    by (rule triple_conseq [OF mark_life [where rs = rs and D = D and i = i and s = Running]])
      (auto simp: kick_raised_def)
  have last: "triple (\<lambda>w. \<exists>t. life_view w = (set_status i Running t rs, D, i, Running)) m
      (\<lambda>_. kicked rs D i) (\<lambda>_. kick_raised rs D i)" if "unchanged life_view m" for m :: "('a world, unit) act"
    by (rule triple_conseq [OF kick_quiet [OF that]]) (auto simp: kicked_def)
  show "triple (\<lambda>w. life_view w = (rs, D, i, Running))
     (seq_act (mark_experiment_status (ex_id x) Running)
      (seq_act (insert_step_row x)
      (bind_act (lift_sum (get_chemistry (sch_chemistry (ex_schedule x)))) (\<lambda>chem.
       bind_act (lift_sum (chemistry_id_for_name (sch_chemistry (ex_schedule x)))) (\<lambda>chem_id.
       seq_act (on_port (ex_chassis_id x) (write_chassis_chemistry P chem_id))
       (bind_act (on_port (ex_chassis_id x) (read_chassis_chemistry P)) (\<lambda>rb.
          if rb \<noteq> chem_id then
            seq_act (upd_exp (\<lambda>x. x\<lparr>ex_status := Failed\<rparr>)) (mark_experiment_status (ex_id x) Failed)
          else
            bind_act (lift_sum (nth_or_raise (sch_steps (ex_schedule x)) (ex_step_index x))) (\<lambda>first_step.
              seq_act (on_port (ex_chassis_id x)
                  (client_set_cycle_index P (ex_channel_idx x) (int (ex_cycle_index x))))
              (seq_act (publish_context x (step_name first_step))
                (command_step P x chem first_step))))))))))
     (\<lambda>_. kicked rs D i) (\<lambda>_. kick_raised rs D i)"
    unfolding x
    by (intro triple_seq [OF mark triple_seq [OF kick_quiet triple_bind [OF kick_quiet triple_bind [OF kick_quiet
          triple_seq [OF kick_quiet triple_bind [OF kick_quiet]]]]]] triple_if kick_failed last unchanged_intros)
qed

subsection \<open>Sweeps\<close>

text \<open>
  A sweep over chassis, where each item takes its key out of the set of keys still to come.
  An exception ends the items of its chassis only.
\<close>

lemma for_sweep:
  assumes step: "\<And>x S. x \<in> X \<Longrightarrow> key x \<notin> S \<Longrightarrow> triple (I (insert (key x) S)) (g x) (\<lambda>_. I S) (\<lambda>_. I S)"
    and mono: "\<And>S T w. I T w \<Longrightarrow> S \<subseteq> T \<Longrightarrow> I S w"
    and "distinct (map key xs)" "set xs \<subseteq> X" "key ` set xs \<inter> S = {}"
  shows "triple (I (key ` set xs \<union> S)) (for_act g xs) (\<lambda>_. I S) (\<lambda>_. I S)"
  using assms(3-)
proof (induction xs)
  case Nil
  then show ?case by (simp add: triple_ret)
next
  case (Cons x xs)
  have "triple (I (insert (key x) (key ` set xs \<union> S))) (g x) (\<lambda>_. I (key ` set xs \<union> S)) (\<lambda>_. I (key ` set xs \<union> S))"
    using Cons.prems by (intro step) auto
  then have "triple (I (key ` set (x # xs) \<union> S)) (g x) (\<lambda>_. I (key ` set xs \<union> S)) (\<lambda>_. I S)"
    by (rule triple_conseq) (auto elim: mono)
  then show ?case using Cons by (auto intro: triple_seq)
qed

lemma gather_sweep:
  assumes step: "\<And>k xs S. (k, xs) \<in> set groups \<Longrightarrow> key ` set xs \<inter> S = {} \<Longrightarrow>
      triple (I (key ` set xs \<union> S)) (f k xs) (\<lambda>_. I S) (\<lambda>_. I S)"
    and mono: "\<And>S T w. I T w \<Longrightarrow> S \<subseteq> T \<Longrightarrow> I S w"
    and "distinct (map key (concat (map snd groups)))"
  shows "triple (I (key ` set (concat (map snd groups)))) (gather_chassis f groups) (\<lambda>_. I {}) (\<lambda>_. I {})"
  using assms(1,3)
proof (induction groups)
  case Nil
  then show ?case by (simp add: gather_chassis_def triple_ret)
next
  case (Cons g groups)
  obtain k xs where g: "g = (k, xs)" by (cases g)
  let ?S = "key ` set (concat (map snd groups))"
  have "key ` set xs \<inter> ?S = {}"
    using Cons.prems(2) g by (simp only: list.map snd_conv concat.simps map_append distinct_append set_append set_map)
  then have "triple (I (key ` set xs \<union> ?S)) (f k xs) (\<lambda>_. I ?S) (\<lambda>_. I ?S)"
    using Cons.prems(1) [of k xs ?S] g by simp
  then have "triple (I (key ` set xs \<union> ?S)) (catch_act (f k xs) any_exception (\<lambda>_. ret ())) (\<lambda>_. I ?S) (\<lambda>_. I {})"
    by (rule triple_catch) (auto intro: triple_ret mono)
  moreover have "key ` set xs \<union> ?S = key ` set (concat (map snd (g # groups)))" using g by (simp add: image_Un)
  moreover have "triple (I ?S) (gather_chassis f groups) (\<lambda>_. I {}) (\<lambda>_. I {})"
    using Cons.prems by (intro Cons.IH) auto
  ultimately show ?case unfolding gather_chassis_def g by (auto intro: triple_seq)
qed

lemma group_add_mset: "mset (concat (map snd (group_add k x g))) = add_mset x (mset (concat (map snd g)))"
  by (induction k x g rule: group_add.induct) auto

lemma group_by_mset: "mset (concat (map snd (group_by_key key xs))) = mset xs"
proof -
  have "mset (concat (map snd (foldl (\<lambda>g x. group_add (key x) x g) g xs))) = mset (concat (map snd g)) + mset xs" for g
    by (induction xs arbitrary: g) (simp_all add: group_add_mset)
  then show ?thesis by (simp add: group_by_key_def)
qed

lemma group_by_set: "set (concat (map snd (group_by_key key xs))) = set xs"
  using group_by_mset by (metis set_mset_mset)

lemma group_by_distinct: "distinct (map f (concat (map snd (group_by_key key xs)))) = distinct (map f xs)"
  by (metis group_by_mset mset_eq_imp_distinct_iff mset_map)

text \<open>The form every sweep takes.\<close>

lemma grouped_sweep:
  assumes step: "\<And>x S. x \<in> set xs \<Longrightarrow> key x \<notin> S \<Longrightarrow> triple (I (insert (key x) S)) (g x) (\<lambda>_. I S) (\<lambda>_. I S)"
    and mono: "\<And>S T w. I T w \<Longrightarrow> S \<subseteq> T \<Longrightarrow> I S w" and "distinct (map key xs)"
  shows "triple (I (key ` set xs)) (gather_chassis (\<lambda>_. for_act g) (group_by_key k xs)) (\<lambda>_. I {}) (\<lambda>_. I {})"
proof -
  let ?gs = "group_by_key k xs"
  have d: "distinct (map key (concat (map snd ?gs)))" using assms(3) by (simp only: group_by_distinct)
  have "triple (I (key ` set ys \<union> S)) (for_act g ys) (\<lambda>_. I S) (\<lambda>_. I S)"
    if mem: "(j, ys) \<in> set ?gs" and disj: "key ` set ys \<inter> S = {}" for j ys S
  proof (rule for_sweep [where X = "set xs" and key = key and I = I, OF step mono])
    obtain as bs where ab: "?gs = as @ (j, ys) # bs" using split_list [OF mem] by blast
    from d have "distinct (map key (concat (map snd as)) @ map key ys @ map key (concat (map snd bs)))" unfolding ab by simp
    then show "distinct (map key ys)" unfolding distinct_append by blast
    have "set ys \<subseteq> set (concat (map snd ?gs))" unfolding ab by auto
    then show "set ys \<subseteq> set xs" by (simp only: group_by_set)
  qed (use disj in auto)
  from gather_sweep [where I = I and key = key and groups = ?gs, OF this mono d] show ?thesis by (simp only: group_by_set)
qed

subsection \<open>The invariant of the process\<close>

text \<open>
  A live experiment that still runs is running in the database. \<open>U\<close> is a set of orphans: running
  in the database, with no live experiment.
\<close>

definition exp_status :: "string \<Rightarrow> experiment_obj list \<Rightarrow> status option" where
  "exp_status i D = map_option ex_status (find (\<lambda>x. ex_id x = i) D)"

lemma find_SomeD: "find p xs = Some x \<Longrightarrow> x \<in> set xs \<and> p x"
  by (induction xs) (auto split: if_splits)

lemma exp_status_put: "exp_status j (dict_put x D) = (if j = ex_id x then Some (ex_status x) else exp_status j D)"
  by (induction x D rule: dict_put.induct) (auto simp: exp_status_def)

lemma dict_put_ids: "ex_id ` set (dict_put x D) = insert (ex_id x) (ex_id ` set D)"
  by (induction x D rule: dict_put.induct) auto

lemma dict_put_distinct: "distinct (map ex_id D) \<Longrightarrow> distinct (map ex_id (dict_put x D))"
proof (induction x D rule: dict_put.induct)
  case (2 x y ys)
  have "ex_id y \<in> ex_id ` set (dict_put x ys) \<longleftrightarrow> ex_id y = ex_id x \<or> ex_id y \<in> ex_id ` set ys"
    by (simp add: dict_put_ids)
  with 2 show ?case by auto
qed simp

lemma exp_status_mem: "distinct (map ex_id D) \<Longrightarrow> x \<in> set D \<Longrightarrow> exp_status (ex_id x) D = Some (ex_status x)"
  by (induction D) (auto simp: exp_status_def image_iff)

lemma exp_status_filter:
  "distinct (map ex_id D) \<Longrightarrow> exp_status i (filter p D) = Some s \<Longrightarrow> exp_status i D = Some s"
proof -
  assume d: "distinct (map ex_id D)" and "exp_status i (filter p D) = Some s"
  then obtain x where x: "find (\<lambda>x. ex_id x = i) (filter p D) = Some x" "ex_status x = s"
    by (auto simp: exp_status_def)
  from find_SomeD [OF x(1)] exp_status_mem [OF d, of x] x(2) show ?thesis by simp
qed

lemma exp_status_filter_None: "exp_status i D = None \<Longrightarrow> exp_status i (filter p D) = None"
  by (induction D) (auto simp: exp_status_def split: if_splits)

definition table_ok :: "string set \<Rightarrow> experiment_row list \<Rightarrow> experiment_row list \<Rightarrow> experiment_obj list \<Rightarrow> bool" where
  "table_ok U rs0 rs D \<longleftrightarrow> distinct (map er_id rs) \<and> follows rs0 rs \<and> distinct (map ex_id D) \<and>
     (\<forall>i. exp_status i D = Some Running \<longrightarrow> db_status i rs = Some Running) \<and>
     (\<forall>i \<in> U. db_status i rs = Some Running \<and> exp_status i D = None)"

abbreviation life_ok :: "string set \<Rightarrow> experiment_row list \<Rightarrow> 'c world \<Rightarrow> bool" where
  "life_ok U rs0 w \<equiv> table_ok U rs0 (w_experiment_rows w) (w_experiments w)"

lemma table_ok_set:
  assumes "table_ok U rs0 rs D" "\<And>s. db_status i rs = Some s \<Longrightarrow> life s st"
    and "\<And>j. exp_status j D' = Some Running \<Longrightarrow> j \<noteq> i \<and> exp_status j D = Some Running \<or> j = i \<and> st = Running \<and> db_status i rs \<noteq> None"
    and "distinct (map ex_id D')" "i \<notin> U" "\<And>j. j \<in> U \<Longrightarrow> exp_status j D' = exp_status j D"
  shows "table_ok U rs0 (set_status i st t rs) D'"
  using assms follows_set_status [of rs i st t] unfolding table_ok_def
  by (auto simp: db_status_set intro: follows_trans)

lemma table_ok_put:
  assumes "table_ok U rs0 rs D" "ex_status x = Running \<Longrightarrow> db_status (ex_id x) rs = Some Running" "ex_id x \<notin> U"
  shows "table_ok U rs0 rs (dict_put x D)"
  using assms by (auto simp: table_ok_def exp_status_put dict_put_distinct)

subsection \<open>The tick sweep\<close>

definition tick_inv :: "string set \<Rightarrow> experiment_row list \<Rightarrow> string set \<Rightarrow> 'c world \<Rightarrow> bool" where
  "tick_inv U rs0 S w \<longleftrightarrow> life_ok U rs0 w \<and> (\<forall>i \<in> S. exp_status i (w_experiments w) = Some Running)"

lemma with_experiment_life:
  assumes "tick_inv U rs0 (insert i S) w" "i \<notin> S" "with_experiment i (step_one_tick P) w = (r, w')"
  shows "tick_inv U rs0 S w'"
proof -
  let ?rs = "w_experiment_rows w" and ?D = "w_experiments w"
  from assms(1) have ok: "table_ok U rs0 ?rs ?D" and run: "exp_status i ?D = Some Running"
    and others: "\<forall>j \<in> S. exp_status j ?D = Some Running" by (auto simp: tick_inv_def)
  then have db: "db_status i ?rs = Some Running" and iU: "i \<notin> U" by (auto simp: table_ok_def)
  from run obtain x where x: "find (\<lambda>x. ex_id x = i) ?D = Some x" "ex_id x = i" "ex_status x = Running"
    by (auto simp: exp_status_def dest: find_SomeD)
  obtain q v where v: "step_one_tick P (w\<lparr>w_exp := x\<rparr>) = (q, v)" by (cases "step_one_tick P (w\<lparr>w_exp := x\<rparr>)")
  have "life_view (w\<lparr>w_exp := x\<rparr>) = (?rs, ?D, i, Running)" using x by (simp add: life_view_def)
  from triple_any [OF tick_life [where P = P], OF this] v have t: "ticked ?rs ?D i v" by simp
  have w': "w' = v\<lparr>w_experiments := dict_put (w_exp v) (w_experiments v)\<rparr>"
    using assms(3) x(1) v by (simp add: with_experiment_def)
  from t have D: "w_experiments v = ?D" "ex_id (w_exp v) = i"
    by (auto simp: ticked_def ended_def life_view_def)
  have "life_ok U rs0 w'"
  proof (cases "life_view v = (?rs, ?D, i, Running)")
    case True
    then show ?thesis unfolding w' using table_ok_put [OF ok, of "w_exp v"] db iU by (simp add: life_view_def)
  next
    case False
    with t obtain st where st: "ex_status (w_exp v) \<in> {Completed, Failed}" "st \<in> {Completed, Failed}"
      "w_experiment_rows v = ?rs \<or> (\<exists>t. w_experiment_rows v = set_status i st t ?rs)"
      by (auto simp: ticked_def ended_def life_view_def)
    from st(3) show ?thesis
    proof (elim disjE exE)
      assume "w_experiment_rows v = ?rs"
      then show ?thesis unfolding w' using table_ok_put [OF ok, of "w_exp v"] st(1) D iU by auto
    next
      fix t assume "w_experiment_rows v = set_status i st t ?rs"
      moreover have "table_ok U rs0 (set_status i st t ?rs) (dict_put (w_exp v) ?D)"
        using ok st(1,2) D db iU by (intro table_ok_set [OF ok]) (auto simp: exp_status_put dict_put_distinct table_ok_def split: if_splits)
      ultimately show ?thesis unfolding w' using D by simp
    qed
  qed
  moreover have "\<forall>j \<in> S. exp_status j (w_experiments w') = Some Running"
    using others assms(2) D by (auto simp: w' exp_status_put)
  ultimately show ?thesis by (simp add: tick_inv_def)
qed

lemma tick_experiment_inv:
  assumes "ex_id x \<notin> S"
  shows "triple (tick_inv U rs0 (insert (ex_id x) S)) (tick_experiment P x) (\<lambda>_. tick_inv U rs0 S) (\<lambda>_. tick_inv U rs0 S)"
proof -
  have "triple (tick_inv U rs0 (insert (ex_id x) S)) (with_experiment (ex_id x) (step_one_tick P))
      (\<lambda>_. tick_inv U rs0 S) (\<lambda>_. tick_inv U rs0 S)"
  proof (rule tripleI)
    fix w :: "'a world" assume "tick_inv U rs0 (insert (ex_id x) S) w"
    from with_experiment_life [OF this assms]
    show "case with_experiment (ex_id x) (step_one_tick P) w of (Inr _, w') \<Rightarrow> tick_inv U rs0 S w' | (Inl _, w') \<Rightarrow> tick_inv U rs0 S w'"
      by (cases "with_experiment (ex_id x) (step_one_tick P) w") (auto split: sum.split)
  qed
  then show ?thesis unfolding tick_experiment_def
    by (intro triple_catch [where R = "\<lambda>_. tick_inv U rs0 S"] triple_bind [where R = "\<lambda>_. tick_inv U rs0 S"] triple_ret) auto
qed

lemma tick_running_life: "triple (life_ok U rs0) (tick_running P) (\<lambda>_. life_ok U rs0) (\<lambda>_. life_ok U rs0)"
  unfolding tick_running_def
proof (rule triple_bind [OF triple_get [where Q = "\<lambda>xs w. xs = running_on_bench w \<and> life_ok U rs0 w"]])
  fix xs :: "experiment_obj list"
  show "triple (\<lambda>w. xs = running_on_bench w \<and> life_ok U rs0 w)
      (gather_chassis (\<lambda>_. for_act (tick_experiment P)) (group_by_key ex_chassis_id xs)) (\<lambda>_. life_ok U rs0) (\<lambda>_. life_ok U rs0)"
  proof (cases "distinct (map ex_id xs)")
    case True
    have "triple (tick_inv U rs0 (ex_id ` set xs)) (gather_chassis (\<lambda>_. for_act (tick_experiment P)) (group_by_key ex_chassis_id xs))
        (\<lambda>_. tick_inv U rs0 {}) (\<lambda>_. tick_inv U rs0 {})"
      by (rule grouped_sweep [OF tick_experiment_inv _ True]) (auto simp: tick_inv_def)
    then show ?thesis
      by (rule triple_conseq)
        (auto simp: tick_inv_def running_on_bench_def table_ok_def dest: exp_status_mem)
  next
    case False
    then have "\<not> (xs = running_on_bench w \<and> life_ok U rs0 w)" for w :: "'a world"
      by (auto simp: running_on_bench_def table_ok_def intro: distinct_map_filter)
    then show ?thesis by (intro tripleI) blast
  qed
qed simp

subsection \<open>The kickoff and resume sweeps\<close>

text \<open>
  The ids in \<open>S\<close> are still to come: their rows are in state \<open>s0\<close> and no live experiment runs
  them. \<open>L\<close> holds the experiments a resuming chassis has gathered so far.
\<close>

definition sweep_ok :: "status \<Rightarrow> string set \<Rightarrow> experiment_row list \<Rightarrow> string set \<Rightarrow> experiment_obj list \<Rightarrow>
    experiment_row list \<times> experiment_obj list \<Rightarrow> bool" where
  "sweep_ok s0 U rs0 S L v \<longleftrightarrow> (case v of (rs, D) \<Rightarrow> table_ok U rs0 rs D \<and>
     (\<forall>i \<in> S. db_status i rs = Some s0 \<and> exp_status i D \<noteq> Some Running) \<and> ex_id ` set L \<inter> S = {} \<and>
     (ex_id ` set L \<union> S) \<inter> U = {} \<and>
     (\<forall>x \<in> set L. ex_status x = Running \<longrightarrow> db_status (ex_id x) rs = Some Running))"

definition table_view :: "'c world \<Rightarrow> experiment_row list \<times> experiment_obj list" where
  "table_view w = (w_experiment_rows w, w_experiments w)"

abbreviation sweep_inv :: "status \<Rightarrow> string set \<Rightarrow> experiment_row list \<Rightarrow> string set \<Rightarrow> experiment_obj list \<Rightarrow> 'c world \<Rightarrow> bool" where
  "sweep_inv s0 U rs0 S L w \<equiv> sweep_ok s0 U rs0 S L (table_view w)"

lemma sweep_ok_mono: "sweep_ok s0 U rs0 T L v \<Longrightarrow> S \<subseteq> T \<Longrightarrow> sweep_ok s0 U rs0 S L v"
  by (auto simp: sweep_ok_def)

lemma sweep_ok_table: "sweep_ok s0 U rs0 S L (rs, D) \<Longrightarrow> table_ok U rs0 rs D"
  by (simp add: sweep_ok_def)

lemma sweep_ok_set:
  assumes "sweep_ok s0 U rs0 (insert i S) L (rs, D)" "i \<notin> S" "life s0 st"
  shows "sweep_ok s0 U rs0 S L (set_status i st t rs, D)"
proof -
  have ok: "table_ok U rs0 rs D" and i: "db_status i rs = Some s0" "exp_status i D \<noteq> Some Running" "i \<notin> U"
    using assms(1) by (auto simp: sweep_ok_def)
  have "table_ok U rs0 (set_status i st t rs) D"
    using i assms(3) ok by (intro table_ok_set [OF ok]) (auto simp: table_ok_def)
  then show ?thesis using assms(1,2) by (auto simp: sweep_ok_def db_status_set)
qed

lemma unchanged_table: "unchanged life_view m \<Longrightarrow> unchanged table_view m"
  by (simp add: unchanged_def life_view_def table_view_def)

lemma unchanged_table_upd [unchanged_intros]: "unchanged table_view (upd_exp f)"
  by (simp add: unchanged_def table_view_def upd_exp_def mod_act_def)

lemma unchanged_alerted [unchanged_intros]: "unchanged life_view (mod_act (\<lambda>w. w\<lparr>w_alerted := f w\<rparr>))"
  by (rule unchanged_mod) (simp add: life_view_def)

text \<open>Invariants that look at the two tables only.\<close>

lemma table_quiet:
  assumes "unchanged table_view m" "\<And>v. A v \<Longrightarrow> B v"
  shows "triple (\<lambda>w. A (table_view w)) m (\<lambda>_ w. A (table_view w)) (\<lambda>_ w. B (table_view w))"
  by (rule triple_unchanged [OF assms(1), where G = A]) (use assms(2) in auto)

lemma sweep_quiet:
  "unchanged table_view m \<Longrightarrow>
    triple (sweep_inv s0 U rs0 (insert i S) L) m (\<lambda>_. sweep_inv s0 U rs0 (insert i S) L) (\<lambda>_. sweep_inv s0 U rs0 S L)"
  by (rule table_quiet) (auto elim: sweep_ok_mono)

lemma sweep_done: "triple P m (\<lambda>_. sweep_inv s0 U rs0 (insert i S) L) (\<lambda>_. sweep_inv s0 U rs0 S L) \<Longrightarrow>
    triple P m (\<lambda>_. sweep_inv s0 U rs0 S L) (\<lambda>_. sweep_inv s0 U rs0 S L)"
  by (erule triple_conseq) (auto elim: sweep_ok_mono)

lemma sweep_after:
  "unchanged table_view m \<Longrightarrow> triple (sweep_inv s0 U rs0 S L) m (\<lambda>_. sweep_inv s0 U rs0 S L) (\<lambda>_. sweep_inv s0 U rs0 S L)"
  by (rule table_quiet)

lemma mark_sweep:
  assumes "i \<notin> S" "life s0 st"
  shows "triple (sweep_inv s0 U rs0 (insert i S) L) (mark_experiment_status i st)
    (\<lambda>_. sweep_inv s0 U rs0 S L) (\<lambda>_. sweep_inv s0 U rs0 S L)"
  unfolding mark_experiment_status_def
  by (rule triple_execute)
    (use assms in \<open>auto simp: table_view_def intro: sweep_ok_set elim: sweep_ok_mono\<close>)

lemma reachable_sweep:
  assumes "i \<notin> S" "life s0 Failed"
  shows "triple (sweep_inv s0 U rs0 (insert i S) L) (check_chassis_reachable i cid ch)
    (\<lambda>ok. sweep_inv s0 U rs0 (if ok then insert i S else S) L) (\<lambda>_. sweep_inv s0 U rs0 S L)"
  unfolding check_chassis_reachable_def
proof (rule triple_bind [OF triple_get [where Q = "\<lambda>_. sweep_inv s0 U rs0 (insert i S) L"]], assumption, rule triple_if)
  show "triple (sweep_inv s0 U rs0 (insert i S) L) (ret True)
    (\<lambda>ok. sweep_inv s0 U rs0 (if ok then insert i S else S) L) (\<lambda>_. sweep_inv s0 U rs0 S L)"
    by (rule triple_ret) simp
  show "triple (sweep_inv s0 U rs0 (insert i S) L) (seq_act (mark_experiment_status i Failed)
         (bind_act (get_act (\<lambda>w. cid \<in> w_alerted w)) (\<lambda>alerted.
           seq_act (when_act (\<not> alerted)
             (seq_act (mod_act (\<lambda>w. w\<lparr>w_alerted := insert cid (w_alerted w)\<rparr>))
               (emit_critical_alert ''orchestrator'' ''unreachable_chassis_in_pending_experiment''
                 (Some cid) (Some (int ch)))))
             (ret False))))
    (\<lambda>ok. sweep_inv s0 U rs0 (if ok then insert i S else S) L) (\<lambda>_. sweep_inv s0 U rs0 S L)"
    by (rule triple_seq [OF mark_sweep [OF assms]], rule triple_bind [where R = "\<lambda>_. sweep_inv s0 U rs0 S L", OF sweep_after],
      (intro unchanged_table unchanged_intros)[1], rule triple_seq [where R = "sweep_inv s0 U rs0 S L", OF sweep_after],
      (intro unchanged_table unchanged_intros)[1], rule triple_ret, simp)
qed

lemma build_sweep:
  assumes "er_id r \<notin> S" "life s0 Failed" "er_status r = Running \<Longrightarrow> life s0 Completed"
  shows "triple (sweep_inv s0 U rs0 (insert (er_id r) S) L) (build_experiment parse r)
    (\<lambda>b w. case b of None \<Rightarrow> sweep_inv s0 U rs0 S L w
       | Some x \<Rightarrow> ex_id x = er_id r \<and> ex_status x = er_status r \<and> sweep_inv s0 U rs0 (insert (er_id r) S) L w)
    (\<lambda>_. sweep_inv s0 U rs0 S L)"
proof -
  let ?i = "er_id r" and ?I = "\<lambda>S. sweep_inv s0 U rs0 S L"
  let ?load = "bind_act (load_schedule_from_db parse (er_schedule_id r)) (\<lambda>p. ret (Some (fst p)))"
  let ?Q = "\<lambda>b w. case b of None \<Rightarrow> ?I S w | Some (_ :: schedule) \<Rightarrow> ?I (insert ?i S) w"
  have u: "unchanged table_view ?load"
    unfolding load_schedule_from_db_def
    by (intro unchanged_table unchanged_bind unchanged_life) (auto split: option.split intro!: unchanged_intros)
  have some: "triple (?I (insert ?i S)) ?load (\<lambda>b. ?Q b) (\<lambda>_. ?I (insert ?i S))"
  proof (rule triple_bind [where R = "\<lambda>_. ?I (insert ?i S)"])
    show "triple (?I (insert ?i S)) (load_schedule_from_db parse (er_schedule_id r)) (\<lambda>_. ?I (insert ?i S)) (\<lambda>_. ?I (insert ?i S))"
      unfolding load_schedule_from_db_def
      by (intro sweep_after unchanged_table unchanged_bind unchanged_life) (auto split: option.split intro!: unchanged_intros)
  qed (auto intro: triple_ret)
  have load: "triple (?I (insert ?i S)) (catch_act ?load (\<lambda>e. e = ScheduleErr)
      (\<lambda>_. seq_act (mark_experiment_status ?i Failed) (ret None))) (\<lambda>b. ?Q b) (\<lambda>_. ?I S)"
    using some
    by (rule triple_catch)
      (auto intro!: triple_seq [OF mark_sweep [OF assms(1,2)]] triple_ret elim: sweep_ok_mono)
  show ?thesis unfolding build_experiment_def
  proof (rule triple_bind [OF load])
    fix o' :: "schedule option"
    show "triple (?Q o') (case o' of None \<Rightarrow> ret None
        | Some sched \<Rightarrow> if er_status r = Running then
              bind_act (load_resume_state sched ?i) (\<lambda>(cycle_idx, step_idx).
                if sch_repeat sched \<le> int cycle_idx
                then seq_act (mark_experiment_status ?i Completed) (ret None)
                else ret (Some (make_experiment r sched cycle_idx step_idx)))
            else ret (Some (make_experiment r sched 0 0)))
       (\<lambda>b w. case b of None \<Rightarrow> ?I S w
         | Some x \<Rightarrow> ex_id x = ?i \<and> ex_status x = er_status r \<and> ?I (insert ?i S) w) (\<lambda>_. ?I S)"
    proof (cases o')
      case (Some sched)
      have resume: "triple (?I (insert ?i S)) (load_resume_state sched ?i) (\<lambda>_. ?I (insert ?i S)) (\<lambda>_. ?I S)"
        unfolding load_resume_state_def by (intro sweep_quiet unchanged_table unchanged_life)
      show ?thesis unfolding Some option.case
        by (intro triple_if triple_bind [OF resume])
          (auto simp: make_experiment_def split: prod.split
            intro!: triple_ret triple_if triple_seq [OF mark_sweep [OF assms(1) assms(3)]])
    qed (auto intro: triple_ret)
  qed
qed

lemma set_status_twice: "set_status i Failed t' (set_status i Running t rs) = set_status i Failed t' rs"
  by (simp add: set_status_def comp_def)

lemma table_at: "table_view w = (rs, D) \<longleftrightarrow> (\<exists>i s. life_view w = (rs, D, i, s))"
  by (simp add: table_view_def life_view_def)

lemma new_exp_life:
  "triple (\<lambda>w. table_view w = (rs, D)) (upd_exp (\<lambda>_. x)) (\<lambda>_ w. life_view w = (rs, D, ex_id x, ex_status x)) E"
  unfolding upd_exp_def by (rule triple_mod) (simp add: table_view_def life_view_def)

lemma kicked_added:
  assumes ok: "sweep_ok Pending U rs0 (insert i S) [] (rs, D)" and "i \<notin> S" "kicked rs D i w"
  shows "sweep_inv Pending U rs0 S [] (snd (add_experiment w))"
proof -
  have t: "table_ok U rs0 rs D" and i: "db_status i rs = Some Pending" "exp_status i D \<noteq> Some Running"
    using ok by (auto simp: sweep_ok_def)
  from assms(3) obtain st t where st: "st = Running \<or> st = Failed" "life_view w = (set_status i st t rs, D, i, st)"
    by (auto simp: kicked_def set_status_twice)
  have "table_ok U rs0 (set_status i st t rs) (dict_put (w_exp w) D)"
    using i st t by (intro table_ok_set [OF t])
      (auto simp: exp_status_put life_view_def table_ok_def dict_put_distinct split: if_splits)
  then show ?thesis using ok st assms(2)
    by (auto simp: sweep_ok_def add_experiment_def mod_act_def table_view_def life_view_def exp_status_put db_status_set)
qed

lemma kick_raised_sweep:
  assumes "sweep_ok Pending U rs0 (insert i S) [] (rs, D)" "i \<notin> S" "kick_raised rs D i w"
  shows "sweep_inv Pending U rs0 S [] w"
proof -
  from assms(3) have "table_view w = (rs, D) \<or> (\<exists>st t. table_view w = (set_status i st t rs, D))"
    by (auto simp: kick_raised_def table_view_def life_view_def set_status_twice)
  then show ?thesis using sweep_ok_mono [OF assms(1) subset_insertI] sweep_ok_set [OF assms(1,2)] by auto
qed

lemma kickoff_record_sweep:
  assumes "er_id r \<notin> S" "er_status r = Pending"
  shows "triple (sweep_inv Pending U rs0 (insert (er_id r) S) []) (kickoff_record P parse r)
    (\<lambda>_. sweep_inv Pending U rs0 S []) (\<lambda>_. sweep_inv Pending U rs0 S [])"
  unfolding kickoff_record_def
proof (rule triple_bind [OF reachable_sweep [OF assms(1)]])
  fix ok
  let ?i = "er_id r" and ?I = "\<lambda>S. sweep_inv Pending U rs0 S []"
  have start: "triple (\<lambda>w. table_view w = v) (seq_act (upd_exp (\<lambda>_. x))
      (bind_act (catch_act (seq_act (kickoff P) (ret True)) (\<lambda>e. e = OSErr) (\<lambda>_. ret False))
        (\<lambda>started. when_act started add_experiment))) (\<lambda>_. ?I S) (\<lambda>_. ?I S)"
    if v: "sweep_ok Pending U rs0 (insert ?i S) [] v" and x: "ex_id x = ?i" for v x
  proof -
    obtain rs D where rd: "v = (rs, D)" by (cases v)
    note ok = v [unfolded rd]
    let ?Q = "\<lambda>b w. if b then kicked rs D ?i w else ?I S w"
    have k: "triple (\<lambda>w. life_view w = (rs, D, ?i, ex_status x)) (seq_act (kickoff P) (ret True)) ?Q (\<lambda>_. kick_raised rs D ?i)"
      by (rule triple_seq [OF kickoff_runs]) (rule triple_ret, simp)
    have "triple (\<lambda>w. life_view w = (rs, D, ?i, ex_status x))
        (catch_act (seq_act (kickoff P) (ret True)) (\<lambda>e. e = OSErr) (\<lambda>_. ret False)) ?Q (\<lambda>_. ?I S)"
      by (rule triple_catch [OF k]) (use kick_raised_sweep [OF ok assms(1)] in \<open>auto intro: triple_ret\<close>)
    then have "triple (\<lambda>w. life_view w = (rs, D, ?i, ex_status x))
        (bind_act (catch_act (seq_act (kickoff P) (ret True)) (\<lambda>e. e = OSErr) (\<lambda>_. ret False))
        (\<lambda>started. when_act started add_experiment)) (\<lambda>_. ?I S) (\<lambda>_. ?I S)"
    proof (rule triple_bind)
      fix b
      have "triple (kicked rs D ?i) add_experiment (\<lambda>_. ?I S) (\<lambda>_. ?I S)"
        unfolding add_experiment_def
        by (rule triple_mod) (use kicked_added [OF ok assms(1)] in \<open>simp add: add_experiment_def mod_act_def\<close>)
      then show "triple (?Q b) (when_act b add_experiment) (\<lambda>_. ?I S) (\<lambda>_. ?I S)"
        by (intro triple_when) simp_all
    qed
    then show ?thesis unfolding rd by (rule triple_seq [OF new_exp_life [of rs D x, unfolded x]])
  qed
  have built: "triple (?I (insert ?i S)) (bind_act (build_experiment parse r) (\<lambda>built.
         case built of None \<Rightarrow> ret ()
         | Some x \<Rightarrow> seq_act (upd_exp (\<lambda>_. x))
               (bind_act (catch_act (seq_act (kickoff P) (ret True)) (\<lambda>e. e = OSErr) (\<lambda>_. ret False))
                 (\<lambda>started. when_act started add_experiment)))) (\<lambda>_. ?I S) (\<lambda>_. ?I S)"
  proof (rule triple_bind [OF build_sweep [OF assms(1)]])
    fix b :: "experiment_obj option"
    show "triple (\<lambda>w. case b of None \<Rightarrow> ?I S w
       | Some x \<Rightarrow> ex_id x = ?i \<and> ex_status x = er_status r \<and> ?I (insert ?i S) w)
      (case b of None \<Rightarrow> ret ()
       | Some x \<Rightarrow> seq_act (upd_exp (\<lambda>_. x))
             (bind_act (catch_act (seq_act (kickoff P) (ret True)) (\<lambda>e. e = OSErr) (\<lambda>_. ret False))
               (\<lambda>started. when_act started add_experiment))) (\<lambda>_. ?I S) (\<lambda>_. ?I S)"
    proof (cases b)
      case (Some x)
      show ?thesis unfolding Some option.case
        by (rule triple_fact, rule triple_fact,
          rule triple_at [where f = table_view and A = "sweep_ok Pending U rs0 (insert (er_id r) S) []"], rule start)
    qed (simp add: triple_ret)
  qed (use assms(2) in simp_all)
  show "triple (?I (if ok then insert ?i S else S)) (if \<not> ok then ret ()
       else bind_act (build_experiment parse r) (\<lambda>built.
         case built of None \<Rightarrow> ret ()
         | Some x \<Rightarrow> seq_act (upd_exp (\<lambda>_. x))
               (bind_act (catch_act (seq_act (kickoff P) (ret True)) (\<lambda>e. e = OSErr) (\<lambda>_. ret False))
                 (\<lambda>started. when_act started add_experiment)))) (\<lambda>_. ?I S) (\<lambda>_. ?I S)"
    using built by (cases ok) (simp_all add: triple_ret)
qed simp

lemma executor_iteration_life: "triple (life_ok U rs0) (executor_iteration P parse) (\<lambda>_. life_ok U rs0) (\<lambda>_. life_ok U rs0)"
  unfolding executor_iteration_def
proof (rule triple_bind)
  show "triple (life_ok U rs0) poll_pending (\<lambda>recs w. (distinct (map er_id recs) \<and> (\<forall>r \<in> set recs. er_status r = Pending)) \<and>
      sweep_inv Pending U rs0 (er_id ` set recs) [] w) (\<lambda>_. life_ok U rs0)"
    unfolding poll_pending_def
    by (rule triple_fetch)
      (auto simp: sweep_ok_def table_view_def table_ok_def known_ids_def db_status_row intro: distinct_map_filter)
  fix recs :: "experiment_row list"
  let ?I = "\<lambda>S. sweep_inv Pending U rs0 S []"
  have tick: "triple (life_ok U rs0) (seq_act (tick_running P) reap) (\<lambda>_. life_ok U rs0) (\<lambda>_. life_ok U rs0)"
  proof (rule triple_seq [OF tick_running_life])
    show "triple (life_ok U rs0) reap (\<lambda>_. life_ok U rs0) (\<lambda>_. life_ok U rs0)"
      unfolding reap_def
      by (rule triple_mod) (auto simp: table_ok_def intro: distinct_map_filter dest: exp_status_filter exp_status_filter_None)
  qed
  have "triple (?I (er_id ` set recs)) (seq_act (kickoff_pending P parse recs) (seq_act (tick_running P) reap))
      (\<lambda>_. life_ok U rs0) (\<lambda>_. life_ok U rs0)"
    if "distinct (map er_id recs) \<and> (\<forall>r \<in> set recs. er_status r = Pending)"
  proof (rule triple_seq [OF _ tick])
    have "triple (?I (er_id ` set recs)) (kickoff_pending P parse recs) (\<lambda>_. ?I {}) (\<lambda>_. ?I {})"
      unfolding kickoff_pending_def using that
      by (intro grouped_sweep kickoff_record_sweep) (auto elim: sweep_ok_mono)
    then show "triple (?I (er_id ` set recs)) (kickoff_pending P parse recs) (\<lambda>_. life_ok U rs0) (\<lambda>_. life_ok U rs0)"
      by (rule triple_conseq) (auto simp: sweep_ok_def table_view_def)
  qed
  then show "triple (\<lambda>w. (distinct (map er_id recs) \<and> (\<forall>r \<in> set recs. er_status r = Pending)) \<and> ?I (er_id ` set recs) w)
      (seq_act (kickoff_pending P parse recs) (seq_act (tick_running P) reap)) (\<lambda>_. life_ok U rs0) (\<lambda>_. life_ok U rs0)"
    by (rule triple_fact)
qed

subsection \<open>Resume\<close>

text \<open>A record that is not resumed: its row as it was, or failed.\<close>

definition dropped :: "experiment_row list \<Rightarrow> experiment_obj list \<Rightarrow> string \<Rightarrow> 'c world \<Rightarrow> bool" where
  "dropped rs D i w \<longleftrightarrow> table_view w = (rs, D) \<or> (\<exists>t. table_view w = (set_status i Failed t rs, D))"

definition drifted :: "experiment_row list \<Rightarrow> experiment_obj list \<Rightarrow> string \<Rightarrow> 'c world \<Rightarrow> bool" where
  "drifted rs D i w \<longleftrightarrow> life_view w = (rs, D, i, Running) \<or> (\<exists>t. life_view w = (set_status i Failed t rs, D, i, Failed))"

lemma drop_quiet:
  assumes "unchanged life_view m"
  shows "triple (\<lambda>w. life_view w = (rs, D, i, Running)) m (\<lambda>_ w. life_view w = (rs, D, i, Running)) (\<lambda>_. dropped rs D i)"
  by (rule triple_unchanged [OF assms, where G = "\<lambda>v. v = (rs, D, i, Running)"])
    (auto simp: dropped_def life_view_def table_view_def)

lemma drop_marked:
  "triple (\<lambda>w. life_view w = (rs, D, i, Running)) (mark_experiment_status i Failed)
    (\<lambda>_ w. \<exists>t. life_view w = (set_status i Failed t rs, D, i, Running)) (\<lambda>_. dropped rs D i)"
  by (rule triple_conseq [OF mark_life [where rs = rs and D = D and i = i and s = Running]])
    (auto simp: dropped_def life_view_def table_view_def)

lemma drop_status:
  "triple (\<lambda>w. \<exists>t. life_view w = (set_status i Failed t rs, D, i, Running))
    (upd_exp (\<lambda>x. x\<lparr>ex_status := Failed\<rparr>)) (\<lambda>_. drifted rs D i) (\<lambda>_. dropped rs D i)"
  unfolding upd_exp_def by (rule triple_mod) (auto simp: drifted_def life_view_def)

lemma drop_marked_quiet:
  assumes "unchanged life_view m"
  shows "triple (\<lambda>w. \<exists>t. life_view w = (set_status i Failed t rs, D, i, Running)) m
    (\<lambda>_ w. \<exists>t. life_view w = (set_status i Failed t rs, D, i, Running)) (\<lambda>_. dropped rs D i)"
  by (rule triple_unchanged [OF assms, where G = "\<lambda>v. \<exists>t. v = (set_status i Failed t rs, D, i, Running)"])
    (auto simp: dropped_def life_view_def table_view_def)

lemma drift_life:
  assumes x: "ex_id x = i"
  shows "triple (\<lambda>w. life_view w = (rs, D, i, Running)) (handle_resume_drift P x m sp)
    (\<lambda>_. drifted rs D i) (\<lambda>_. dropped rs D i)"
  unfolding handle_resume_drift_def x
proof (rule triple_seq [OF drop_quiet], rule unchanged_life, rule triple_bind [OF drop_quiet], rule unchanged_basic, rule triple_if)
  let ?S = "\<lambda>w. life_view w = (rs, D, i, Running)"
  show "triple ?S (seq_act (mark_experiment_status i Failed)
          (seq_act (emit_critical_alert ''orchestrator'' ''mode_drift_persistent''
              (Some (ex_chassis_id x)) (Some (int (ex_channel_idx x))))
            (upd_exp (\<lambda>x. x\<lparr>ex_status := Failed\<rparr>)))) (\<lambda>_. drifted rs D i) (\<lambda>_. dropped rs D i)"
    by (rule triple_seq [OF drop_marked triple_seq [OF drop_marked_quiet drop_status]]) (rule unchanged_life)
  let ?cmd = "seq_act (on_port (ex_chassis_id x) (send_command_default P (ex_channel_idx x) m sp))
              (on_port (ex_chassis_id x) (kick_channel P (ex_channel_idx x)))"
  have "triple ?S ?cmd (\<lambda>_. drifted rs D i) (\<lambda>_. ?S)"
    by (rule triple_conseq [OF kickoff_life [where rs = rs and D = D and i = i and s = Running]])
      (simp_all add: drifted_def unchanged_intros)
  then show "triple ?S (catch_act ?cmd (\<lambda>e. e = OSErr)
      (\<lambda>_. seq_act (mark_experiment_status i Failed) (upd_exp (\<lambda>x. x\<lparr>ex_status := Failed\<rparr>)))) (\<lambda>_. drifted rs D i) (\<lambda>_. dropped rs D i)"
  proof (rule triple_catch)
    show "triple ?S (seq_act (mark_experiment_status i Failed) (upd_exp (\<lambda>x. x\<lparr>ex_status := Failed\<rparr>)))
        (\<lambda>_. drifted rs D i) (\<lambda>_. dropped rs D i)"
      by (rule triple_seq [OF drop_marked drop_status])
  qed (simp add: dropped_def life_view_def table_view_def)
qed

lemma resume_experiment_life:
  assumes x: "ex_id x = i" "ex_status x = Running"
  shows "triple (\<lambda>w. table_view w = (rs, D)) (resume_experiment P x)
    (\<lambda>b w. if b then life_view w = (rs, D, i, Running) else dropped rs D i w) (\<lambda>_. dropped rs D i)"
  unfolding resume_experiment_def x(1)
proof (rule triple_seq [OF new_exp_life [of rs D x, unfolded x]])
  let ?S = "\<lambda>w. life_view w = (rs, D, i, Running)"
  let ?Q = "\<lambda>b w. if b then ?S w else dropped rs D i w"
  have S: "dropped rs D i w" if "?S w" for w :: "'a world" using that by (simp add: dropped_def life_view_def table_view_def)
  have read: "triple ?S (catch_act (bind_act (on_port (ex_chassis_id x) (read_channel P (ex_channel_idx x))) (\<lambda>s. ret (Some s)))
         (\<lambda>e. e = OSErr) (\<lambda>_. ret None)) (\<lambda>_. ?S) (\<lambda>_. dropped rs D i)"
    by (rule drop_quiet) (intro unchanged_intros)
  have fail: "triple ?S (seq_act (mark_experiment_status i Failed) (ret False)) ?Q (\<lambda>_. dropped rs D i)"
    by (rule triple_seq [OF drop_marked], rule triple_ret) (auto simp: dropped_def life_view_def table_view_def)
  have step: "triple ?S (resume_step x) ?Q (\<lambda>_. dropped rs D i)"
    unfolding resume_step_def
    by (intro triple_seq [OF drop_quiet] triple_bind [OF drop_quiet] triple_ret unchanged_intros) simp
  have drift: "triple ?S (seq_act (when_act c (handle_resume_drift P x m sp))
       (bind_act (get_act (\<lambda>w. ex_status (w_exp w))) (\<lambda>st. if c \<and> st = Failed then ret False else resume_step x)))
      ?Q (\<lambda>_. dropped rs D i)" for c m sp
  proof (cases c)
    case True
    show ?thesis
    proof (rule triple_seq [where R = "drifted rs D i"], rule triple_when [OF drift_life [OF x(1)]])
      show "triple (drifted rs D i) (bind_act (get_act (\<lambda>w. ex_status (w_exp w)))
          (\<lambda>st. if c \<and> st = Failed then ret False else resume_step x)) ?Q (\<lambda>_. dropped rs D i)"
      proof (rule triple_bind [OF triple_get [where Q = "\<lambda>st w. drifted rs D i w \<and> st = ex_status (w_exp w)"]], simp, rule triple_if)
        fix st
        show "triple (\<lambda>w. drifted rs D i w \<and> st = ex_status (w_exp w)) (ret False) ?Q (\<lambda>_. dropped rs D i)"
          by (rule triple_ret) (auto simp: drifted_def dropped_def life_view_def table_view_def)
        assume "\<not> (c \<and> st = Failed)"
        then show "triple (\<lambda>w. drifted rs D i w \<and> st = ex_status (w_exp w)) (resume_step x) ?Q (\<lambda>_. dropped rs D i)"
          using True by (intro triple_pre [OF step]) (auto simp: drifted_def life_view_def)
      qed
    qed (simp add: True)
  next
    case False
    then show ?thesis
      by (intro triple_seq [OF drop_quiet] triple_bind [OF drop_quiet]) (simp_all add: step when_act_def unchanged_intros)
  qed
  show "triple ?S (bind_act (catch_act (bind_act (on_port (ex_chassis_id x) (read_channel P (ex_channel_idx x))) (\<lambda>s. ret (Some s)))
         (\<lambda>e. e = OSErr) (\<lambda>_. ret None)) (\<lambda>got.
        case got of
          None \<Rightarrow> ret False
        | Some snap \<Rightarrow>
            if sn_last_error snap \<noteq> NONE then seq_act (mark_experiment_status i Failed) (ret False)
            else
              bind_act (lift_sum (get_chemistry (sch_chemistry (ex_schedule x)))) (\<lambda>chem.
              bind_act (lift_sum (nth_or_raise (sch_steps (ex_schedule x)) (ex_step_index x))) (\<lambda>step.
                let (expected_mode, expected_setpoint) =
                      step_to_command step (capacity_ah_nominal chem) (Some (max_charge_c_rate chem))
                in seq_act (when_act (sn_mode snap \<noteq> expected_mode)
                     (handle_resume_drift P x expected_mode expected_setpoint))
                   (bind_act (get_act (\<lambda>w. ex_status (w_exp w))) (\<lambda>st.
                      if sn_mode snap \<noteq> expected_mode \<and> st = Failed then ret False
                      else resume_step x)))))) ?Q (\<lambda>_. dropped rs D i)"
    unfolding Let_def split_beta
  proof (rule triple_bind [OF read])
    fix got :: "channel_snapshot option"
    show "triple ?S (case got of
          None \<Rightarrow> ret False
        | Some snap \<Rightarrow>
            if sn_last_error snap \<noteq> NONE then seq_act (mark_experiment_status i Failed) (ret False)
            else
              bind_act (lift_sum (get_chemistry (sch_chemistry (ex_schedule x)))) (\<lambda>chem.
              bind_act (lift_sum (nth_or_raise (sch_steps (ex_schedule x)) (ex_step_index x))) (\<lambda>step.
                seq_act (when_act (sn_mode snap \<noteq> fst (step_to_command step (capacity_ah_nominal chem) (Some (max_charge_c_rate chem))))
                     (handle_resume_drift P x (fst (step_to_command step (capacity_ah_nominal chem) (Some (max_charge_c_rate chem))))
                        (snd (step_to_command step (capacity_ah_nominal chem) (Some (max_charge_c_rate chem))))))
                   (bind_act (get_act (\<lambda>w. ex_status (w_exp w))) (\<lambda>st.
                      if sn_mode snap \<noteq> fst (step_to_command step (capacity_ah_nominal chem) (Some (max_charge_c_rate chem))) \<and> st = Failed then ret False
                      else resume_step x))))) ?Q (\<lambda>_. dropped rs D i)"
    proof (cases got)
      case None
      show ?thesis unfolding None option.case by (rule triple_ret) (simp add: S)
    next
      case (Some snap)
      show ?thesis unfolding Some option.case
        by (rule triple_if, rule fail, rule triple_bind [OF drop_quiet], rule unchanged_basic,
          rule triple_bind [OF drop_quiet], rule unchanged_basic, rule drift)
    qed
  qed
qed

lemma dropped_sweep:
  assumes "sweep_ok Running {} rs0 (insert i S) L (rs, D)" "i \<notin> S" "dropped rs D i w"
  shows "sweep_inv Running {} rs0 S L w"
  using assms(3) sweep_ok_mono [OF assms(1) subset_insertI] sweep_ok_set [OF assms(1,2)]
  by (auto simp: dropped_def)

lemma resumed_sweep:
  assumes "sweep_ok Running {} rs0 (insert i S) L (rs, D)" "i \<notin> S" "life_view w = (rs, D, i, Running)"
  shows "sweep_inv Running {} rs0 S (dict_put (w_exp w) L) w"
proof -
  have "set (dict_put x L) \<subseteq> insert x (set L)" for x by (induction x L rule: dict_put.induct) auto
  then show ?thesis using assms
    by (fastforce simp: sweep_ok_def life_view_def table_view_def dict_put_ids)
qed

abbreviation with_local :: "experiment_obj list \<Rightarrow> experiment_obj option \<Rightarrow> experiment_obj list" where
  "with_local L b \<equiv> (case b of None \<Rightarrow> L | Some x \<Rightarrow> dict_put x L)"

lemma resume_record_sweep:
  assumes "er_id r \<notin> S" "er_status r = Running"
  shows "triple (sweep_inv Running {} rs0 (insert (er_id r) S) L) (resume_record P parse r)
    (\<lambda>b. sweep_inv Running {} rs0 S (with_local L b)) (\<lambda>_. sweep_inv Running {} rs0 S L)"
  unfolding resume_record_def
proof (rule triple_bind [OF reachable_sweep [OF assms(1)]])
  fix ok
  let ?i = "er_id r" and ?I = "\<lambda>S. sweep_inv Running {} rs0 S L" and ?Q = "\<lambda>b. sweep_inv Running {} rs0 S (with_local L b)"
  have start: "triple (\<lambda>w. table_view w = v) (bind_act (resume_experiment P x) (\<lambda>live.
      if live then get_act (\<lambda>w. Some (w_exp w)) else ret None)) ?Q (\<lambda>_. ?I S)"
    if v: "sweep_ok Running {} rs0 (insert ?i S) L v" and x: "ex_id x = ?i" "ex_status x = er_status r" for v x
  proof -
    obtain rs D where rd: "v = (rs, D)" by (cases v)
    note ok = v [unfolded rd]
    show ?thesis unfolding rd
    proof (rule triple_bind [OF triple_conseq [OF resume_experiment_life [OF x(1) x(2) [unfolded assms(2)], of rs D P],
          where Q = "\<lambda>b w. if b then life_view w = (rs, D, ?i, Running) else dropped rs D ?i w" and E = "\<lambda>_. ?I S"]])
      fix b
      show "triple (\<lambda>w. if b then life_view w = (rs, D, ?i, Running) else dropped rs D ?i w)
          (if b then get_act (\<lambda>w. Some (w_exp w)) else ret None) ?Q (\<lambda>_. ?I S)"
        using resumed_sweep [OF ok assms(1)] dropped_sweep [OF ok assms(1)]
        by (cases b) (auto intro!: triple_get triple_ret)
    qed (use dropped_sweep [OF ok assms(1)] in auto)
  qed
  have built: "triple (?I (insert ?i S)) (bind_act (build_experiment parse r) (\<lambda>built.
         case built of None \<Rightarrow> ret None
         | Some x \<Rightarrow> bind_act (resume_experiment P x) (\<lambda>live.
             if live then get_act (\<lambda>w. Some (w_exp w)) else ret None))) ?Q (\<lambda>_. ?I S)"
  proof (rule triple_bind [OF build_sweep [OF assms(1)]])
    fix b :: "experiment_obj option"
    show "triple (\<lambda>w. case b of None \<Rightarrow> ?I S w
       | Some x \<Rightarrow> ex_id x = ?i \<and> ex_status x = er_status r \<and> ?I (insert ?i S) w)
      (case b of None \<Rightarrow> ret None
       | Some x \<Rightarrow> bind_act (resume_experiment P x) (\<lambda>live. if live then get_act (\<lambda>w. Some (w_exp w)) else ret None))
      ?Q (\<lambda>_. ?I S)"
    proof (cases b)
      case (Some x)
      show ?thesis unfolding Some option.case
        by (rule triple_fact, rule triple_fact,
          rule triple_at [where f = table_view and A = "sweep_ok Running {} rs0 (insert (er_id r) S) L"], rule start)
    qed (simp add: triple_ret)
  qed simp_all
  show "triple (?I (if ok then insert ?i S else S)) (if \<not> ok then ret None
       else bind_act (build_experiment parse r) (\<lambda>built.
         case built of None \<Rightarrow> ret None
         | Some x \<Rightarrow> bind_act (resume_experiment P x) (\<lambda>live.
             if live then get_act (\<lambda>w. Some (w_exp w)) else ret None))) ?Q (\<lambda>_. ?I S)"
    using built by (cases ok) (simp_all add: triple_ret)
qed simp

lemma sweep_ok_local: "sweep_ok s0 {} rs0 S L v \<Longrightarrow> sweep_ok s0 {} rs0 S [] v"
  by (auto simp: sweep_ok_def)

lemma resume_records_sweep:
  assumes "distinct (map er_id rs)" "\<forall>r \<in> set rs. er_status r = Running" "er_id ` set rs \<inter> S = {}"
  shows "triple (sweep_inv Running {} rs0 (er_id ` set rs \<union> S) L) (resume_records P parse rs L)
    (\<lambda>L'. sweep_inv Running {} rs0 S L') (\<lambda>_. sweep_inv Running {} rs0 S [])"
  using assms
proof (induction rs arbitrary: L)
  case Nil
  then show ?case by (simp add: triple_ret)
next
  case (Cons r rs)
  let ?S = "er_id ` set rs \<union> S"
  have "triple (sweep_inv Running {} rs0 (insert (er_id r) ?S) L) (resume_record P parse r)
      (\<lambda>b. sweep_inv Running {} rs0 ?S (with_local L b)) (\<lambda>_. sweep_inv Running {} rs0 S [])"
  proof (rule triple_conseq [OF resume_record_sweep [where L = L and S = ?S and ?rs0.0 = rs0 and P = P and parse = parse]])
    fix e and w :: "'a world" assume "sweep_inv Running {} rs0 ?S L w"
    then show "sweep_inv Running {} rs0 S [] w" by (rule sweep_ok_mono [OF sweep_ok_local]) simp
  qed (use Cons.prems in auto)
  then show ?case using Cons.prems
    by (auto intro!: triple_bind [where R = "\<lambda>b. sweep_inv Running {} rs0 ?S (with_local L b)"] Cons.IH)
qed

lemma merge_sweep:
  "sweep_ok Running {} rs0 S L (rs, D) \<Longrightarrow> sweep_ok Running {} rs0 S [] (rs, foldl (\<lambda>out x. dict_put x out) D L)"
proof (induction L arbitrary: D)
  case (Cons x L)
  have "sweep_ok Running {} rs0 S L (rs, dict_put x D)"
    using Cons.prems by (auto simp: sweep_ok_def exp_status_put intro: table_ok_put)
  then show ?case using Cons.IH by simp
qed simp

lemma resume_life: "triple (\<lambda>w. life_ok {} rs0 w \<and> w_experiments w = []) (resume_inflight P parse) (\<lambda>_. life_ok {} rs0) (\<lambda>_. life_ok {} rs0)"
  unfolding resume_inflight_def
proof (rule triple_bind)
  let ?run = "\<lambda>recs. filter (\<lambda>r. er_status r = Running) recs" and ?I = "\<lambda>S. sweep_inv Running {} rs0 S []"
  show "triple (\<lambda>w. life_ok {} rs0 w \<and> w_experiments w = []) load_running_or_pending
      (\<lambda>recs w. distinct (map er_id recs) \<and> ?I (er_id ` set (?run recs)) w) (\<lambda>_. life_ok {} rs0)"
    unfolding load_running_or_pending_def
    by (rule triple_fetch)
      (auto simp: sweep_ok_def table_view_def table_ok_def db_status_row exp_status_def intro: distinct_map_filter)
  fix recs :: "experiment_row list"
  let ?gs = "group_by_key er_chassis_id (?run recs)"
  let ?f = "\<lambda>(_::int) rs. bind_act (resume_records P parse rs []) (\<lambda>local.
            mod_act (\<lambda>w. w\<lparr>w_experiments := foldl (\<lambda>out x. dict_put x out) (w_experiments w) local\<rparr>))"
  have "triple (?I (er_id ` set (?run recs))) (gather_chassis ?f ?gs) (\<lambda>_. ?I {}) (\<lambda>_. ?I {})" if d: "distinct (map er_id recs)"
  proof -
    have dd: "distinct (map er_id (concat (map snd ?gs)))" using d by (simp only: group_by_distinct distinct_map_filter)
    have "triple (?I (er_id ` set rs \<union> S)) (?f k rs) (\<lambda>_. ?I S) (\<lambda>_. ?I S)"
      if mem: "(k, rs) \<in> set ?gs" and disj: "er_id ` set rs \<inter> S = {}" for k rs S
    proof (rule triple_bind [OF resume_records_sweep])
      obtain as bs where ab: "?gs = as @ (k, rs) # bs" using split_list [OF mem] by blast
      from dd have "distinct (map er_id (concat (map snd as)) @ map er_id rs @ map er_id (concat (map snd bs)))"
        unfolding ab by simp
      then show "distinct (map er_id rs)" unfolding distinct_append by blast
      have "set rs \<subseteq> set (concat (map snd ?gs))" unfolding ab by auto
      then show "\<forall>r \<in> set rs. er_status r = Running" unfolding group_by_set by auto
      fix L
      show "triple (sweep_inv Running {} rs0 S L)
          (mod_act (\<lambda>w. w\<lparr>w_experiments := foldl (\<lambda>out x. dict_put x out) (w_experiments w) L\<rparr>)) (\<lambda>_. ?I S) (\<lambda>_. ?I S)"
        by (rule triple_mod) (simp add: table_view_def merge_sweep)
    qed (rule disj)
    from gather_sweep [where I = ?I and key = er_id and groups = ?gs and f = ?f, OF this sweep_ok_mono dd]
    show ?thesis by (simp only: group_by_set)
  qed
  then have "triple (?I (er_id ` set (?run recs))) (gather_chassis ?f ?gs) (\<lambda>_. life_ok {} rs0) (\<lambda>_. life_ok {} rs0)"
    if d: "distinct (map er_id recs)"
    by (rule triple_conseq) (use d in \<open>auto simp: sweep_ok_def table_view_def\<close>)
  then show "triple (\<lambda>w. distinct (map er_id recs) \<and> ?I (er_id ` set (?run recs)) w) (gather_chassis ?f ?gs)
      (\<lambda>_. life_ok {} rs0) (\<lambda>_. life_ok {} rs0)"
    by (rule triple_fact)
qed

subsection \<open>The whole process\<close>

text \<open>
  What the process does over its lifetimes: iterations of the executor loop, passes of the two
  kick loops in between, and restarts. After an exception that no handler catches the process
  is gone; a restart follows.
\<close>

datatype orch_event = Iterate | Keepalive | Beat bool hb_session | Restart

fun orch_exec :: "'c modbus_port \<Rightarrow> (string \<Rightarrow> exn + schedule) \<Rightarrow> int list \<Rightarrow> orch_event \<Rightarrow> 'c world \<Rightarrow> 'c world" where
  "orch_exec P parse cids Iterate w = snd (executor_iteration P parse w)"
| "orch_exec P parse cids Keepalive w = snd (channel_keepalive_pass P w)"
| "orch_exec P parse cids (Beat up s) w = snd (heartbeat_step P cids up s w)"
| "orch_exec P parse cids Restart w = snd (orchestrator_boot P parse cids w)"

definition orch_life :: "'c modbus_port \<Rightarrow> (string \<Rightarrow> exn + schedule) \<Rightarrow> int list \<Rightarrow> orch_event list \<Rightarrow> 'c world \<Rightarrow> 'c world" where
  "orch_life P parse cids evs w = fold (orch_exec P parse cids) evs (orch_exec P parse cids Restart w)"

lemma unchanged_gather [unchanged_intros]: "(\<And>k xs. unchanged f (g k xs)) \<Longrightarrow> unchanged f (gather_chassis g groups)"
  unfolding gather_chassis_def by (intro unchanged_for) (auto intro!: unchanged_intros)

lemma unchanged_kicks [unchanged_intros]:
  "unchanged life_view (kick_or_log P cid)" "unchanged life_view (channel_keepalive_pass P)"
  "unchanged life_view (heartbeat_step P cids up s)" "unchanged life_view (initial_kicks P cids)"
proof -
  show k: "unchanged life_view (kick_or_log P cid)" for cid
    unfolding kick_or_log_def by (intro unchanged_intros)
  show "unchanged life_view (channel_keepalive_pass P)"
    unfolding channel_keepalive_pass_def kick_chassis_channels_def by (intro unchanged_intros)
  show "unchanged life_view (heartbeat_step P cids up s)"
    unfolding heartbeat_step_def by (cases s) (auto intro!: unchanged_intros k)
  show "unchanged life_view (initial_kicks P cids)"
    unfolding initial_kicks_def by (intro unchanged_intros k)
qed

lemma life_ok_view: "life_ok U rs0 w \<Longrightarrow> life_view w' = life_view w \<Longrightarrow> life_ok U rs0 w'"
  by (simp add: life_view_def)

lemma boot_life:
  assumes "life_ok {} rs0 w"
  shows "life_ok {} rs0 (snd (orchestrator_boot P parse cids w))"
proof -
  let ?w = "w\<lparr>w_alerted := {}, w_experiments := []\<rparr>"
  have w: "life_ok {} rs0 ?w \<and> w_experiments ?w = []" using assms by (simp add: table_ok_def exp_status_def)
  have t: "triple (\<lambda>w. life_ok {} rs0 w \<and> w_experiments w = []) (seq_act (initial_kicks P cids) (resume_inflight P parse))
      (\<lambda>_. life_ok {} rs0) (\<lambda>_. life_ok {} rs0)"
    by (rule triple_seq [OF _ resume_life], rule triple_unchanged [OF unchanged_kicks(4),
        where G = "\<lambda>(rs, D, i, s). table_ok {} rs0 rs D \<and> D = []"]) (auto simp: life_view_def)
  have "orchestrator_boot P parse cids w = seq_act (initial_kicks P cids) (resume_inflight P parse) ?w"
    by (simp add: orchestrator_boot_def seq_act_def [of "mod_act _"] mod_act_def)
  with triple_any [OF t, of ?w, OF w] show ?thesis by simp
qed

lemma orch_boot_ok:
  "distinct (map er_id (w_experiment_rows w)) \<Longrightarrow>
    life_ok {} (w_experiment_rows w) (orch_exec P parse cids Restart w)"
  using boot_life [of "w_experiment_rows w" "w\<lparr>w_experiments := []\<rparr>" P parse cids]
  by (simp add: orchestrator_boot_def seq_act_def mod_act_def table_ok_def exp_status_def)

lemma exec_life:
  assumes "life_ok U rs0 w" "e = Restart \<Longrightarrow> U = {}"
  shows "life_ok U rs0 (orch_exec P parse cids e w)"
proof (cases e)
  case Iterate
  with assms triple_any [OF executor_iteration_life [of U rs0 P parse]] show ?thesis by simp
next
  case Restart
  with assms boot_life show ?thesis by simp
qed (use assms in \<open>auto elim!: life_ok_view intro: unchangedD [OF unchanged_kicks(2)] unchangedD [OF unchanged_kicks(3)]\<close>)

lemma run_life:
  assumes "life_ok U rs0 w" "Restart \<in> set es \<Longrightarrow> U = {}"
  shows "life_ok U rs0 (fold (orch_exec P parse cids) es w)"
  using assms
proof (induction es arbitrary: w)
  case (Cons e es)
  then show ?case using exec_life [of U rs0 w e] by (simp del: orch_exec.simps)
qed simp

text \<open>
  C6. The orchestrator refines the life of an experiment. Whatever the database, the chassis and
  the broker do, and wherever the process dies and restarts, the experiments table keeps its
  rows, and the status of each moves only along pending, running, completed or failed; a
  completed or failed experiment never changes its status again.
\<close>

theorem orchestrator_refines_life:
  assumes "distinct (map er_id (w_experiment_rows w))"
    and "w0 = orch_life P parse cids evs w" "w1 = fold (orch_exec P parse cids) evs' w0"
  shows "list_all2 (\<lambda>r r'. er_id r' = er_id r \<and> life_step\<^sup>*\<^sup>* (er_status r) (er_status r') \<and>
      (er_status r \<in> {Completed, Failed} \<longrightarrow> er_status r' = er_status r))
    (w_experiment_rows w0) (w_experiment_rows w1)"
proof -
  let ?rs = "w_experiment_rows w"
  from run_life [OF orch_boot_ok [OF assms(1)]] have "life_ok {} ?rs w0" by (simp add: assms(2) orch_life_def del: orch_exec.simps)
  then have "life_ok {} (w_experiment_rows w0) w0" by (simp add: table_ok_def)
  from run_life [OF this] have "follows (w_experiment_rows w0) (w_experiment_rows w1)"
    by (simp add: assms(3) table_ok_def)
  then show ?thesis
    by (rule list_all2_mono) (auto simp: row_follows_def dest: life_terminal)
qed

definition dead_port :: "unit modbus_port" where
  "dead_port = \<lparr>mb_read = (\<lambda>a n c. (Inl OSErr, c)), mb_write = (\<lambda>a vs c. (Inl OSErr, c))\<rparr>"

definition demo_row :: "status \<Rightarrow> experiment_row" where
  "demo_row st = \<lparr>er_id = ''e1'', er_chassis_id = 1, er_channel_idx = 0, er_schedule_id = ''demo'',
     er_git_sha = ''abc'', er_status = st, er_finished_at = None\<rparr>"

lemma orchestrator_refines_life_witness:
  "\<exists>r. w_experiment_rows (fold (orch_exec dead_port (\<lambda>_. Inr demo_schedule) []) [Iterate, Restart, Iterate]
      (orch_life dead_port (\<lambda>_. Inr demo_schedule) [] [] ((demo_world [] Map.empty)\<lparr>w_experiment_rows := [demo_row Failed]\<rparr>))) = [r] \<and>
    er_id r = ''e1'' \<and> er_status r = Failed"
proof -
  let ?w = "(demo_world [] Map.empty)\<lparr>w_experiment_rows := [demo_row Failed]\<rparr>"
  have b: "w_experiment_rows (orch_life dead_port (\<lambda>_. Inr demo_schedule) [] [] ?w) = [demo_row Failed]"
    by (simp add: orch_life_def orchestrator_boot_def initial_kicks_def resume_inflight_def load_running_or_pending_def
        seq_act_def bind_act_def mod_act_def ret_def db_fetch_def demo_world_def demo_row_def group_by_key_def gather_chassis_def)
  show ?thesis
    using orchestrator_refines_life [of ?w _ dead_port "\<lambda>_. Inr demo_schedule" "[]" "[]" _ "[Iterate, Restart, Iterate]", OF _ refl refl]
    unfolding b by (auto simp: demo_row_def list_all2_Cons1)
qed

end
