(* ===== verification/Orch_Faults.thy ===== *)
theory Orch_Faults
  imports Orch_Life Cycler_Props
begin

section \<open>What faults do to the orchestrator\<close>

text \<open>
  The reactions of the process to unreachable chassis, dead connections, bad schedules and
  database errors, each stated over whole iterations or whole lifetimes.
\<close>

subsection \<open>Orphans\<close>

lemma kickoff_dead_port:
  assumes "w_faults w = []" "w_ports w (ex_chassis_id x) = Some c" "\<And>a vs. mb_write P a vs c = (Inl OSErr, c)"
    and "get_chemistry (sch_chemistry (ex_schedule x)) = Inr chem" "ex_step_index x < length (sch_steps (ex_schedule x))"
    and "w_exp w = x"
  shows "\<exists>w' t. kickoff P w = (Inl OSErr, w') \<and> w_experiment_rows w' = set_status (ex_id x) Running t (w_experiment_rows w) \<and>
    w_experiments w' = w_experiments w"
proof -
  have "\<exists>cid. chemistry_id_for_name (sch_chemistry (ex_schedule x)) = Inr cid"
    using assms(4) by (auto simp: get_chemistry_def CHEMISTRIES_def chemistry_id_for_name_def all_chemistry_ids_def split: if_splits)
  then obtain cid where cid: "chemistry_id_for_name (sch_chemistry (ex_schedule x)) = Inr cid" ..
  show ?thesis
    using assms cid
    by (simp add: kickoff_def upd_exp_def now_sim_def now_utc_def mark_experiment_status_def insert_step_row_def nth_or_raise_def
        db_execute_def write_chassis_chemistry_def on_port_def seq_act_def bind_act_def mod_act_def get_act_def lift_sum_def)
      blast
qed

lemma kickoff_unknown_chemistry:
  assumes "w_faults w = []" "get_chemistry (sch_chemistry (ex_schedule x)) = Inl ValueErr" "w_exp w = x"
    and "ex_step_index x < length (sch_steps (ex_schedule x))"
  shows "\<exists>w' t. kickoff P w = (Inl ValueErr, w') \<and> w_experiment_rows w' = set_status (ex_id x) Running t (w_experiment_rows w) \<and>
    w_experiments w' = w_experiments w"
  using assms
  by (auto simp: kickoff_def upd_exp_def now_sim_def now_utc_def mark_experiment_status_def insert_step_row_def
      nth_or_raise_def db_execute_def seq_act_def bind_act_def mod_act_def get_act_def lift_sum_def)

text \<open>A row marked running for an experiment that is not in the live set is touched by nothing but a restart.\<close>

lemma orphan_stays:
  assumes "life_ok {} rs0 w" "db_status i (w_experiment_rows w) = Some Pending" "i \<notin> known_ids w"
    and "w_experiment_rows w1 = set_status i Running t (w_experiment_rows w)" "w_experiments w1 = w_experiments w"
    and "Restart \<notin> set evs"
  shows "db_status i (w_experiment_rows (fold (orch_exec P parse cids) evs w1)) = Some Running \<and>
    i \<notin> known_ids (fold (orch_exec P parse cids) evs w1)"
proof -
  have none: "exp_status i (w_experiments w) = None"
    using assms(3) by (simp add: exp_status_def known_ids_def find_None_iff) (metis imageI)
  have "life_ok {} rs0 w1"
    unfolding assms(4,5) using assms(1,2) none by (intro table_ok_set [OF assms(1)]) (auto simp: table_ok_def)
  then have "life_ok {i} rs0 w1"
    using assms(2) none by (simp add: table_ok_def assms(4,5) db_status_set)
  from run_life [OF this, of evs P parse cids] assms(6)
  have "life_ok {i} rs0 (fold (orch_exec P parse cids) evs w1)" by simp
  then show ?thesis by (auto simp: table_ok_def exp_status_def known_ids_def find_None_iff image_iff)
qed

text \<open>
  C25. An I/O error during the kickoff orphans the experiment. The row is already marked running
  when the connection fails, the experiment is not added to the live set, and from then on no
  number of executor iterations and kick passes ever touches it again: it stays running in
  the database with nothing driving it, until the process restarts.
\<close>

theorem kickoff_error_orphans:
  assumes "distinct (map er_id (w_experiment_rows v))" "w = orch_life P parse cids evs v"
    and "r \<in> set (w_experiment_rows w)" "er_status r = Pending" "er_id r \<notin> known_ids w"
    and "w_faults w = []" "w_ports w (er_chassis_id r) = Some c" "\<And>a vs. mb_write P a vs c = (Inl OSErr, c)"
    and "w_schedules w (er_schedule_id r) = Some (body, sha)" "parse body = Inr sched"
    and "get_chemistry (sch_chemistry sched) = Inr chem" "sch_steps sched \<noteq> []"
    and "Restart \<notin> set evs'"
  shows "\<exists>w1 w2. kickoff_record P parse r w = (Inr (), w1) \<and> w2 = fold (orch_exec P parse cids) evs' w1 \<and>
    db_status (er_id r) (w_experiment_rows w2) = Some Running \<and> er_id r \<notin> known_ids w2"
proof -
  let ?i = "er_id r" and ?x = "make_experiment r sched 0 0" and ?rs = "w_experiment_rows w"
  have ok: "life_ok {} (w_experiment_rows v) w"
    unfolding assms(2) orch_life_def using assms(1) by (intro run_life orch_boot_ok) auto
  then have d: "distinct (map er_id ?rs)" by (simp add: table_ok_def)
  have p: "db_status ?i ?rs = Some Pending" using db_status_row [OF d assms(3)] assms(4) by simp
  obtain w1 t where w1: "kickoff P (w\<lparr>w_exp := ?x\<rparr>) = (Inl OSErr, w1)"
    "w_experiment_rows w1 = set_status ?i Running t ?rs" "w_experiments w1 = w_experiments w"
    using kickoff_dead_port [of "w\<lparr>w_exp := ?x\<rparr>" ?x c P chem] assms by (auto simp: make_experiment_def)
  have "kickoff_record P parse r w = (Inr (), w1)"
    using assms(4,6,7,9,10) w1(1)
    by (simp add: kickoff_record_def check_chassis_reachable_def build_experiment_def load_schedule_from_db_def db_fetch_def
        bind_act_def seq_act_def catch_act_def get_act_def ret_def lift_sum_def upd_exp_def mod_act_def when_act_def)
  then show ?thesis using orphan_stays [OF ok p assms(5) w1(2,3) assms(13)] by blast
qed

lemma kickoff_error_orphans_witness:
  "\<exists>w2. w2 = fold (orch_exec dead_port (\<lambda>_. Inr demo_schedule) []) [Iterate, Keepalive]
      (snd (kickoff_record dead_port (\<lambda>_. Inr demo_schedule) (demo_row Pending)
        (orch_life dead_port (\<lambda>_. Inr demo_schedule) [] [] ((demo_world [] [1 \<mapsto> ()])\<lparr>w_experiment_rows := [demo_row Pending],
          w_schedules := [''demo'' \<mapsto> ([], [])]\<rparr>)))) \<and>
    db_status ''e1'' (w_experiment_rows w2) = Some Running \<and> ''e1'' \<notin> known_ids w2"
proof -
  let ?v = "(demo_world [] [1 \<mapsto> ()])\<lparr>w_experiment_rows := [demo_row Pending], w_schedules := [''demo'' \<mapsto> ([], [])]\<rparr>"
  let ?w = "orch_life dead_port (\<lambda>_. Inr demo_schedule) [] [] ?v"
  have w: "?w = ?v\<lparr>w_alerted := {}, w_experiments := []\<rparr>"
    by (simp add: orch_life_def orchestrator_boot_def initial_kicks_def resume_inflight_def load_running_or_pending_def
        seq_act_def bind_act_def mod_act_def ret_def db_fetch_def demo_world_def demo_row_def group_by_key_def gather_chassis_def)
  have r: "er_id (demo_row Pending) = ''e1''" "er_chassis_id (demo_row Pending) = 1" "er_schedule_id (demo_row Pending) = ''demo''"
    "er_status (demo_row Pending) = Pending" by (simp_all add: demo_row_def)
  have dp: "mb_write dead_port a vs c = (Inl OSErr, c)" for a vs c by (simp add: dead_port_def)
  have c: "get_chemistry (sch_chemistry demo_schedule) = Inr chem_NMC" "sch_steps demo_schedule \<noteq> []"
    by (simp_all add: demo_schedule_def get_chemistry_def CHEMISTRIES_def)
  have "\<exists>w1 w2. kickoff_record dead_port (\<lambda>_. Inr demo_schedule) (demo_row Pending) ?w = (Inr (), w1) \<and>
      w2 = fold (orch_exec dead_port (\<lambda>_. Inr demo_schedule) []) [Iterate, Keepalive] w1 \<and>
      db_status (er_id (demo_row Pending)) (w_experiment_rows w2) = Some Running \<and> er_id (demo_row Pending) \<notin> known_ids w2"
    by (rule kickoff_error_orphans [of ?v ?w dead_port "\<lambda>_. Inr demo_schedule" "[]" "[]" "demo_row Pending" "()" "[]" "[]" demo_schedule chem_NMC "[Iterate, Keepalive]"], unfold w)
      (simp_all add: r c known_ids_def demo_world_def dp)
  then show ?thesis unfolding r by (elim exE conjE) (intro exI conjI, simp_all)
qed

text \<open>
  The same end for a schedule with a chemistry no cycler knows, which the schema does not check. The name
  is looked up after the row has been marked running, and the \<open>ValueError\<close> of the lookup is not the error that the
  kickoff handles: it also keeps the experiments queued behind on this chassis from starting in this iteration.
\<close>

lemma unknown_chemistry_orphans:
  assumes "distinct (map er_id (w_experiment_rows v))" "w = orch_life P parse cids evs v"
    and "r \<in> set (w_experiment_rows w)" "er_status r = Pending" "er_id r \<notin> known_ids w"
    and "w_faults w = []" "w_ports w (er_chassis_id r) = Some c"
    and "w_schedules w (er_schedule_id r) = Some (body, sha)" "parse body = Inr sched"
    and "sch_chemistry sched \<notin> fst ` set CHEMISTRIES" "sch_steps sched \<noteq> []" "Restart \<notin> set evs'"
  shows "\<exists>w1. for_act (kickoff_record P parse) (r # rs) w = (Inl ValueErr, w1) \<and>
    db_status (er_id r) (w_experiment_rows (fold (orch_exec P parse cids) evs' w1)) = Some Running \<and>
    er_id r \<notin> known_ids (fold (orch_exec P parse cids) evs' w1)"
proof -
  let ?i = "er_id r" and ?x = "make_experiment r sched 0 0" and ?rs = "w_experiment_rows w"
  have ok: "life_ok {} (w_experiment_rows v) w"
    unfolding assms(2) orch_life_def using assms(1) by (intro run_life orch_boot_ok) auto
  then have d: "distinct (map er_id ?rs)" by (simp add: table_ok_def)
  have p: "db_status ?i ?rs = Some Pending" using db_status_row [OF d assms(3)] assms(4) by simp
  have "get_chemistry (sch_chemistry sched) = Inl ValueErr"
    using assms(10) by (simp add: get_chemistry_def map_of_eq_None_iff [symmetric])
  then obtain w1 t where w1: "kickoff P (w\<lparr>w_exp := ?x\<rparr>) = (Inl ValueErr, w1)"
    "w_experiment_rows w1 = set_status ?i Running t ?rs" "w_experiments w1 = w_experiments w"
    using kickoff_unknown_chemistry [of "w\<lparr>w_exp := ?x\<rparr>" ?x P] assms(6,11) by (auto simp: make_experiment_def)
  have "for_act (kickoff_record P parse) (r # rs) w = (Inl ValueErr, w1)"
    using assms(4,6-9) w1(1)
    by (simp add: kickoff_record_def check_chassis_reachable_def build_experiment_def load_schedule_from_db_def db_fetch_def
        bind_act_def seq_act_def catch_act_def get_act_def ret_def lift_sum_def upd_exp_def mod_act_def when_act_def)
  then show ?thesis using orphan_stays [OF ok p assms(5) w1(2,3) assms(12)] by blast
qed

text \<open>
  A restart makes it worse. The resume of such a row raises the \<open>ValueError\<close> again, and with it goes the private
  dict of its chassis: the experiments resumed before it are dropped, those after it are not looked at.
\<close>

lemma resume_unknown_chemistry:
  assumes "w_faults w = []" "er_status r = Running" "w_ports w (er_chassis_id r) = Some c"
    and "build_experiment parse r w = (Inr (Some x), w)" "ex_chassis_id x = er_chassis_id r"
    and "read_channel P (ex_channel_idx x) c = (Inr snap, c')" "sn_last_error snap = NONE"
    and "sch_chemistry (ex_schedule x) \<notin> fst ` set CHEMISTRIES"
  shows "\<exists>w'. resume_record P parse r w = (Inl ValueErr, w')"
proof -
  have "get_chemistry (sch_chemistry (ex_schedule x)) = Inl ValueErr"
    using assms(8) by (simp add: get_chemistry_def map_of_eq_None_iff [symmetric])
  with assms show ?thesis
    by (simp add: resume_record_def check_chassis_reachable_def resume_experiment_def on_port_def upd_exp_def
        bind_act_def seq_act_def catch_act_def get_act_def mod_act_def ret_def lift_sum_def)
qed

lemma resume_error_loses_chassis:
  assumes "resume_records P parse rs1 local w = (Inr resumed, w1)" "resume_record P parse r w1 = (Inl e, w2)"
  shows "resume_records P parse (rs1 @ r # rs2) local w = (Inl e, w2)"
  using assms
  by (induction rs1 arbitrary: local w) (auto simp: bind_act_def ret_def split: prod.splits sum.splits)

subsection \<open>Bad schedules\<close>

text \<open>
  C26. A pending experiment whose stored schedule no longer validates blocks its chassis for good.
  The validation error is not the one the code handles: it leaves the kickoff of the whole
  chassis, the row stays pending, and the same happens on the next iteration. With an idle
  orchestrator and only this chassis in the queue an iteration changes nothing at all, so none
  of the experiments queued behind it ever starts.
\<close>

theorem invalid_schedule_blocks_chassis:
  assumes "w_faults w = []" "w_experiments w = []"
    and "filter (\<lambda>r. er_status r = Pending) (w_experiment_rows w) = r # rest"
    and "\<forall>q \<in> set rest. er_chassis_id q = er_chassis_id r" "w_ports w (er_chassis_id r) \<noteq> None"
    and "w_schedules w (er_schedule_id r) = Some (body, sha)" "parse body = Inl e" "e \<notin> {ScheduleErr, Killed}"
  shows "executor_iteration P parse w = (Inr (), w) \<and> fold (orch_exec P parse cids) (replicate n Iterate) w = w"
proof -
  have poll: "poll_pending w = (Inr (r # rest), w)"
    using assms(1-3) by (simp add: poll_pending_def db_fetch_def known_ids_def)
  have grp: "foldl (\<lambda>g x. group_add (er_chassis_id x) x g) [(er_chassis_id r, qs)] xs = [(er_chassis_id r, qs @ xs)]"
    if "\<forall>q \<in> set xs. er_chassis_id q = er_chassis_id r" for qs xs
    using that by (induction xs arbitrary: qs) simp_all
  then have groups: "group_by_key er_chassis_id (r # rest) = [(er_chassis_id r, r # rest)]"
    using grp [of rest "[r]"] assms(4) by (simp add: group_by_key_def)
  have "kickoff_record P parse r w = (Inl e, w)"
    using assms(1,5-8)
    by (auto simp: kickoff_record_def check_chassis_reachable_def build_experiment_def load_schedule_from_db_def db_fetch_def
        bind_act_def catch_act_def get_act_def ret_def lift_sum_def)
  then have "kickoff_pending P parse (r # rest) w = (Inr (), w)"
    using assms(8) by (simp add: kickoff_pending_def groups gather_chassis_def seq_act_def catch_act_def ret_def)
  moreover have "tick_running P w = (Inr (), w)" "reap w = (Inr (), w)"
    using assms(2) by (simp_all add: tick_running_def running_on_bench_def group_by_key_def gather_chassis_def bind_act_def
        get_act_def ret_def reap_def mod_act_def)
  ultimately have it: "executor_iteration P parse w = (Inr (), w)"
    by (simp add: executor_iteration_def poll bind_act_def seq_act_def)
  moreover have "fold (orch_exec P parse cids) (replicate n Iterate) w = w"
    by (induction n) (simp_all add: it)
  ultimately show ?thesis by blast
qed

lemma invalid_schedule_blocks_chassis_witness:
  "\<exists>w :: unit world. filter (\<lambda>r. er_status r = Pending) (w_experiment_rows w) = [demo_row Pending, (demo_row Pending)\<lparr>er_id := ''e2''\<rparr>] \<and>
    fold (orch_exec dead_port (\<lambda>_. Inl ValidationErr) []) (replicate 9 Iterate) w = w"
proof -
  let ?w = "(demo_world [] [1 \<mapsto> ()])\<lparr>w_experiments := [],
    w_experiment_rows := [demo_row Pending, (demo_row Pending)\<lparr>er_id := ''e2''\<rparr>], w_schedules := [''demo'' \<mapsto> ([], [])]\<rparr>"
  have r: "er_chassis_id (demo_row Pending) = 1" "er_schedule_id (demo_row Pending) = ''demo''"
    "er_status (demo_row Pending) = Pending" by (simp_all add: demo_row_def)
  show ?thesis
    using invalid_schedule_blocks_chassis [of ?w "demo_row Pending" "[(demo_row Pending)\<lparr>er_id := ''e2''\<rparr>]" "[]" "[]"
        "\<lambda>_. Inl ValidationErr" ValidationErr dead_port "[]" 9]
    by (intro exI [of _ ?w]) (simp add: r demo_world_def)
qed

subsection \<open>Isolation\<close>

lemma for_act_killed: "for_act (\<lambda>x. catch_act (g x) any_exception (\<lambda>_. ret ())) xs w = (Inl e, w') \<Longrightarrow> e = Killed"
  by (induction xs arbitrary: w) (auto simp: seq_act_def catch_act_def ret_def split: prod.splits sum.splits if_splits)

lemma gather_killed: "gather_chassis f groups w = (Inl e, w') \<Longrightarrow> e = Killed"
  using for_act_killed [of "\<lambda>p. f (fst p) (snd p)" groups w e w'] by (simp add: gather_chassis_def case_prod_unfold)

lemma gather_all: "gather_chassis f groups w = (Inr (), w') \<Longrightarrow> w' = fold (\<lambda>(k, xs) w. snd (f k xs w)) groups w"
proof (induction groups arbitrary: w)
  case (Cons g groups)
  then show ?case
    by (cases g) (auto simp: gather_chassis_def seq_act_def catch_act_def ret_def split: prod.splits sum.splits if_splits)
qed (simp add: gather_chassis_def ret_def)

text \<open>
  C24. Isolation of the chassis. Whatever goes wrong on a chassis during the kickoff and tick sweeps,
  every other chassis still gets its turn, and no exception leaves the iteration: only a database
  error of the poll itself, or the end of the process, does.
\<close>

theorem executor_survives:
  "(\<forall>e w'. executor_iteration P parse w = (Inl e, w') \<and> e \<noteq> Killed \<longrightarrow> poll_pending w = (Inl e, w')) \<and>
   (\<forall>w'. tick_running P w = (Inr (), w') \<longrightarrow>
      w' = fold (\<lambda>(cid, xs) w. snd (for_act (tick_experiment P) xs w)) (group_by_key ex_chassis_id (running_on_bench w)) w) \<and>
   (\<forall>recs w'. kickoff_pending P parse recs w = (Inr (), w') \<longrightarrow>
      w' = fold (\<lambda>(cid, rs) w. snd (for_act (kickoff_record P parse) rs w)) (group_by_key er_chassis_id recs) w)"
proof (intro conjI allI impI)
  fix e w' assume "executor_iteration P parse w = (Inl e, w') \<and> e \<noteq> Killed"
  then show "poll_pending w = (Inl e, w')"
    by (auto simp: executor_iteration_def bind_act_def seq_act_def kickoff_pending_def tick_running_def reap_def mod_act_def get_act_def
        split: prod.splits sum.splits dest: gather_killed)
qed (auto simp: tick_running_def bind_act_def get_act_def kickoff_pending_def dest: gather_all)

lemma executor_survives_witness:
  "fst (poll_pending (demo_world [Reject PostgresErr] (Map.empty :: int \<rightharpoonup> unit))) = Inl PostgresErr"
proof -
  have "executor_iteration dead_port (\<lambda>_. Inr demo_schedule) (demo_world [Reject PostgresErr] Map.empty) =
      (Inl PostgresErr, demo_world [] Map.empty)"
    by (simp add: executor_iteration_def poll_pending_def bind_act_def db_fetch_def demo_world_def)
  with executor_survives [of dead_port "\<lambda>_. Inr demo_schedule" "demo_world [Reject PostgresErr] Map.empty"]
  show ?thesis by simp
qed

subsection \<open>Alerts\<close>

definition al_view :: "'c world \<Rightarrow> alert_row list \<times> int set" where
  "al_view w = (w_alerts w, w_alerted w)"

definition alerts_ok :: "alert_row list \<Rightarrow> alert_row list \<times> int set \<Rightarrow> bool" where
  "alerts_ok old v \<longleftrightarrow> (\<exists>new. fst v = old @ new \<and> distinct (map al_chassis_id new) \<and>
     (\<forall>a \<in> set new. al_message a = ''unreachable_chassis_in_pending_experiment'' \<and> (\<exists>c \<in> snd v. al_chassis_id a = Some c)))"

lemma unchanged_al [unchanged_intros]:
  "unchanged al_view (on_port cid m)" "unchanged al_view now_sim" "unchanged al_view now_utc"
  "unchanged al_view (publish_context x nm)" "unchanged al_view (clear_context i j)"
  "unchanged al_view (enqueue_cycle_complete x)" "unchanged al_view (insert_step_row x)"
  "unchanged al_view (mark_step_completed x)" "unchanged al_view (mark_experiment_status eid st)"
  "unchanged al_view (upd_exp f)" "unchanged al_view (db_fetch g)" "unchanged al_view add_experiment" "unchanged al_view reap"
  by (rule unchangedI, simp add: al_view_def on_port_def mod_act_def now_sim_def now_utc_def publish_context_def upd_exp_def
      clear_context_def db_execute_def db_fetch_def enqueue_cycle_complete_def bind_act_def insert_step_row_def mark_step_completed_def
      mark_experiment_status_def add_experiment_def reap_def lift_sum_def
      split: option.split prod.split list.split fault.split sum.split)+

lemma unchanged_al_command [unchanged_intros]: "unchanged al_view (command_step P x chem step)"
  unfolding command_step_def split_beta Let_def by (intro unchanged_intros)

lemma unchanged_al_tick [unchanged_intros]:
  "unchanged al_view (fail_on_latch x)" "unchanged al_view (finish_experiment P x)" "unchanged al_view (start_step P b x)"
  unfolding fail_on_latch_def finish_experiment_def start_step_def by (intro unchanged_intros)+

lemma unchanged_if [unchanged_intros]: "unchanged f m \<Longrightarrow> unchanged f k \<Longrightarrow> unchanged f (if b then m else k)"
  by simp

lemma unchanged_al_advance [unchanged_intros]: "unchanged al_view (advance P)" "unchanged al_view (kickoff P)"
  unfolding advance_def kickoff_def by (intro unchanged_intros)+

lemma unchanged_al_step [unchanged_intros]: "unchanged al_view (step_one_tick P)"
  unfolding step_one_tick_def by (intro unchanged_intros)

lemma unchanged_al_with [unchanged_intros]: "unchanged al_view m \<Longrightarrow> unchanged al_view (with_experiment i m)"
proof (rule unchangedI)
  fix w :: "'a world" assume "unchanged al_view m"
  then have "al_view (snd (m (w\<lparr>w_exp := x\<rparr>))) = al_view w" for x
    using unchangedD [of al_view m "w\<lparr>w_exp := x\<rparr>"] by (simp add: al_view_def)
  then show "al_view (snd (with_experiment i m w)) = al_view w"
    by (simp add: with_experiment_def al_view_def split_beta Let_def split: option.split)
qed

lemma unchanged_al_tick_experiment [unchanged_intros]: "unchanged al_view (tick_experiment P x)"
  unfolding tick_experiment_def by (intro unchanged_intros)

lemma unchanged_al_running [unchanged_intros]: "unchanged al_view (tick_running P)"
  unfolding tick_running_def by (intro unchanged_intros)

lemma unchanged_al_kicks [unchanged_intros]:
  "unchanged al_view (kick_or_log P cid)" "unchanged al_view (channel_keepalive_pass P)" "unchanged al_view (initial_kicks P cids)"
proof -
  show k: "unchanged al_view (kick_or_log P cid)" for cid
    unfolding kick_or_log_def by (intro unchanged_intros)
  show "unchanged al_view (channel_keepalive_pass P)"
    unfolding channel_keepalive_pass_def kick_chassis_channels_def by (intro unchanged_intros)
  show "unchanged al_view (initial_kicks P cids)"
    unfolding initial_kicks_def by (intro unchanged_intros k)
qed

lemma unchanged_al_heartbeat [unchanged_intros]: "unchanged al_view (heartbeat_step P cids up s)"
  unfolding heartbeat_step_def by (cases s) (auto intro!: unchanged_intros)

lemma unchanged_al_build [unchanged_intros]: "unchanged al_view (build_experiment parse r)"
  unfolding build_experiment_def load_schedule_from_db_def load_resume_state_def
  by (auto intro!: unchanged_bind unchanged_catch unchanged_seq unchanged_al unchanged_basic split: option.split prod.split)

text \<open>The two actions that write alerts.\<close>

abbreviation alert_inv :: "alert_row list \<Rightarrow> 'c world \<Rightarrow> bool" where
  "alert_inv old w \<equiv> alerts_ok old (al_view w)"

lemma alert_quiet: "unchanged al_view m \<Longrightarrow> triple (alert_inv old) m (\<lambda>_. alert_inv old) (\<lambda>_. alert_inv old)"
  by (rule triple_unchanged [where f = al_view and G = "alerts_ok old"]) auto

definition unreachable_alert :: "int \<Rightarrow> nat \<Rightarrow> alert_row" where
  "unreachable_alert cid ch = \<lparr>al_severity = ''critical'', al_source = ''orchestrator'',
     al_message = ''unreachable_chassis_in_pending_experiment'', al_chassis_id = Some cid, al_channel_idx = Some (int ch)\<rparr>"

lemma alerts_ok_new:
  assumes "cid \<in> A" "alerts_ok old (al, A - {cid})"
  shows "alerts_ok old (al, A)" "alerts_ok old (al @ [unreachable_alert cid ch], A)"
proof -
  obtain new where new: "al = old @ new" "distinct (map al_chassis_id new)"
    "\<forall>a \<in> set new. al_message a = ''unreachable_chassis_in_pending_experiment'' \<and> (\<exists>c \<in> A - {cid}. al_chassis_id a = Some c)"
    using assms(2) by (auto simp: alerts_ok_def)
  then show "alerts_ok old (al, A)" unfolding alerts_ok_def by (intro exI [of _ new]) auto
  show "alerts_ok old (al @ [unreachable_alert cid ch], A)"
    unfolding alerts_ok_def using new assms(1)
    by (intro exI [of _ "new @ [unreachable_alert cid ch]"]) (force simp: unreachable_alert_def)
qed

lemma alert_unreachable:
  "triple (\<lambda>w. cid \<in> w_alerted w \<and> alerts_ok old (w_alerts w, w_alerted w - {cid}))
    (emit_critical_alert ''orchestrator'' ''unreachable_chassis_in_pending_experiment'' (Some cid) (Some (int ch)))
    (\<lambda>_. alert_inv old) (\<lambda>_. alert_inv old)"
  unfolding emit_critical_alert_def unreachable_alert_def [symmetric]
  by (rule triple_catch [OF triple_execute [where Q = "\<lambda>_. alert_inv old" and E = "\<lambda>_. alert_inv old"] triple_ret])
    (auto simp: al_view_def intro: alerts_ok_new)

lemma alert_reachable: "triple (alert_inv old) (check_chassis_reachable i cid ch) (\<lambda>_. alert_inv old) (\<lambda>_. alert_inv old)"
  unfolding check_chassis_reachable_def
proof (rule triple_bind [OF alert_quiet], rule unchanged_basic, rule triple_if, rule triple_ret, assumption,
    rule triple_seq [OF alert_quiet], rule unchanged_al)
  show "triple (alert_inv old) (bind_act (get_act (\<lambda>w. cid \<in> w_alerted w)) (\<lambda>alerted.
           seq_act (when_act (\<not> alerted)
             (seq_act (mod_act (\<lambda>w. w\<lparr>w_alerted := insert cid (w_alerted w)\<rparr>))
               (emit_critical_alert ''orchestrator'' ''unreachable_chassis_in_pending_experiment''
                 (Some cid) (Some (int ch))))) (ret False))) (\<lambda>_. alert_inv old) (\<lambda>_. alert_inv old)"
    by (rule triple_bind [OF triple_get [where Q = "\<lambda>b w. (\<not> b \<longrightarrow> cid \<notin> w_alerted w) \<and> alert_inv old w"]], simp,
      rule triple_seq [OF triple_when triple_ret], rule triple_seq [OF triple_mod alert_unreachable])
      (simp_all add: al_view_def)
qed

lemma alert_drift:
  "triple (\<lambda>w. ex_resume_drift_count (w_exp w) = 0 \<and> alert_inv old w) (handle_resume_drift P x m sp)
    (\<lambda>_. alert_inv old) (\<lambda>_. alert_inv old)"
  unfolding handle_resume_drift_def
proof (rule triple_seq [where R = "\<lambda>w. ex_resume_drift_count (w_exp w) = 1 \<and> alert_inv old w"],
    (simp add: upd_exp_def triple_mod al_view_def)[1],
    rule triple_bind [OF triple_get [where Q = "\<lambda>n w. n = 1 \<and> alert_inv old w"]], simp, rule triple_fact)
  fix n :: nat assume "n = 1"
  moreover have "triple (alert_inv old) (catch_act
      (seq_act (on_port (ex_chassis_id x) (send_command_default P (ex_channel_idx x) m sp))
        (on_port (ex_chassis_id x) (kick_channel P (ex_channel_idx x)))) (\<lambda>e. e = OSErr)
      (\<lambda>_. seq_act (mark_experiment_status (ex_id x) Failed) (upd_exp (\<lambda>x. x\<lparr>ex_status := Failed\<rparr>))))
    (\<lambda>_. alert_inv old) (\<lambda>_. alert_inv old)"
    by (rule alert_quiet) (intro unchanged_intros)
  ultimately show "triple (alert_inv old) (if 2 \<le> n then
          seq_act (mark_experiment_status (ex_id x) Failed)
          (seq_act (emit_critical_alert ''orchestrator'' ''mode_drift_persistent''
              (Some (ex_chassis_id x)) (Some (int (ex_channel_idx x)))) (upd_exp (\<lambda>x. x\<lparr>ex_status := Failed\<rparr>)))
        else catch_act
      (seq_act (on_port (ex_chassis_id x) (send_command_default P (ex_channel_idx x) m sp))
        (on_port (ex_chassis_id x) (kick_channel P (ex_channel_idx x)))) (\<lambda>e. e = OSErr)
      (\<lambda>_. seq_act (mark_experiment_status (ex_id x) Failed) (upd_exp (\<lambda>x. x\<lparr>ex_status := Failed\<rparr>))))
    (\<lambda>_. alert_inv old) (\<lambda>_. alert_inv old)" by simp
qed

lemma alert_resume_step [keeps_intros]: "keeps (alert_inv old) (resume_step x)"
  unfolding triple_keeps resume_step_def by (rule alert_quiet) (intro unchanged_intros)

lemma drift_quiet:
  assumes "unchanged (\<lambda>w. (al_view w, ex_resume_drift_count (w_exp w))) m"
  shows "triple (\<lambda>w. ex_resume_drift_count (w_exp w) = 0 \<and> alert_inv old w) m
    (\<lambda>_ w. ex_resume_drift_count (w_exp w) = 0 \<and> alert_inv old w) (\<lambda>_. alert_inv old)"
  by (rule triple_unchanged [OF assms, where G = "\<lambda>(v, n). alerts_ok old v \<and> n = 0"]) auto

lemma unchanged_drift: "unchanged (\<lambda>w. (al_view w, ex_resume_drift_count (w_exp w))) (on_port cid m)"
  by (rule unchangedI) (simp add: al_view_def on_port_def split: option.split prod.split)

lemma alert_resume_experiment:
  assumes "ex_resume_drift_count x = 0"
  shows "triple (alert_inv old) (resume_experiment P x) (\<lambda>_. alert_inv old) (\<lambda>_. alert_inv old)"
  unfolding resume_experiment_def
proof (rule triple_seq [where R = "\<lambda>w. ex_resume_drift_count (w_exp w) = 0 \<and> alert_inv old w"])
  let ?A = "\<lambda>w. ex_resume_drift_count (w_exp w) = 0 \<and> alert_inv old w"
  show "triple (alert_inv old) (upd_exp (\<lambda>_. x)) (\<lambda>_. ?A) (\<lambda>_. alert_inv old)"
    using assms by (simp add: upd_exp_def triple_mod al_view_def)
  show "triple ?A (bind_act (catch_act (bind_act (on_port (ex_chassis_id x) (read_channel P (ex_channel_idx x))) (\<lambda>s. ret (Some s)))
         (\<lambda>e. e = OSErr) (\<lambda>_. ret None)) (\<lambda>got.
        case got of
          None \<Rightarrow> ret False
        | Some snap \<Rightarrow>
            if sn_last_error snap \<noteq> NONE then seq_act (mark_experiment_status (ex_id x) Failed) (ret False)
            else
              bind_act (lift_sum (get_chemistry (sch_chemistry (ex_schedule x)))) (\<lambda>chem.
              bind_act (lift_sum (nth_or_raise (sch_steps (ex_schedule x)) (ex_step_index x))) (\<lambda>step.
                let (expected_mode, expected_setpoint) =
                      step_to_command step (capacity_ah_nominal chem) (Some (max_charge_c_rate chem))
                in seq_act (when_act (sn_mode snap \<noteq> expected_mode)
                     (handle_resume_drift P x expected_mode expected_setpoint))
                   (bind_act (get_act (\<lambda>w. ex_status (w_exp w))) (\<lambda>st.
                      if sn_mode snap \<noteq> expected_mode \<and> st = Failed then ret False
                      else resume_step x)))))) (\<lambda>_. alert_inv old) (\<lambda>_. alert_inv old)"
    unfolding Let_def split_beta
  proof (rule triple_bind [OF drift_quiet], (intro unchanged_bind unchanged_catch unchanged_drift unchanged_basic)[1])
    fix got :: "channel_snapshot option"
    have weak: "triple ?A m (\<lambda>_. alert_inv old) (\<lambda>_. alert_inv old)" if "keeps (alert_inv old) m" for m :: "('a world, bool) act"
      using that unfolding triple_keeps by (rule triple_pre) simp
    have fail: "keeps (alert_inv old) (seq_act (mark_experiment_status (ex_id x) Failed) (ret False))"
      unfolding triple_keeps by (rule alert_quiet) (intro unchanged_intros)
    have step: "triple ?A (seq_act (when_act c (handle_resume_drift P x m sp))
        (bind_act (get_act (\<lambda>w. ex_status (w_exp w))) (\<lambda>st. if c \<and> st = Failed then ret False else resume_step x)))
        (\<lambda>_. alert_inv old) (\<lambda>_. alert_inv old)" for c m sp
      by (rule triple_seq [OF triple_when [OF alert_drift]], simp, fold triple_keeps)
        (auto intro!: keeps_intros alert_resume_step)
    show "triple ?A (case got of
          None \<Rightarrow> ret False
        | Some snap \<Rightarrow>
            if sn_last_error snap \<noteq> NONE then seq_act (mark_experiment_status (ex_id x) Failed) (ret False)
            else
              bind_act (lift_sum (get_chemistry (sch_chemistry (ex_schedule x)))) (\<lambda>chem.
              bind_act (lift_sum (nth_or_raise (sch_steps (ex_schedule x)) (ex_step_index x))) (\<lambda>step.
                seq_act (when_act (sn_mode snap \<noteq> fst (step_to_command step (capacity_ah_nominal chem) (Some (max_charge_c_rate chem))))
                     (handle_resume_drift P x (fst (step_to_command step (capacity_ah_nominal chem) (Some (max_charge_c_rate chem))))
                        (snd (step_to_command step (capacity_ah_nominal chem) (Some (max_charge_c_rate chem))))))
                   (bind_act (get_act (\<lambda>w. ex_status (w_exp w))) (\<lambda>st.
                      if sn_mode snap \<noteq> fst (step_to_command step (capacity_ah_nominal chem) (Some (max_charge_c_rate chem))) \<and> st = Failed then ret False
                      else resume_step x))))) (\<lambda>_. alert_inv old) (\<lambda>_. alert_inv old)"
    proof (cases got)
      case None
      show ?thesis unfolding None option.case by (rule weak) (rule keeps_ret)
    next
      case (Some snap)
      show ?thesis unfolding Some option.case
        by (rule triple_if, rule weak, rule fail, rule triple_bind [OF drift_quiet], rule unchanged_basic,
          rule triple_bind [OF drift_quiet], rule unchanged_basic, rule step)
    qed
  qed
qed

lemma alert_build:
  "triple (alert_inv old) (build_experiment parse r)
      (\<lambda>b w. (\<forall>x. b = Some x \<longrightarrow> ex_resume_drift_count x = 0) \<and> alert_inv old w) (\<lambda>_. alert_inv old)"
proof (rule tripleI)
    fix w :: "'a world" assume "alert_inv old w"
    moreover have "al_view (snd (build_experiment parse r w)) = al_view w" by (rule unchangedD) (rule unchanged_al_build)
    moreover have "ex_resume_drift_count x = 0" if "fst (build_experiment parse r w) = Inr (Some x)" for x
      using that by (auto simp: build_experiment_def bind_act_def catch_act_def seq_act_def ret_def make_experiment_def
          split: prod.splits sum.splits option.splits if_splits)
    ultimately show "case build_experiment parse r w of (Inr b, w') \<Rightarrow> (\<forall>x. b = Some x \<longrightarrow> ex_resume_drift_count x = 0) \<and> alert_inv old w'
        | (Inl e, w') \<Rightarrow> alert_inv old w'"
      by (cases "build_experiment parse r w") (auto split: sum.split)
qed

lemma alert_resume_record: "keeps (alert_inv old) (resume_record P parse r)"
  unfolding triple_keeps resume_record_def
proof (rule triple_bind [OF alert_reachable], rule triple_if, rule triple_ret, assumption, rule triple_bind [OF alert_build])
  fix b :: "experiment_obj option"
  show "triple (\<lambda>w. (\<forall>x. b = Some x \<longrightarrow> ex_resume_drift_count x = 0) \<and> alert_inv old w)
      (case b of None \<Rightarrow> ret None | Some x \<Rightarrow> bind_act (resume_experiment P x) (\<lambda>live.
             if live then get_act (\<lambda>w. Some (w_exp w)) else ret None)) (\<lambda>_. alert_inv old) (\<lambda>_. alert_inv old)"
  proof (rule triple_fact, cases b)
    fix x assume "\<forall>x. b = Some x \<longrightarrow> ex_resume_drift_count x = 0" and b: "b = Some x"
    then show "triple (alert_inv old) (case b of None \<Rightarrow> ret None | Some x \<Rightarrow> bind_act (resume_experiment P x) (\<lambda>live.
             if live then get_act (\<lambda>w. Some (w_exp w)) else ret None)) (\<lambda>_. alert_inv old) (\<lambda>_. alert_inv old)"
      unfolding b option.case
      by (intro triple_bind [OF alert_resume_experiment] triple_if triple_get triple_ret) auto
  qed (simp add: triple_ret)
qed

lemma alert_resume_records: "keeps (alert_inv old) (resume_records P parse rs L)"
  by (induction rs arbitrary: L) (auto intro: keeps_ret keeps_bind alert_resume_record)

lemma keeps_gather: "(\<And>k xs. keeps I (f k xs)) \<Longrightarrow> keeps I (gather_chassis f groups)"
  unfolding gather_chassis_def by (intro keeps_for) (auto intro!: keeps_intros)

lemma keeps_alert_quiet: "unchanged al_view m \<Longrightarrow> keeps (alert_inv old) m"
  unfolding triple_keeps by (rule alert_quiet)

lemma alert_resume: "keeps (alert_inv old) (resume_inflight P parse)"
  unfolding resume_inflight_def load_running_or_pending_def
  by (intro keeps_bind keeps_gather keeps_alert_quiet [OF unchanged_al(11)] alert_resume_records keeps_alert_quiet
      unchanged_mod) (simp add: al_view_def)

lemma alert_kickoff: "keeps (alert_inv old) (kickoff_record P parse r)"
  unfolding kickoff_record_def
  by (intro keeps_bind, (unfold triple_keeps)[1], rule alert_reachable)
    (auto intro!: keeps_alert_quiet unchanged_intros split: option.split)

lemma alert_iteration: "keeps (alert_inv old) (executor_iteration P parse)"
  unfolding executor_iteration_def kickoff_pending_def poll_pending_def
  by (intro keeps_bind keeps_seq keeps_gather keeps_for alert_kickoff) (auto intro!: keeps_alert_quiet unchanged_intros)

text \<open>
  Alerts. Over one lifetime of the process, the resume included, the only alerts it raises are
  those for chassis it cannot reach, at most one for each; in particular the escalation of a
  persistent mode drift, which would be a second drift of the same experiment, never happens.
\<close>

theorem alerts_once_per_chassis:
  assumes "Restart \<notin> set evs"
  shows "\<exists>new. w_alerts (orch_life P parse cids evs w) = w_alerts w @ new \<and> distinct (map al_chassis_id new) \<and>
    (\<forall>a \<in> set new. al_message a = ''unreachable_chassis_in_pending_experiment'' \<and> al_chassis_id a \<noteq> None)"
proof -
  let ?old = "w_alerts w" and ?w = "w\<lparr>w_alerted := {}, w_experiments := []\<rparr>"
  have "keeps (alert_inv ?old) (seq_act (initial_kicks P cids) (resume_inflight P parse))"
    by (intro keeps_seq keeps_alert_quiet unchanged_al_kicks alert_resume)
  moreover have "alert_inv ?old ?w" by (simp add: alerts_ok_def al_view_def)
  ultimately have "alert_inv ?old (snd (seq_act (initial_kicks P cids) (resume_inflight P parse) ?w))" by (rule keepsD)
  then have "alert_inv ?old (orch_exec P parse cids Restart w)"
    by (simp add: orchestrator_boot_def seq_act_def [of "mod_act _"] mod_act_def)
  moreover have "alert_inv ?old v \<Longrightarrow> alert_inv ?old (fold (orch_exec P parse cids) evs v)" for v
    using assms
  proof (induction evs arbitrary: v)
    case (Cons e evs)
    have "alert_inv ?old (orch_exec P parse cids e v)"
    proof (cases e)
      case Iterate
      with Cons.prems keepsD [OF alert_iteration] show ?thesis by simp
    qed (use Cons.prems keepsD [OF keeps_alert_quiet [OF unchanged_al_kicks(2)]]
        keepsD [OF keeps_alert_quiet [OF unchanged_al_heartbeat]] in auto)
    with Cons show ?case by (simp del: orch_exec.simps)
  qed simp
  ultimately have "alert_inv ?old (orch_life P parse cids evs w)"
    by (simp add: orch_life_def del: orch_exec.simps)
  then show ?thesis by (force simp: alerts_ok_def al_view_def)
qed

lemma alerts_once_per_chassis_witness:
  "\<exists>new. w_alerts (orch_life dead_port (\<lambda>_. Inr demo_schedule) [1] [Iterate, Iterate, Keepalive] (demo_world [] Map.empty)) = new \<and>
    distinct (map al_chassis_id new)"
  using alerts_once_per_chassis [of "[Iterate, Iterate, Keepalive]" dead_port "\<lambda>_. Inr demo_schedule" "[1]" "demo_world [] Map.empty"]
  by (auto simp: demo_world_def simp del: orch_exec.simps)

subsection \<open>The chassis dead man\<close>

context modbus_link
begin

lemma kick_chassis_run:
  assumes "sys_ok has (dev c)"
  shows "\<exists>c'. kick_chassis P c = (Inr (), c') \<and> sys_ok has (dev c') \<and> sys_now (dev c') = sys_now (dev c) \<and>
    chans c' = chans c \<and> cb_kick (sys_block (dev c')) = ks_kick (sys_now (dev c)) (cb_kick (sys_block (dev c)))"
proof -
  let ?a = "xreg CHASSIS_WATCHDOG_KICK"
  have w: "writes_in has (sys_store (dev c)) ?a [1]"
    using covers_xreg [OF conjunct1 [OF covers_link [OF assms]]] by (simp del: xreg.simps)
  from write_link [OF assms w] obtain c' cb where c': "mb_write P ?a [1] c = (Inr (), c')"
    "set_values R (sys_now (dev c)) ?a [1] (sys_block (dev c)) = Inr cb"
    "dev c' = (dev c)\<lparr>sys_block := cb\<rparr>" by blast
  from set_values_ok [OF store _ w, of "sys_now (dev c)"] c' assms have "sys_ok has (dev c')"
    by (auto simp: sys_ok_def)
  moreover have "dispatch R now ?a b = Inr (b\<lparr>cb_kick := ks_kick now (cb_kick b)\<rparr>)" for now b
    by (simp add: dispatch_def CHASSIS_BASE_def)
  ultimately show ?thesis using c' by (auto simp: kick_chassis_def set_values_def Let_def simp del: xreg.simps)
qed

end

lemma kicks_run:
  assumes "distinct cids" "\<forall>cid \<in> set cids. \<exists>c q c'. w_ports w cid = Some c \<and> kick_chassis P c = (q, c') \<and> q \<in> {Inr (), Inl OSErr}"
  shows "\<exists>w'. for_act (kick_or_log P) cids w = (Inr (), w') \<and>
    (\<forall>cid. w_ports w' cid = (if cid \<in> set cids then map_option (\<lambda>c. snd (kick_chassis P c)) (w_ports w cid) else w_ports w cid))"
  using assms
proof (induction cids arbitrary: w)
  case Nil
  then show ?case by (simp add: ret_def)
next
  case (Cons k cids)
  obtain c q c' where c: "w_ports w k = Some c" "kick_chassis P c = (q, c')" "q \<in> {Inr (), Inl OSErr}" using Cons.prems(2) by auto
  let ?w = "w\<lparr>w_ports := (w_ports w)(k \<mapsto> c')\<rparr>"
  have one: "kick_or_log P k w = (Inr (), ?w)"
    using c by (auto simp: kick_or_log_def on_port_def catch_act_def ret_def)
  have "\<forall>cid \<in> set cids. \<exists>c q c'. w_ports ?w cid = Some c \<and> kick_chassis P c = (q, c') \<and> q \<in> {Inr (), Inl OSErr}"
    using Cons.prems by auto
  with Cons.IH [of ?w] Cons.prems(1) obtain w' where w': "for_act (kick_or_log P) cids ?w = (Inr (), w')"
    "\<forall>cid. w_ports w' cid = (if cid \<in> set cids then map_option (\<lambda>c. snd (kick_chassis P c)) (w_ports ?w cid) else w_ports ?w cid)"
    by auto
  with one c Cons.prems(1) show ?case by (auto simp: seq_act_def)
qed

text \<open>
  The heartbeat. A turn inside a broker session kicks every chassis, whether or not the
  connections of the others work; on a working connection the kick reaches the dead man of the
  chassis. A turn without a session kicks none: while the broker is away the chassis hear nothing.
\<close>

theorem heartbeat_kicks_bench:
  assumes "distinct cids" "\<forall>cid \<in> set cids. \<exists>c q c'. w_ports w cid = Some c \<and> kick_chassis P c = (q, c') \<and> q \<in> {Inr (), Inl OSErr}"
  shows "(\<exists>w'. heartbeat_step P cids up InSession w = (Inr (if up then InSession else NoSession), w') \<and>
      (\<forall>cid \<in> set cids. w_ports w' cid = map_option (\<lambda>c. snd (kick_chassis P c)) (w_ports w cid)) \<and>
      (\<forall>cid c R has dev. cid \<in> set cids \<and> w_ports w cid = Some c \<and> modbus_link P R has dev \<and> sys_ok has (dev c) \<longrightarrow>
        (\<exists>c'. w_ports w' cid = Some c' \<and> ks_last_kick_wall_s (cb_kick (sys_block (dev c'))) = sys_now (dev c)))) \<and>
    heartbeat_step P cids up NoSession w = (Inr (if up then InSession else NoSession), w)"
proof -
  from kicks_run [OF assms] obtain w' where w': "for_act (kick_or_log P) cids w = (Inr (), w')"
    "\<forall>cid \<in> set cids. w_ports w' cid = map_option (\<lambda>c. snd (kick_chassis P c)) (w_ports w cid)" by auto
  have "\<exists>c'. w_ports w' cid = Some c' \<and> ks_last_kick_wall_s (cb_kick (sys_block (dev c'))) = sys_now (dev c)"
    if "cid \<in> set cids" "w_ports w cid = Some c" "modbus_link P R has dev" "sys_ok has (dev c)" for cid c R has dev
    using w'(2) that modbus_link.kick_chassis_run [OF that(3,4)] by (auto simp: ks_kick_def)
  with w' show ?thesis
    by (intro conjI exI [of _ w']) (auto simp: heartbeat_step_def seq_act_def ret_def)
qed

lemma heartbeat_kicks_bench_witness:
  "\<exists>(s :: (nat \<Rightarrow> int option) chassis_sys) w' s'.
    heartbeat_step (direct_port dict_ops) [1] True InSession (demo_world [] [1 \<mapsto> s]) = (Inr InSession, w') \<and>
    w_ports w' 1 = Some s' \<and> ks_last_kick_wall_s (cb_kick (sys_block s')) = 0"
proof -
  obtain s :: "(nat \<Rightarrow> int option) chassis_sys" where s: "sys_ok (\<lambda>m a. m a \<noteq> None) s" "sys_now s = 0"
    using booted by blast
  from direct.kick_chassis_run [OF s(1)] obtain s' where "kick_chassis (direct_port dict_ops) s = (Inr (), s')" by blast
  with heartbeat_kicks_bench [of "[1]" "demo_world [] [1 \<mapsto> s]" "direct_port dict_ops" True] s direct.modbus_link_axioms
  show ?thesis by (intro exI [of _ s]) (fastforce simp: demo_world_def)
qed

end
