(* ===== verification/Orch_Progress.thy ===== *)
theory Orch_Progress
  imports Orch_Life Orch_Props
begin

section \<open>An experiment runs to its end\<close>

text \<open>
  Safety alone is kept by an executor that does nothing. This theory shows progress: when every step
  of the schedule has a time limit, the database takes every statement, and the channel answers and is
  not latched whenever a tick reads it, then the experiment goes through all its steps in order and is
  completed after a number of ticks that the schedule bounds. Whatever else the process and the bench
  do between two ticks is an arbitrary change of the world that leaves this experiment's object and
  rows alone and takes at least \<open>d\<close> seconds.
\<close>

subsection \<open>The contract of an answering channel\<close>

text \<open>Over a live connection the operations of a tick succeed. That a read succeeds is asked of each read.\<close>

locale answering_channel =
  fixes P :: "'c modbus_port" and i :: nat and live :: "'c \<Rightarrow> bool"
  assumes command: "live c \<Longrightarrow> encode_f32 sp = Inr p \<Longrightarrow> \<exists>c'. send_command_default P i m sp c = (Inr (), c') \<and> live c'"
    and kick: "live c \<Longrightarrow> \<exists>c'. kick_channel P i c = (Inr (), c') \<and> live c'"
    and cycle: "live c \<Longrightarrow> \<exists>c'. client_set_cycle_index P i k c = (Inr (), c') \<and> live c'"
    and chemistry: "live c \<Longrightarrow> \<exists>c' c''. write_chassis_chemistry P v c = (Inr (), c') \<and>
      read_chassis_chemistry P c' = (Inr v, c'') \<and> live c''"

context modbus_link
begin

lemma answering: "answering_channel P i (\<lambda>c. sys_ok has (dev c) \<and> i < length (chans c))"
proof (unfold_locales, goal_cases)
  case (1 c sp p m)
  moreover obtain hi lo where "p = (hi, lo)" by (cases p)
  ultimately show ?case using send_command_run [of c i sp hi lo m 4500 600] by (auto simp: send_command_default_def)
next
  case (2 c)
  then show ?case using kick_channel_run [of c i] by auto
next
  case (3 c k)
  then show ?case using cycle_index_run [of c i k] by auto
next
  case (4 c v)
  then obtain c' cb c'' where "write_chassis_chemistry P v c = (Inr (), c')" "sys_ok has (dev c')"
    "read_chassis_chemistry P c' = (Inr v, c'')" "dev c'' = dev c'"
    "set_chemistry v (sys_block (dev c)\<lparr>cb_store := sys_store (dev c')\<rparr>) = Inr cb" "chans c' = cb_channels cb"
    using chemistry_run [of c v] by blast
  moreover have "length (cb_channels cb) = length (chans c)"
    using calculation(5) by (auto simp: set_chemistry_def Let_def split: sum.splits if_splits)
  ultimately show ?case using 4 by auto
qed

end

interpretation answering_direct: answering_channel "direct_port dict_ops" i "\<lambda>s. sys_ok has_dict s \<and> i < length (sys_channels s)" for i
  by (rule direct.answering)

definition healthy :: "'c modbus_port \<Rightarrow> nat \<Rightarrow> ('c \<Rightarrow> bool) \<Rightarrow> 'c \<Rightarrow> bool" where
  "healthy P i live c \<longleftrightarrow> (\<exists>snap c'. read_channel P i c = (Inr snap, c') \<and> sn_last_error snap = NONE \<and> live c')"

subsection \<open>The journal of an experiment\<close>

definition own_view :: "string \<Rightarrow> step_row list \<Rightarrow> (nat \<times> nat \<times> string \<times> step_state) list" where
  "own_view i rows = map (\<lambda>r. (sr_cycle_index r, sr_step_index r, sr_step_name r, sr_state r))
     (filter (\<lambda>r. sr_experiment_id r = i) rows)"

definition done_rows :: "schedule \<Rightarrow> nat \<Rightarrow> (nat \<times> nat \<times> string \<times> step_state) list" where
  "done_rows sched k = (let n = length (sch_steps sched) in
     map (\<lambda>q. (q div n, q mod n, step_name (sch_steps sched ! (q mod n)), StepCompleted)) [0..<k])"

definition running_row :: "schedule \<Rightarrow> nat \<Rightarrow> nat \<times> nat \<times> string \<times> step_state" where
  "running_row sched k = (let n = length (sch_steps sched) in
     (k div n, k mod n, step_name (sch_steps sched ! (k mod n)), StepRunning))"

lemma own_view_complete:
  assumes "own_view (ex_id x) rows = done_rows sched k @ [running_row sched k]"
    "ex_cycle_index x = k div length (sch_steps sched)" "ex_step_index x = k mod length (sch_steps sched)"
  shows "own_view (ex_id x) (complete_step_row x t rows) = done_rows sched (Suc k)"
proof -
  let ?f = "\<lambda>(c, s, nm, st). if c = ex_cycle_index x \<and> s = ex_step_index x then (c, s, nm, StepCompleted) else (c, s, nm, st)"
  have "own_view (ex_id x) (complete_step_row x t rows) = map ?f (own_view (ex_id x) rows)"
    by (induction rows) (auto simp: own_view_def complete_step_row_def)
  also have "\<dots> = done_rows sched (Suc k)"
    unfolding assms by (simp add: done_rows_def running_row_def Let_def)
  finally show ?thesis .
qed

lemma own_view_add:
  assumes "own_view (ex_id x) rows = done_rows sched k" "nm = step_name (sch_steps sched ! (k mod length (sch_steps sched)))"
    "ex_cycle_index x = k div length (sch_steps sched)" "ex_step_index x = k mod length (sch_steps sched)"
  shows "own_view (ex_id x) (add_step_row x nm t rows) = done_rows sched k @ [running_row sched k]"
proof -
  let ?n = "length (sch_steps sched)"
  have "\<not> (sr_experiment_id r = ex_id x \<and> sr_cycle_index r = ex_cycle_index x \<and> sr_step_index r = ex_step_index x)" if "r \<in> set rows" for r
  proof
    assume r: "sr_experiment_id r = ex_id x \<and> sr_cycle_index r = ex_cycle_index x \<and> sr_step_index r = ex_step_index x"
    then have "(ex_cycle_index x, ex_step_index x, sr_step_name r, sr_state r) \<in> set (own_view (ex_id x) rows)"
      using that by (force simp: own_view_def)
    then obtain q where "q < k" "q div ?n = k div ?n" "q mod ?n = k mod ?n"
      unfolding assms by (auto simp: done_rows_def Let_def)
    then show False by (metis div_mult_mod_eq less_irrefl)
  qed
  then have "add_step_row x nm t rows = rows @ [\<lparr>sr_experiment_id = ex_id x, sr_cycle_index = ex_cycle_index x,
      sr_step_index = ex_step_index x, sr_step_name = nm, sr_state = StepRunning, sr_started_at = t, sr_ended_at = None\<rparr>]"
    by (auto simp: add_step_row_def list_ex_iff)
  then show ?thesis using assms by (simp add: own_view_def running_row_def Let_def)
qed

subsection \<open>The stages of a run\<close>

text \<open>\<open>stage k t\<close>: the experiment is in the step with number \<open>k\<close>, counted through all cycles, since \<open>t\<close>.\<close>

definition at_stage :: "experiment_obj \<Rightarrow> nat \<Rightarrow> real \<Rightarrow> experiment_obj" where
  "at_stage x k t = x\<lparr>ex_status := Running, ex_cycle_index := k div length (sch_steps (ex_schedule x)),
     ex_step_index := k mod length (sch_steps (ex_schedule x)), ex_step_started_sim_s := t\<rparr>"

text \<open>What the schedule must be like for its commands to be sent: its setpoints fit into 32 bits.\<close>

definition drivable :: "experiment_obj \<Rightarrow> chemistry_params \<Rightarrow> bool" where
  "drivable x chem \<longleftrightarrow> schedule_ok (ex_schedule x) \<and> get_chemistry (sch_chemistry (ex_schedule x)) = Inr chem \<and>
     (\<forall>st \<in> set (sch_steps (ex_schedule x)).
        \<exists>p. encode_f32 (snd (step_to_command st (capacity_ah_nominal chem) (Some (max_charge_c_rate chem)))) = Inr p)"

definition last_stage :: "schedule \<Rightarrow> nat" where
  "last_stage sched = nat (sch_repeat sched) * length (sch_steps sched)"

definition stage :: "('c \<Rightarrow> bool) \<Rightarrow> experiment_obj \<Rightarrow> (nat \<Rightarrow> real) \<Rightarrow> nat \<Rightarrow> real \<Rightarrow> 'c world \<Rightarrow> bool" where
  "stage live x clk k t w \<longleftrightarrow> k < last_stage (ex_schedule x) \<and> w_exp w = at_stage x k t \<and> t \<le> clk (w_reads w) \<and>
     w_sim_clock w = clk \<and> w_faults w = [] \<and> (\<exists>c. w_ports w (ex_chassis_id x) = Some c \<and> live c) \<and>
     db_status (ex_id x) (w_experiment_rows w) = Some Running \<and>
     own_view (ex_id x) (w_step_rows w) = done_rows (ex_schedule x) k @ [running_row (ex_schedule x) k]"

definition ended_run :: "experiment_obj \<Rightarrow> (nat \<Rightarrow> real) \<Rightarrow> 'c world \<Rightarrow> bool" where
  "ended_run x clk w \<longleftrightarrow> ex_status (w_exp w) = Completed \<and> w_sim_clock w = clk \<and> w_faults w = [] \<and>
     db_status (ex_id x) (w_experiment_rows w) = Some Completed \<and>
     own_view (ex_id x) (w_step_rows w) = done_rows (ex_schedule x) (last_stage (ex_schedule x))"

text \<open>What may happen between two ticks.\<close>

definition undisturbed ::
  "'c modbus_port \<Rightarrow> ('c \<Rightarrow> bool) \<Rightarrow> experiment_obj \<Rightarrow> real \<Rightarrow> 'c world \<Rightarrow> 'c world \<Rightarrow> bool" where
  "undisturbed P live x d w w' \<longleftrightarrow> w_exp w' = w_exp w \<and> w_faults w' = [] \<and> w_sim_clock w' = w_sim_clock w \<and>
     w_sim_clock w (w_reads w) + d \<le> w_sim_clock w (w_reads w') \<and>
     own_view (ex_id x) (w_step_rows w') = own_view (ex_id x) (w_step_rows w) \<and>
     db_status (ex_id x) (w_experiment_rows w') = db_status (ex_id x) (w_experiment_rows w) \<and>
     (\<exists>c. w_ports w' (ex_chassis_id x) = Some c \<and> healthy P (ex_channel_idx x) live c)"

text \<open>The ticks of a running experiment, each after a pause.\<close>

fun tick_run :: "'c modbus_port \<Rightarrow> ('c world \<Rightarrow> 'c world) list \<Rightarrow> ('c world, unit) act" where
  "tick_run P [] = ret ()"
| "tick_run P (pause # ps) =
     seq_act (mod_act pause)
       (seq_act (bind_act (get_act (\<lambda>w. ex_status (w_exp w))) (\<lambda>st. when_act (st = Running) (step_one_tick P)))
         (tick_run P ps))"

fun step_limit :: "step \<Rightarrow> real option" where
  "step_limit (RestStep _ d) = Some d"
| "step_limit (CCStep _ _ c) = max_duration_s c"
| "step_limit (CVStep _ _ c) = max_duration_s c"

lemma step_limit_ends: "step_limit st = Some l \<Longrightarrow> l \<le> elapsed \<Longrightarrow> end_condition_met st v a elapsed cap"
  by (cases st) (auto simp: condition_met_def)

lemma stage_step:
  "k < last_stage sched \<Longrightarrow> sch_steps sched \<noteq> [] \<Longrightarrow> sch_steps sched ! (k mod length (sch_steps sched)) \<in> set (sch_steps sched)"
  by simp

text \<open>Numbering the steps through the cycles.\<close>

lemma next_stage:
  assumes "sch_steps (ex_schedule x) \<noteq> []"
  shows "next_position (at_stage x k t) = at_stage x (Suc k) t"
    "at_last_step (at_stage x k t) \<longleftrightarrow> Suc k mod length (sch_steps (ex_schedule x)) = 0"
proof -
  let ?n = "length (sch_steps (ex_schedule x))"
  have n: "0 < ?n" using assms by simp
  have "k mod ?n < ?n" using n by simp
  then have at: "at_last_step (at_stage x k t) \<longleftrightarrow> Suc (k mod ?n) = ?n"
    by (auto simp: at_last_step_def at_stage_def)
  then show "at_last_step (at_stage x k t) \<longleftrightarrow> Suc k mod ?n = 0" by (simp add: mod_Suc)
  show "next_position (at_stage x k t) = at_stage x (Suc k) t"
    using at by (auto simp: next_position_def at_stage_def mod_Suc div_Suc)
qed

lemma last_stage_reached:
  assumes "sch_steps sched \<noteq> []" "k < last_stage sched"
  shows "sch_repeat sched \<le> int (Suc k div length (sch_steps sched)) \<longleftrightarrow> Suc k = last_stage sched"
proof -
  let ?n = "length (sch_steps sched)"
  have n: "0 < ?n" using assms(1) by simp
  have "nat (sch_repeat sched) \<le> Suc k div ?n \<longleftrightarrow> last_stage sched \<le> Suc k"
    using n by (simp add: last_stage_def less_eq_div_iff_mult_less_eq)
  then show ?thesis using assms(2) by linarith
qed

subsection \<open>One tick\<close>

lemma seq_act_assoc: "seq_act (seq_act a b) c = seq_act a (seq_act b c)"
  by (rule ext) (simp add: seq_act_def split: prod.split sum.split)

context answering_channel
begin

lemma command_step_run:
  assumes "w_ports w (ex_chassis_id x) = Some c" "live c" "ex_channel_idx x = i"
    "encode_f32 (snd (step_to_command st (capacity_ah_nominal chem) (Some (max_charge_c_rate chem)))) = Inr p"
  shows "\<exists>c'. command_step P x chem st w = (Inr (), w\<lparr>w_ports := (w_ports w)(ex_chassis_id x \<mapsto> c')\<rparr>) \<and> live c'"
proof -
  obtain m sp where st: "step_to_command st (capacity_ah_nominal chem) (Some (max_charge_c_rate chem)) = (m, sp)" by fastforce
  obtain c1 where c1: "send_command_default P i m sp c = (Inr (), c1)" "live c1"
    using command [OF assms(2), of sp p m] assms(4) st by auto
  obtain c2 where "kick_channel P i c1 = (Inr (), c2)" "live c2" using kick [OF c1(2)] by blast
  with c1 assms st show ?thesis
    by (intro exI [of _ c2]) (simp add: command_step_def on_port_def seq_act_def)
qed

lemma start_step_run:
  assumes "w_ports w (ex_chassis_id x) = Some c" "live c" "ex_channel_idx x = i" "w_faults w = []"
    "ex_step_index x < length (sch_steps (ex_schedule x))" "get_chemistry (sch_chemistry (ex_schedule x)) = Inr chem"
    "encode_f32 (snd (step_to_command (sch_steps (ex_schedule x) ! ex_step_index x) (capacity_ah_nominal chem)
      (Some (max_charge_c_rate chem)))) = Inr p"
  shows "\<exists>c' q. start_step P b x w = (Inr (), w\<lparr>w_reads := Suc (Suc (w_reads w)),
      w_exp := (w_exp w)\<lparr>ex_step_started_sim_s := w_sim_clock w (w_reads w)\<rparr>,
      w_step_rows := add_step_row x (step_name (sch_steps (ex_schedule x) ! ex_step_index x)) (w_wall_clock w (Suc (w_reads w))) (w_step_rows w),
      w_context_queue := q, w_ports := (w_ports w)(ex_chassis_id x \<mapsto> c')\<rparr>) \<and> live c'"
proof -
  obtain c1 where c1: "client_set_cycle_index P i (int (ex_cycle_index x)) c = (Inr (), c1)" "live c1"
    using cycle [OF assms(2)] by blast
  let ?c = "if b then c1 else c"
  let ?w = "w\<lparr>w_reads := Suc (Suc (w_reads w)), w_exp := (w_exp w)\<lparr>ex_step_started_sim_s := w_sim_clock w (w_reads w)\<rparr>,
      w_step_rows := add_step_row x (step_name (sch_steps (ex_schedule x) ! ex_step_index x)) (w_wall_clock w (Suc (w_reads w))) (w_step_rows w),
      w_context_queue := put_nowait (CtxPublish (ex_chassis_id x) (ex_channel_idx x) (schedule_id (ex_schedule x))
        (step_name (sch_steps (ex_schedule x) ! ex_step_index x)) (ex_step_index x) (ex_cycle_index x) (ex_id x)) (w_context_queue w),
      w_ports := (w_ports w)(ex_chassis_id x \<mapsto> ?c)\<rparr>"
  have "w_ports ?w (ex_chassis_id x) = Some ?c" "live ?c" using assms(2) c1(2) by simp_all
  from command_step_run [OF this assms(3,7)] obtain c2 where
    c2: "command_step P x chem (sch_steps (ex_schedule x) ! ex_step_index x) ?w =
      (Inr (), ?w\<lparr>w_ports := (w_ports ?w)(ex_chassis_id x \<mapsto> c2)\<rparr>)" "live c2"
    by blast
  have self: "(w_ports w)(ex_chassis_id x \<mapsto> c) = w_ports w" using assms(1) by (simp add: fun_upd_idem)
  have "start_step P b x w = command_step P x chem (sch_steps (ex_schedule x) ! ex_step_index x) ?w"
    using assms c1(1) self
    by (cases b; cases w) (simp_all add: start_step_def insert_step_row_def publish_context_def nth_or_raise_def bind_act_def seq_act_def
        lift_sum_def now_sim_def now_utc_def upd_exp_def mod_act_def when_act_def ret_def on_port_def db_execute_def)
  with c2 show ?thesis by (intro exI [of _ c2] exI [of _ "w_context_queue ?w"]) simp
qed

lemma finish_run:
  assumes "w_ports w (ex_chassis_id x) = Some c" "live c" "ex_channel_idx x = i" "w_faults w = []"
  shows "\<exists>c' q. finish_experiment P x w = (Inr (), w\<lparr>w_exp := (w_exp w)\<lparr>ex_status := Completed\<rparr>,
      w_experiment_rows := set_status (ex_id x) Completed (w_wall_clock w (w_reads w)) (w_experiment_rows w),
      w_context_queue := q, w_ports := (w_ports w)(ex_chassis_id x \<mapsto> c')\<rparr>)"
proof -
  obtain p where "encode_f32 0 = Inr p" using encode_f32_small [of 0] by auto
  then obtain c1 where "send_command_default P i Idle 0 c = (Inr (), c1)" using command [OF assms(2)] by blast
  with assms show ?thesis
    by (intro exI [of _ c1] exI [of _ "put_nowait (CtxClear (ex_chassis_id x) (ex_channel_idx x)) (w_context_queue w)"])
      (simp add: finish_experiment_def mark_experiment_status_def clear_context_def upd_exp_def bind_act_def seq_act_def
        mod_act_def on_port_def db_execute_def)
qed


lemma advance_run:
  assumes "drivable x chem" "ex_channel_idx x = i" "k < last_stage (ex_schedule x)" "w_exp w = at_stage x k t" "mono clk"
    "w_sim_clock w = clk" "w_faults w = []" "w_ports w (ex_chassis_id x) = Some c" "live c"
    "db_status (ex_id x) (w_experiment_rows w) = Some Running"
    "own_view (ex_id x) (w_step_rows w) = done_rows (ex_schedule x) (Suc k)"
  shows "\<exists>w'. advance P w = (Inr (), w') \<and> clk (w_reads w) \<le> clk (w_reads w') \<and>
    ((\<exists>t'. stage live x clk (Suc k) t' w') \<or> ended_run x clk w')"
proof -
  let ?n = "length (sch_steps (ex_schedule x))" and ?x = "at_stage x (Suc k) t"
  have ne: "sch_steps (ex_schedule x) \<noteq> []" using assms(1) by (simp add: drivable_def schedule_ok_def)
  have same: "ex_schedule ?x = ex_schedule x" "ex_id ?x = ex_id x" "ex_chassis_id ?x = ex_chassis_id x" "ex_channel_idx ?x = i"
    "ex_cycle_index ?x = Suc k div ?n" "ex_step_index ?x = Suc k mod ?n"
    using assms(2) by (simp_all add: at_stage_def)
  let ?q = "if at_last_step (at_stage x k t) then put_nowait \<lparr>ev_t = w_wall_clock w (w_reads w), ev_experiment_id = ex_id x,
      ev_chassis_id = ex_chassis_id x, ev_channel_idx = i, ev_cycle_index = k div ?n,
      ev_schedule_id = schedule_id (ex_schedule x)\<rparr> (w_event_queue w) else w_event_queue w"
  let ?m = "if at_last_step (at_stage x k t) then Suc (w_reads w) else w_reads w"
  have "seq_act (when_act (at_last_step (at_stage x k t)) (enqueue_cycle_complete (at_stage x k t)))
      (upd_exp next_position) w = (Inr (), w\<lparr>w_reads := ?m, w_event_queue := ?q, w_exp := ?x\<rparr>)"
    using assms(2,4) next_stage(1) [OF ne, of k t]
    by (cases w) (simp add: enqueue_cycle_complete_def upd_exp_def when_act_def ret_def bind_act_def seq_act_def now_utc_def mod_act_def at_stage_def)
  then obtain q m where q: "seq_act (when_act (at_last_step (at_stage x k t)) (enqueue_cycle_complete (at_stage x k t)))
      (upd_exp next_position) w = (Inr (), w\<lparr>w_reads := m, w_event_queue := q, w_exp := ?x\<rparr>)" "w_reads w \<le> m"
    by (elim meta_allE [of _ ?q] meta_allE [of _ ?m] meta_impE) simp_all
  let ?w = "w\<lparr>w_reads := m, w_event_queue := q, w_exp := ?x\<rparr>"
  have w: "w_ports ?w (ex_chassis_id ?x) = Some c" "w_faults ?w = []" using assms same by simp_all
  have adv: "advance P w = (if sch_repeat (ex_schedule x) \<le> int (Suc k div ?n) then finish_experiment P ?x ?w
      else start_step P (at_last_step (at_stage x k t)) ?x ?w)"
  proof -
    have "advance P w = seq_act (seq_act (when_act (at_last_step (at_stage x k t)) (enqueue_cycle_complete (at_stage x k t)))
        (upd_exp next_position)) (bind_act (get_act w_exp) (\<lambda>y. if sch_repeat (ex_schedule y) \<le> int (ex_cycle_index y)
          then finish_experiment P y else start_step P (at_last_step (at_stage x k t)) y)) w"
      by (simp only: advance_def bind_act_Inr [OF get_act_run] seq_act_assoc assms(4))
    also have "\<dots> = (if sch_repeat (ex_schedule x) \<le> int (Suc k div ?n) then finish_experiment P ?x ?w
      else start_step P (at_last_step (at_stage x k t)) ?x ?w)"
      by (rule seq_act_Inr [THEN trans], rule q(1)) (simp add: bind_act_Inr [OF get_act_run] same)
    finally show ?thesis .
  qed
  have reads: "clk (w_reads w) \<le> clk m" using q(2) assms(5) by (rule monoD [rotated])
  show ?thesis
  proof (cases "Suc k = last_stage (ex_schedule x)")
    case True
    obtain c' q' where f: "finish_experiment P ?x ?w = (Inr (), ?w\<lparr>w_exp := (w_exp ?w)\<lparr>ex_status := Completed\<rparr>,
      w_experiment_rows := set_status (ex_id ?x) Completed (w_wall_clock ?w (w_reads ?w)) (w_experiment_rows ?w),
      w_context_queue := q', w_ports := (w_ports ?w)(ex_chassis_id ?x \<mapsto> c')\<rparr>)"
      using finish_run [OF w(1) assms(9) same(4) w(2)] by blast
    have "ended_run x clk (snd (finish_experiment P ?x ?w))"
      unfolding f using assms True same by (simp add: ended_run_def db_status_set)
    with f adv reads True show ?thesis
      using last_stage_reached [OF ne assms(3)] by (intro exI [of _ "snd (finish_experiment P ?x ?w)"]) simp
  next
    case False
    let ?st = "sch_steps (ex_schedule x) ! (Suc k mod ?n)"
    have "?st \<in> set (sch_steps (ex_schedule x))" using ne by simp
    then obtain p where p: "encode_f32 (snd (step_to_command ?st (capacity_ah_nominal chem) (Some (max_charge_c_rate chem)))) = Inr p"
      using assms(1) by (auto simp: drivable_def)
    have p': "encode_f32 (snd (step_to_command (sch_steps (ex_schedule ?x) ! ex_step_index ?x) (capacity_ah_nominal chem)
        (Some (max_charge_c_rate chem)))) = Inr p" "get_chemistry (sch_chemistry (ex_schedule ?x)) = Inr chem"
      using p assms(1) same by (simp_all add: drivable_def)
    have len: "ex_step_index ?x < length (sch_steps (ex_schedule ?x))" using ne same by simp
    obtain c' q' where f: "start_step P (at_last_step (at_stage x k t)) ?x ?w = (Inr (), ?w\<lparr>w_reads := Suc (Suc (w_reads ?w)),
      w_exp := (w_exp ?w)\<lparr>ex_step_started_sim_s := w_sim_clock ?w (w_reads ?w)\<rparr>,
      w_step_rows := add_step_row ?x (step_name (sch_steps (ex_schedule ?x) ! ex_step_index ?x)) (w_wall_clock ?w (Suc (w_reads ?w))) (w_step_rows ?w),
      w_context_queue := q', w_ports := (w_ports ?w)(ex_chassis_id ?x \<mapsto> c')\<rparr>)" "live c'"
      using start_step_run [OF w(1) assms(9) same(4) w(2) len p'(2,1)] by blast
    have "own_view (ex_id x) (add_step_row ?x (step_name ?st) u (w_step_rows w)) = done_rows (ex_schedule x) (Suc k) @ [running_row (ex_schedule x) (Suc k)]" for u
      using own_view_add [of ?x "w_step_rows w" "ex_schedule x" "Suc k" "step_name ?st" u] assms(11) same by simp
    then have "stage live x clk (Suc k) (clk m) (snd (start_step P (at_last_step (at_stage x k t)) ?x ?w))"
      unfolding f using assms False f(2) same monoD [OF assms(5), of m "Suc (Suc m)"] by (simp add: stage_def) (simp add: at_stage_def)
    moreover have "clk (w_reads w) \<le> clk (Suc (Suc m))"
      using reads monoD [OF assms(5), of m "Suc (Suc m)"] by simp
    ultimately show ?thesis
      using f adv False last_stage_reached [OF ne assms(3)]
      by (intro exI [of _ "snd (start_step P (at_last_step (at_stage x k t)) ?x ?w)"]) auto
  qed
qed

lemma tick_progress:
  assumes "drivable x chem" "ex_channel_idx x = i" "stage live x clk k t w0" "undisturbed P live x d w0 w" "mono clk" "0 < d"
  shows "\<exists>w'. step_one_tick P w = (Inr (), w') \<and> clk (w_reads w) \<le> clk (w_reads w') \<and>
    (stage live x clk k t w' \<and> (\<forall>l. step_limit (sch_steps (ex_schedule x) ! (k mod length (sch_steps (ex_schedule x)))) = Some l \<longrightarrow>
        clk (w_reads w) < t + l) \<or>
     (\<exists>t'. stage live x clk (Suc k) t' w') \<or> ended_run x clk w')"
proof -
  let ?n = "length (sch_steps (ex_schedule x))" and ?x = "at_stage x k t"
  let ?st = "sch_steps (ex_schedule x) ! (k mod ?n)"
  have ne: "sch_steps (ex_schedule x) \<noteq> []" using assms(1) by (simp add: drivable_def schedule_ok_def)
  have same: "ex_schedule ?x = ex_schedule x" "ex_id ?x = ex_id x" "ex_chassis_id ?x = ex_chassis_id x" "ex_channel_idx ?x = i"
    "ex_cycle_index ?x = k div ?n" "ex_step_index ?x = k mod ?n" "ex_step_started_sim_s ?x = t"
    using assms(2) by (simp_all add: at_stage_def)
  obtain c snap c1 where c: "w_ports w (ex_chassis_id x) = Some c" "read_channel P i c = (Inr snap, c1)" "sn_last_error snap = NONE" "live c1"
    using assms(2,4) by (auto simp: undisturbed_def healthy_def)
  have w: "w_exp w = ?x" "w_faults w = []" "w_sim_clock w = clk" "t \<le> clk (w_reads w0)" "k < last_stage (ex_schedule x)"
    "db_status (ex_id x) (w_experiment_rows w) = Some Running"
    "own_view (ex_id x) (w_step_rows w) = done_rows (ex_schedule x) k @ [running_row (ex_schedule x) k]"
    using assms(3,4) by (auto simp: stage_def undisturbed_def)
  let ?w = "w\<lparr>w_ports := (w_ports w)(ex_chassis_id x \<mapsto> c1), w_reads := Suc (w_reads w)\<rparr>"
  let ?met = "end_condition_met ?st (sn_voltage_v snap) (sn_current_a snap) (clk (w_reads w) - t) (capacity_ah_nominal chem)"
  have chem: "get_chemistry (sch_chemistry (ex_schedule x)) = Inr chem" using assms(1) by (simp add: drivable_def)
  have tick: "step_one_tick P w = (if ?met then seq_act (mark_step_completed ?x) (advance P) ?w else command_step P ?x chem ?st ?w)"
    using c chem w ne same
    by (simp add: step_one_tick_def bind_act_def get_act_def on_port_def lift_sum_def nth_or_raise_def now_sim_def)
  have mon: "clk (w_reads w) \<le> clk (Suc (w_reads w))" "clk (w_reads w) \<le> clk (Suc (Suc (w_reads w)))"
    using assms(5) by (simp_all add: monoD)
  show ?thesis
  proof (cases ?met)
    case True
    let ?w1 = "?w\<lparr>w_reads := Suc (Suc (w_reads w)), w_step_rows := complete_step_row ?x (w_wall_clock w (Suc (w_reads w))) (w_step_rows w)\<rparr>"
    have "mark_step_completed ?x ?w = (Inr (), ?w1)"
      using w by (simp add: mark_step_completed_def bind_act_def now_utc_def db_execute_def)
    then have t1: "step_one_tick P w = advance P ?w1" using tick True by (simp add: seq_act_def)
    have "own_view (ex_id x) (w_step_rows ?w1) = done_rows (ex_schedule x) (Suc k)"
      using own_view_complete [of ?x "w_step_rows w" "ex_schedule x" k] w same by simp
    then have "\<exists>w'. advance P ?w1 = (Inr (), w') \<and> clk (w_reads ?w1) \<le> clk (w_reads w') \<and>
        ((\<exists>t'. stage live x clk (Suc k) t' w') \<or> ended_run x clk w')"
      using w c by (intro advance_run [OF assms(1,2) w(5) _ assms(5), of _ t c1]) simp_all
    then obtain w' where "advance P ?w1 = (Inr (), w')" "clk (Suc (Suc (w_reads w))) \<le> clk (w_reads w')"
        "(\<exists>t'. stage live x clk (Suc k) t' w') \<or> ended_run x clk w'" by auto
    with t1 mon show ?thesis by (intro exI [of _ w']) auto
  next
    case False
    have "?st \<in> set (sch_steps (ex_schedule x))" using ne by simp
    then obtain p where p: "encode_f32 (snd (step_to_command ?st (capacity_ah_nominal chem) (Some (max_charge_c_rate chem)))) = Inr p"
      using assms(1) by (auto simp: drivable_def)
    have "w_ports ?w (ex_chassis_id ?x) = Some c1" using same by simp
    from command_step_run [OF this c(4) same(4) p] obtain c2 where
      c2: "command_step P ?x chem ?st ?w = (Inr (), ?w\<lparr>w_ports := (w_ports ?w)(ex_chassis_id ?x \<mapsto> c2)\<rparr>)" "live c2" by blast
    have "clk (w_reads w) < t + l" if "step_limit ?st = Some l" for l
      using step_limit_ends [OF that, of "clk (w_reads w) - t"] False by (cases "l \<le> clk (w_reads w) - t") auto
    moreover have "t \<le> clk (Suc (w_reads w))"
      using assms(3,4,6) mon(1) by (auto simp: undisturbed_def stage_def)
    then have "stage live x clk k t (?w\<lparr>w_ports := (w_ports ?w)(ex_chassis_id ?x \<mapsto> c2)\<rparr>)"
      using w c2(2) same by (simp add: stage_def)
    ultimately show ?thesis using tick False c2 mon by (intro exI [of _ "?w\<lparr>w_ports := (w_ports ?w)(ex_chassis_id ?x \<mapsto> c2)\<rparr>"]) simp
  qed
qed


lemma kickoff_stage:
  assumes "drivable x chem" "ex_channel_idx x = i" "w_exp w = x" "ex_cycle_index x = 0" "ex_step_index x = 0" "mono clk"
    "w_sim_clock w = clk" "w_faults w = []" "w_ports w (ex_chassis_id x) = Some c" "live c"
    "db_status (ex_id x) (w_experiment_rows w) \<noteq> None" "own_view (ex_id x) (w_step_rows w) = []"
  shows "\<exists>w' t. kickoff P w = (Inr (), w') \<and> stage live x clk 0 t w'"
proof -
  let ?sched = "ex_schedule x" and ?t = "clk (w_reads w)"
  let ?st = "sch_steps ?sched ! 0" and ?x = "at_stage x 0 ?t"
  have ne: "sch_steps ?sched \<noteq> []" and last: "0 < last_stage ?sched" and chem: "get_chemistry (sch_chemistry ?sched) = Inr chem"
    using assms(1) by (simp_all add: drivable_def schedule_ok_def last_stage_def)
  obtain v where v: "chemistry_id_for_name (sch_chemistry ?sched) = Inr v" using chem get_chemistry_iff_id by blast
  obtain c1 c2 where c12: "write_chassis_chemistry P v c = (Inr (), c1)" "read_chassis_chemistry P c1 = (Inr v, c2)" "live c2"
    using chemistry [OF assms(10)] by blast
  obtain c3 where c3: "client_set_cycle_index P i 0 c2 = (Inr (), c3)" "live c3" using cycle [OF c12(3)] by blast
  let ?rows = "add_step_row ?x (step_name ?st) (w_wall_clock w (Suc (w_reads w))) (w_step_rows w)"
  let ?w = "w\<lparr>w_exp := ?x, w_reads := Suc (Suc (w_reads w)),
      w_experiment_rows := set_status (ex_id x) Running (w_wall_clock w (Suc (w_reads w))) (w_experiment_rows w), w_step_rows := ?rows,
      w_ports := (w_ports w)(ex_chassis_id x \<mapsto> c3),
      w_context_queue := put_nowait (CtxPublish (ex_chassis_id x) i (schedule_id ?sched) (step_name ?st) 0 0 (ex_id x)) (w_context_queue w)\<rparr>"
  have x: "?x = x\<lparr>ex_status := Running, ex_step_started_sim_s := ?t\<rparr>" using assms(4,5) by (cases x) (simp add: at_stage_def)
  have run: "kickoff P w = command_step P ?x chem ?st ?w"
    unfolding x using assms ne chem v c12 c3
    by (cases w) (simp add: kickoff_def insert_step_row_def mark_experiment_status_def publish_context_def nth_or_raise_def bind_act_def
        seq_act_def lift_sum_def now_sim_def now_utc_def upd_exp_def mod_act_def get_act_def on_port_def db_execute_def)
  have "?st \<in> set (sch_steps ?sched)" using ne by simp
  then obtain p where p: "encode_f32 (snd (step_to_command ?st (capacity_ah_nominal chem) (Some (max_charge_c_rate chem)))) = Inr p"
    using assms(1) by (auto simp: drivable_def)
  have "w_ports ?w (ex_chassis_id ?x) = Some c3" "ex_channel_idx ?x = i" using assms(2) by (simp_all add: at_stage_def)
  from command_step_run [OF this(1) c3(2) this(2) p] obtain c4 where
    c4: "command_step P ?x chem ?st ?w = (Inr (), ?w\<lparr>w_ports := (w_ports ?w)(ex_chassis_id ?x \<mapsto> c4)\<rparr>)" "live c4" by blast
  have "own_view (ex_id x) ?rows = done_rows ?sched 0 @ [running_row ?sched 0]"
    using own_view_add [of ?x "w_step_rows w" ?sched 0] assms(12) by (simp add: at_stage_def done_rows_def)
  moreover have "?t \<le> clk (Suc (Suc (w_reads w)))" using assms(6) by (simp add: monoD)
  ultimately have "stage live x clk 0 ?t (?w\<lparr>w_ports := (w_ports ?w)(ex_chassis_id ?x \<mapsto> c4)\<rparr>)"
    using assms last c4(2) by (simp add: stage_def db_status_set) (simp add: at_stage_def)
  with run c4(1) show ?thesis by metis
qed

end

subsection \<open>All ticks\<close>

lemma tick_run_append: "tick_run P (ps @ qs) = seq_act (tick_run P ps) (tick_run P qs)"
  by (induction ps) (simp_all add: seq_act_assoc, rule ext, simp add: seq_act_def ret_def)

lemma tick_run_Cons: "tick_run P (pause # ps) w =
    (if ex_status (w_exp (pause w)) = Running then seq_act (step_one_tick P) (tick_run P ps) (pause w) else tick_run P ps (pause w))"
  by (simp add: seq_act_def bind_act_def mod_act_def get_act_def when_act_def ret_def)

definition pauses_ok :: "'c modbus_port \<Rightarrow> ('c \<Rightarrow> bool) \<Rightarrow> experiment_obj \<Rightarrow> real \<Rightarrow> (nat \<Rightarrow> real) \<Rightarrow> ('c world \<Rightarrow> 'c world) list \<Rightarrow> bool" where
  "pauses_ok P live x d clk ps \<longleftrightarrow>
     (\<forall>pause \<in> set ps. \<forall>w. w_faults w = [] \<and> w_sim_clock w = clk \<longrightarrow> undisturbed P live x d w (pause w))"

lemma pauses_ok_simps [simp]: "pauses_ok P live x d clk []"
  "pauses_ok P live x d clk (ps @ qs) \<longleftrightarrow> pauses_ok P live x d clk ps \<and> pauses_ok P live x d clk qs"
  by (auto simp: pauses_ok_def)

lemma pauses_ok_Cons: "pauses_ok P live x d clk (p # ps) \<longleftrightarrow>
    (\<forall>w. w_faults w = [] \<and> w_sim_clock w = clk \<longrightarrow> undisturbed P live x d w (p w)) \<and> pauses_ok P live x d clk ps"
  by (auto simp: pauses_ok_def)

lemma ended_stays:
  "ended_run x clk w \<Longrightarrow> pauses_ok P live x d clk ps \<Longrightarrow> \<exists>w'. tick_run P ps w = (Inr (), w') \<and> ended_run x clk w'"
proof (induction ps arbitrary: w)
  case (Cons p ps)
  then have "ended_run x clk (p w)" by (auto simp: pauses_ok_Cons ended_run_def undisturbed_def)
  with Cons show ?case by (auto simp: tick_run_Cons pauses_ok_Cons ended_run_def simp del: tick_run.simps)
qed (simp add: ret_def)

text \<open>How many ticks a step can last.\<close>

definition step_ticks :: "real \<Rightarrow> step \<Rightarrow> nat" where
  "step_ticks d st = (case step_limit st of None \<Rightarrow> 0 | Some l \<Rightarrow> max 1 (nat \<lceil>l / d\<rceil>))"

definition schedule_ticks :: "real \<Rightarrow> schedule \<Rightarrow> nat" where
  "schedule_ticks d sched = nat (sch_repeat sched) * sum_list (map (step_ticks d) (sch_steps sched))"

lemma step_ticks_enough: "step_limit st = Some l \<Longrightarrow> 0 < d \<Longrightarrow> 1 \<le> step_ticks d st \<and> l \<le> real (step_ticks d st) * d"
proof -
  assume l: "step_limit st = Some l" and d: "0 < d"
  have "l / d \<le> real (step_ticks d st)" using l by (simp add: step_ticks_def) linarith
  with d l show ?thesis by (simp add: field_simps step_ticks_def)
qed

lemma sum_cyclic: "xs \<noteq> [] \<Longrightarrow> sum_list (map (\<lambda>q. f (xs ! (q mod length xs))) [0..<m * length xs]) = m * sum_list (map f xs)"
  for f :: "'a \<Rightarrow> nat"
proof (induction m)
  case (Suc m)
  let ?n = "length xs"
  have "map (\<lambda>r. m * ?n + r) [0..<?n] = [m * ?n..<m * ?n + ?n]" by (rule nth_equalityI) simp_all
  then have "[0..<Suc m * ?n] = [0..<m * ?n] @ map (\<lambda>r. m * ?n + r) [0..<?n]"
    using upt_add_eq_append [of 0 "m * ?n" ?n] by (simp add: add.commute)
  moreover have "map (\<lambda>r. f (xs ! ((m * ?n + r) mod ?n))) [0..<?n] = map (\<lambda>r. f (xs ! r)) [0..<?n]" by simp
  moreover have "map (\<lambda>r. f (xs ! r)) [0..<?n] = map f xs" by (rule nth_equalityI) simp_all
  ultimately show ?case using Suc by (simp add: comp_def)
qed simp

lemma done_rows_cycles:
  assumes "sch_steps sched \<noteq> []"
  shows "done_rows sched (last_stage sched) =
    concat (map (\<lambda>c. map (\<lambda>(s, st). (c, s, step_name st, StepCompleted)) (enumerate 0 (sch_steps sched))) [0..<nat (sch_repeat sched)])"
proof -
  let ?n = "length (sch_steps sched)"
  have row: "map (\<lambda>q. (q div ?n, q mod ?n, step_name (sch_steps sched ! (q mod ?n)), StepCompleted)) [c * ?n..<c * ?n + ?n] =
      map (\<lambda>(s, st). (c, s, step_name st, StepCompleted)) (enumerate 0 (sch_steps sched))" for c
    using assms by (intro nth_equalityI) (auto simp: nth_enumerate_eq)
  have "map (\<lambda>q. (q div ?n, q mod ?n, step_name (sch_steps sched ! (q mod ?n)), StepCompleted)) [0..<m * ?n] =
      concat (map (\<lambda>c. map (\<lambda>(s, st). (c, s, step_name st, StepCompleted)) (enumerate 0 (sch_steps sched))) [0..<m])" for m
  proof (induction m)
    case (Suc m)
    have "[0..<Suc m * ?n] = [0..<m * ?n] @ [m * ?n..<m * ?n + ?n]" using upt_add_eq_append [of 0 "m * ?n" ?n] by (simp add: add.commute)
    with Suc row [of m] show ?case by simp
  qed simp
  then show ?thesis by (simp add: done_rows_def last_stage_def Let_def)
qed

context answering_channel
begin

lemma step_ends:
  assumes "drivable x chem" "ex_channel_idx x = i" "mono clk" "0 < d"
    "step_limit (sch_steps (ex_schedule x) ! (k mod length (sch_steps (ex_schedule x)))) = Some l"
  shows "stage live x clk k t w \<Longrightarrow> pauses_ok P live x d clk ps \<Longrightarrow> t + real j * d \<le> clk (w_reads w) \<Longrightarrow>
    l \<le> real (j + length ps) * d \<Longrightarrow> ps \<noteq> [] \<Longrightarrow>
    \<exists>ps1 ps2 w'. ps = ps1 @ ps2 \<and> tick_run P ps1 w = (Inr (), w') \<and> ((\<exists>t'. stage live x clk (Suc k) t' w') \<or> ended_run x clk w')"
proof (induction ps arbitrary: w j)
  case (Cons p ps)
  have un: "undisturbed P live x d w (p w)" using Cons.prems(1,2) by (auto simp: pauses_ok_Cons stage_def)
  have run: "ex_status (w_exp (p w)) = Running" using un Cons.prems(1) by (simp add: undisturbed_def stage_def at_stage_def)
  have later: "t + real (Suc j) * d \<le> clk (w_reads (p w))"
    using un Cons.prems(1,3) by (simp add: undisturbed_def stage_def algebra_simps)
  obtain w' where w': "step_one_tick P (p w) = (Inr (), w')" "clk (w_reads (p w)) \<le> clk (w_reads w')" and
    cases: "stage live x clk k t w' \<and> clk (w_reads (p w)) < t + l \<or> (\<exists>t'. stage live x clk (Suc k) t' w') \<or> ended_run x clk w'"
    using tick_progress [OF assms(1,2) Cons.prems(1) un assms(3,4)] assms(5) by auto
  have one: "tick_run P (p # qs) w = tick_run P qs w'" for qs
    using w'(1) run by (simp add: tick_run_Cons seq_act_def del: tick_run.simps)
  from cases show ?case
  proof (elim disjE conjE)
    assume st: "stage live x clk k t w'" and lt: "clk (w_reads (p w)) < t + l"
    then have "real (Suc j) * d < real (j + length (p # ps)) * d" using later Cons.prems(4) by linarith
    then have "ps \<noteq> []" using assms(4) by auto
    moreover have "l \<le> real (Suc j + length ps) * d" using Cons.prems(4) by simp
    moreover have "t + real (Suc j) * d \<le> clk (w_reads w')" using later w'(2) by linarith
    moreover have "pauses_ok P live x d clk ps" using Cons.prems(2) by (simp add: pauses_ok_Cons)
    ultimately obtain ps1 ps2 w2 where "ps = ps1 @ ps2" "tick_run P ps1 w' = (Inr (), w2)"
      "(\<exists>t'. stage live x clk (Suc k) t' w2) \<or> ended_run x clk w2"
      using Cons.IH [OF st] by blast
    then show ?thesis using one [of ps1] by (intro exI [of _ "p # ps1"] exI [of _ ps2] exI [of _ w2]) simp
  next
    assume "\<exists>t'. stage live x clk (Suc k) t' w'"
    then show ?thesis using one [of "[]"] by (intro exI [of _ "[p]"] exI [of _ ps] exI [of _ w']) (simp add: ret_def)
  next
    assume "ended_run x clk w'"
    then show ?thesis using one [of "[]"] by (intro exI [of _ "[p]"] exI [of _ ps] exI [of _ w']) (simp add: ret_def)
  qed
qed simp

lemma stages_end:
  assumes "drivable x chem" "ex_channel_idx x = i" "mono clk" "0 < d" "\<forall>st \<in> set (sch_steps (ex_schedule x)). step_limit st \<noteq> None"
  shows "stage live x clk k t w \<Longrightarrow> pauses_ok P live x d clk ps \<Longrightarrow>
    sum_list (map (\<lambda>q. step_ticks d (sch_steps (ex_schedule x) ! (q mod length (sch_steps (ex_schedule x))))) [k..<last_stage (ex_schedule x)]) \<le> length ps \<Longrightarrow>
    \<exists>w'. tick_run P ps w = (Inr (), w') \<and> ended_run x clk w'"
proof (induction "last_stage (ex_schedule x) - k" arbitrary: k t w ps)
  case 0
  then show ?case by (simp add: stage_def)
next
  case (Suc m)
  let ?n = "length (sch_steps (ex_schedule x))" and ?last = "last_stage (ex_schedule x)"
  let ?st = "sch_steps (ex_schedule x) ! (k mod ?n)"
  have k: "k < ?last" using Suc.prems(1) by (simp add: stage_def)
  have "sch_steps (ex_schedule x) \<noteq> []" using assms(1) by (simp add: drivable_def schedule_ok_def)
  then obtain l where l: "step_limit ?st = Some l" using assms(5) by (metis mod_less_divisor length_greater_0_conv nth_mem option.exhaust)
  note enough = step_ticks_enough [OF l assms(4)]
  let ?ps = "take (step_ticks d ?st) ps"
  have sum: "step_ticks d ?st + sum_list (map (\<lambda>q. step_ticks d (sch_steps (ex_schedule x) ! (q mod ?n))) [Suc k..<?last]) \<le> length ps"
    using Suc.prems(3) k by (simp add: upt_conv_Cons)
  then have len: "length ?ps = step_ticks d ?st" by simp
  have split: "ps = ?ps @ drop (step_ticks d ?st) ps" by simp
  have pok: "pauses_ok P live x d clk ?ps" "pauses_ok P live x d clk (drop (step_ticks d ?st) ps)"
    using Suc.prems(2) split by (metis pauses_ok_simps(2))+
  have "?ps \<noteq> []" "l \<le> real (0 + length ?ps) * d" using enough len by auto
  moreover have "t + real 0 * d \<le> clk (w_reads w)" using Suc.prems(1) by (simp add: stage_def)
  ultimately obtain ps1 ps2 w1 where ps: "?ps = ps1 @ ps2" "tick_run P ps1 w = (Inr (), w1)"
    "(\<exists>t'. stage live x clk (Suc k) t' w1) \<or> ended_run x clk w1"
    using step_ends [OF assms(1-4) l Suc.prems(1) pok(1), of 0] by blast
  let ?rest = "ps2 @ drop (step_ticks d ?st) ps"
  have rest: "ps = ps1 @ ?rest" using split ps(1) by (metis append.assoc)
  have rok: "pauses_ok P live x d clk ?rest" using pok ps(1) by simp
  have run: "tick_run P ps w = tick_run P ?rest w1"
    by (subst rest) (simp add: tick_run_append seq_act_def ps(2))
  from ps(3) show ?case
  proof (elim disjE exE)
    fix t' assume st: "stage live x clk (Suc k) t' w1"
    have "sum_list (map (\<lambda>q. step_ticks d (sch_steps (ex_schedule x) ! (q mod ?n))) [Suc k..<?last]) \<le> length ?rest"
      using sum by simp
    with Suc.hyps(1) [OF _ st rok] Suc.hyps(2) show ?thesis unfolding run by simp
  next
    assume "ended_run x clk w1"
    then show ?thesis unfolding run using rok by (rule ended_stays)
  qed
qed

end

text \<open>
  C10. Progress. An experiment whose steps all have a time limit (a rest has one) and whose setpoints fit
  into 32 bits, on a channel that answers and is not latched whenever a tick reads it, with a database
  that takes every statement: after its kickoff no tick raises, and once the ticks are as many as the
  schedule can need (\<open>schedule_ticks\<close>: per step its limit divided by the pause, at least one, times the
  repeats) the experiment is completed, in the object and in its row, and its journal holds exactly one
  completed row for each step of each cycle, in the order of the schedule.
\<close>

theorem experiment_completes:
  assumes "answering_channel P (ex_channel_idx x) live" "drivable x chem" "\<forall>st \<in> set (sch_steps (ex_schedule x)). step_limit st \<noteq> None"
    and "w_exp w = x" "ex_cycle_index x = 0" "ex_step_index x = 0" "mono (w_sim_clock w)" "w_faults w = []"
    and "w_ports w (ex_chassis_id x) = Some c" "live c"
    and "db_status (ex_id x) (w_experiment_rows w) = Some Pending" "own_view (ex_id x) (w_step_rows w) = []"
    and "0 < d" "pauses_ok P live x d (w_sim_clock w) ps" "schedule_ticks d (ex_schedule x) \<le> length ps"
  shows "\<exists>w'. seq_act (kickoff P) (tick_run P ps) w = (Inr (), w') \<and> ex_status (w_exp w') = Completed \<and>
    db_status (ex_id x) (w_experiment_rows w') = Some Completed \<and>
    own_view (ex_id x) (w_step_rows w') = concat (map (\<lambda>c. map (\<lambda>(s, st). (c, s, step_name st, StepCompleted))
      (enumerate 0 (sch_steps (ex_schedule x)))) [0..<nat (sch_repeat (ex_schedule x))])"
proof -
  let ?sched = "ex_schedule x"
  have ne: "sch_steps ?sched \<noteq> []" using assms(2) by (simp add: drivable_def schedule_ok_def)
  obtain w1 t where w1: "kickoff P w = (Inr (), w1)" "stage live x (w_sim_clock w) 0 t w1"
    using answering_channel.kickoff_stage [OF assms(1,2) refl assms(4-7) refl assms(8-10) _ assms(12)] assms(11) by auto
  have "sum_list (map (\<lambda>q. step_ticks d (sch_steps ?sched ! (q mod length (sch_steps ?sched)))) [0..<last_stage ?sched]) \<le> length ps"
    using assms(15) sum_cyclic [OF ne, of "step_ticks d"] by (simp add: schedule_ticks_def last_stage_def)
  then obtain w' where "tick_run P ps w1 = (Inr (), w')" "ended_run x (w_sim_clock w) w'"
    using answering_channel.stages_end [OF assms(1,2) refl assms(7,13,3) w1(2) assms(14)] by blast
  with w1(1) show ?thesis
    by (intro exI [of _ w']) (simp add: seq_act_def ended_run_def done_rows_cycles [OF ne])
qed

text \<open>Two cycles of a rest of three seconds, with a pause of at least a second before each tick.\<close>

definition rest_exp :: experiment_obj where
  "rest_exp = demo_exp\<lparr>ex_status := Pending, ex_schedule := demo_schedule\<lparr>sch_steps := [RestStep ''rest'' 3]\<rparr>\<rparr>"

lemma experiment_completes_witness:
  "\<exists>(s :: (nat \<Rightarrow> int option) chassis_sys) w w'.
    seq_act (kickoff (direct_port dict_ops)) (tick_run (direct_port dict_ops)
      (replicate 6 (\<lambda>w. w\<lparr>w_reads := Suc (w_reads w), w_ports := [1 \<mapsto> s]\<rparr>))) w = (Inr (), w') \<and>
    own_view ''e1'' (w_step_rows w) = [] \<and> db_status ''e1'' (w_experiment_rows w') = Some Completed \<and>
    own_view ''e1'' (w_step_rows w') = [(0, 0, ''rest'', StepCompleted), (1, 0, ''rest'', StepCompleted)]"
proof -
  obtain s :: "(nat \<Rightarrow> int option) chassis_sys" and snap s0 where s: "sys_ok has_dict s" "length (sys_channels s) = 1"
    "read_channel (direct_port dict_ops) 0 s = (Inr snap, s0)" "sn_last_error snap = NONE"
    using mirrored_channel by blast
  have "s0 = s" using direct.read_channel_regs [OF s(1), of 0] s(2,3) by auto
  let ?x = rest_exp and ?live = "\<lambda>s. sys_ok has_dict s \<and> 0 < length (sys_channels s)"
  let ?p = "\<lambda>w :: (nat \<Rightarrow> int option) chassis_sys world. w\<lparr>w_reads := Suc (w_reads w), w_ports := [1 \<mapsto> s]\<rparr>"
  let ?w = "(demo_world [] [1 \<mapsto> s])\<lparr>w_exp := rest_exp, w_step_rows := [], w_experiment_rows := [demo_row Pending]\<rparr>"
  have x: "ex_chassis_id ?x = 1" "ex_channel_idx ?x = 0" "ex_id ?x = ''e1''" "ex_cycle_index ?x = 0" "ex_step_index ?x = 0"
    "sch_steps (ex_schedule ?x) = [RestStep ''rest'' 3]" "sch_repeat (ex_schedule ?x) = 2" "sch_chemistry (ex_schedule ?x) = ''NMC''"
    by (simp_all add: rest_exp_def demo_exp_def demo_schedule_def)
  have w: "w_exp ?w = rest_exp" "w_sim_clock ?w = real" "w_faults ?w = []" "w_ports ?w 1 = Some s" "w_step_rows ?w = []"
    "db_status ''e1'' (w_experiment_rows ?w) = Some Pending"
    by (simp_all add: demo_world_def demo_row_def)
  have "schedule_ok (ex_schedule ?x)"
    by (simp add: rest_exp_def demo_schedule_def schedule_ok_def MAX_CHASSIS_def MAX_CHANNELS_PER_CHASSIS_def)
  moreover obtain p where "encode_f32 0 = Inr p" using encode_f32_small [of 0] by auto
  ultimately have dr: "drivable ?x chem_NMC"
    by (simp add: drivable_def x get_chemistry_def CHEMISTRIES_def)
  have "healthy (direct_port dict_ops) 0 ?live s" using s \<open>s0 = s\<close> by (auto simp: healthy_def)
  then have pok: "pauses_ok (direct_port dict_ops) ?live ?x 1 (w_sim_clock ?w) (replicate 6 ?p)"
    by (simp add: pauses_ok_def undisturbed_def x w(2))
  have enough: "schedule_ticks 1 (ex_schedule ?x) \<le> length (replicate 6 ?p)" by (simp add: schedule_ticks_def step_ticks_def x)
  have chan: "answering_channel (direct_port dict_ops) (ex_channel_idx ?x) ?live"
    unfolding x by (rule answering_direct.answering_channel_axioms)
  have lim: "\<forall>st \<in> set (sch_steps (ex_schedule ?x)). step_limit st \<noteq> None" by (simp add: x)
  have mono: "mono (w_sim_clock ?w)" by (simp add: w(2) mono_def)
  have port: "w_ports ?w (ex_chassis_id ?x) = Some s" "?live s" using s(1,2) w(4) x(1) by simp_all
  have rows: "db_status (ex_id ?x) (w_experiment_rows ?w) = Some Pending" "own_view (ex_id ?x) (w_step_rows ?w) = []"
    using w(5,6) x(3) by (simp_all add: own_view_def)
  obtain w' where w': "seq_act (kickoff (direct_port dict_ops)) (tick_run (direct_port dict_ops) (replicate 6 ?p)) ?w = (Inr (), w')"
    "db_status (ex_id ?x) (w_experiment_rows w') = Some Completed"
    "own_view (ex_id ?x) (w_step_rows w') = concat (map (\<lambda>c. map (\<lambda>(s, st). (c, s, step_name st, StepCompleted))
      (enumerate 0 (sch_steps (ex_schedule ?x)))) [0..<nat (sch_repeat (ex_schedule ?x))])"
    using experiment_completes [OF chan dr lim w(1) x(4,5) mono w(3) port rows zero_less_one pok enough]
    by (elim exE conjE) (rule that)
  have "own_view ''e1'' (w_step_rows w') = [(0, 0, ''rest'', StepCompleted), (1, 0, ''rest'', StepCompleted)]"
    using w'(3) unfolding x by (simp add: numeral_2_eq_2)
  with w'(1,2) rows(2) show ?thesis unfolding x(3)
    by (intro exI [of _ s] exI [of _ ?w] exI [of _ w'] conjI)
qed

end
