(* ===== verification/Orch_Interleave.thy ===== *)
theory Orch_Interleave
  imports Orch_Main
begin

section \<open>The keepalive sweep under every interleaving\<close>

text \<open>
  \<open>channel_keepalive_loop\<close> kicks the chassis concurrently: \<open>asyncio.gather\<close> runs one coroutine per chassis, each
  kicking its channels one after another, and they interleave at every await. \<open>channel_keepalive_pass\<close> runs them one
  after another. Here a turn lets any chassis make its next kick, so a list of chassis is an interleaving; every
  one that lets all coroutines come to their end leaves the world of the sequential pass.
\<close>

subsection \<open>Turns\<close>

text \<open>What the coroutine of each chassis still has to kick; an error other than \<open>OSError\<close> ends the coroutine.\<close>

definition keepalive_turn ::
  "'c modbus_port \<Rightarrow> int \<Rightarrow> (int \<Rightarrow> nat list) \<times> 'c world \<Rightarrow> (int \<Rightarrow> nat list) \<times> 'c world" where
  "keepalive_turn P cid s =
     (case s of (left, w) \<Rightarrow>
        (case left cid of
           [] \<Rightarrow> (left, w)
         | i # is \<Rightarrow>
             (case on_port cid (kick_channel P i) w of
                (Inr _, w') \<Rightarrow> (left(cid := is), w')
              | (Inl e, w') \<Rightarrow> (left(cid := if e = OSErr then is else []), w'))))"

definition keepalive_turns ::
  "'c modbus_port \<Rightarrow> int list \<Rightarrow> (int \<Rightarrow> nat list) \<times> 'c world \<Rightarrow> (int \<Rightarrow> nat list) \<times> 'c world" where
  "keepalive_turns P cids = fold (keepalive_turn P) cids"

text \<open>The kicks of a pass, by chassis.\<close>

definition keepalive_kicks :: "'c world \<Rightarrow> int \<Rightarrow> nat list" where
  "keepalive_kicks w cid = map ex_channel_idx (filter (\<lambda>x. ex_chassis_id x = cid) (running_on_bench w))"

subsection \<open>Where the ports end\<close>

fun port_run :: "'c modbus_port \<Rightarrow> nat list \<Rightarrow> 'c \<Rightarrow> 'c" where
  "port_run P [] c = c"
| "port_run P (i # is) c =
     (case kick_channel P i c of
        (Inr _, c') \<Rightarrow> port_run P is c'
      | (Inl e, c') \<Rightarrow> if e = OSErr then port_run P is c' else c')"

definition settled :: "'c modbus_port \<Rightarrow> (int \<Rightarrow> nat list) \<times> 'c world \<Rightarrow> 'c world" where
  "settled P s = (case s of (left, w) \<Rightarrow> w\<lparr>w_ports := (\<lambda>cid. map_option (port_run P (left cid)) (w_ports w cid))\<rparr>)"

definition on_bench :: "(int \<Rightarrow> nat list) \<times> 'c world \<Rightarrow> bool" where
  "on_bench s \<longleftrightarrow> (\<forall>cid. fst s cid \<noteq> [] \<longrightarrow> w_ports (snd s) cid \<noteq> None)"

lemma port_run_Nil_opt [simp]: "map_option (port_run P []) r = r"
  by (cases r) simp_all

lemma settled_done [simp]: "settled P ((\<lambda>_. []), w) = w"
  by (simp add: settled_def)

lemma turn_invariant:
  assumes "on_bench s"
  shows "on_bench (keepalive_turn P cid s) \<and> settled P (keepalive_turn P cid s) = settled P s"
proof -
  obtain left w where s: "s = (left, w)" by (cases s)
  show ?thesis
  proof (cases "left cid")
    case Nil
    then show ?thesis using assms by (simp add: keepalive_turn_def s)
  next
    case (Cons i "is")
    then have "left cid \<noteq> []" by simp
    then have "w_ports w cid \<noteq> None" using assms unfolding on_bench_def s fst_conv snd_conv by blast
    then obtain c where c: "w_ports w cid = Some c" by blast
    obtain r c' where k: "kick_channel P i c = (r, c')" by (cases "kick_channel P i c")
    define is' where "is' = (case r of Inr _ \<Rightarrow> is | Inl e \<Rightarrow> if e = OSErr then is else [])"
    have t: "keepalive_turn P cid s = (left(cid := is'), w\<lparr>w_ports := (w_ports w)(cid \<mapsto> c')\<rparr>)"
      by (cases r) (simp_all add: keepalive_turn_def s Cons on_port_def c k is'_def)
    have "port_run P (left cid) c = port_run P is' c'" by (cases r) (simp_all add: Cons k is'_def)
    then have "(\<lambda>k. map_option (port_run P ((left(cid := is')) k)) (((w_ports w)(cid \<mapsto> c')) k)) =
        (\<lambda>k. map_option (port_run P (left k)) (w_ports w k))"
      by (simp add: fun_eq_iff c)
    then have "settled P (keepalive_turn P cid s) = settled P s"
      unfolding t unfolding settled_def s prod.case by simp
    moreover have "on_bench (keepalive_turn P cid s)" using assms unfolding on_bench_def t unfolding s by auto
    ultimately show ?thesis by simp
  qed
qed

lemma turns_invariant:
  "on_bench s \<Longrightarrow> on_bench (keepalive_turns P cids s) \<and> settled P (keepalive_turns P cids s) = settled P s"
  unfolding keepalive_turns_def by (induction cids arbitrary: s) (simp_all add: turn_invariant)

text \<open>Each turn of a chassis shortens what it has to do, and no other turn touches it.\<close>

lemma turn_left:
  "length (fst (keepalive_turn P cid s) c) \<le> length (fst s c) - (if c = cid then 1 else 0)"
  by (auto simp: keepalive_turn_def split: prod.split sum.split list.split)

lemma turns_left: "length (fst (keepalive_turns P cids s) c) \<le> length (fst s c) - count_list cids c"
proof (induction cids arbitrary: s)
  case (Cons cid cids)
  have "length (fst (keepalive_turns P (cid # cids) s) c) \<le> length (fst (keepalive_turn P cid s) c) - count_list cids c"
    using Cons.IH [of "keepalive_turn P cid s"] by (simp add: keepalive_turns_def)
  with turn_left [of P cid s c] show ?case by (auto split: if_splits)
qed (simp add: keepalive_turns_def)

subsection \<open>The sequential pass\<close>

lemma map_of_group_add:
  "map_of (group_add k x g) c = (if c = k then Some ((case map_of g k of None \<Rightarrow> [] | Some ys \<Rightarrow> ys) @ [x]) else map_of g c)"
  by (induction k x g rule: group_add.induct) auto

lemma keys_group_add: "fst ` set (group_add k x g) = insert k (fst ` set g)"
  by (induction k x g rule: group_add.induct) auto

lemma distinct_group_add: "distinct (map fst g) \<Longrightarrow> distinct (map fst (group_add k x g))"
  by (induction k x g rule: group_add.induct) (auto simp: keys_group_add)

lemma map_of_group_by_key:
  "map_of (group_by_key key xs) c = (if filter (\<lambda>x. key x = c) xs = [] then None else Some (filter (\<lambda>x. key x = c) xs))"
  by (induction xs rule: rev_induct) (auto simp: group_by_key_def map_of_group_add)

lemma distinct_group_by_key: "distinct (map fst (group_by_key key xs))"
  by (induction xs rule: rev_induct) (simp_all add: group_by_key_def distinct_group_add)

lemma kick_chassis_channels_run:
  assumes "\<And>a vs c. fst (mb_write P a vs c) \<noteq> Inl Killed" "w_ports w cid = Some c"
  shows "catch_act (kick_chassis_channels P cid is) any_exception (\<lambda>_. ret ()) w =
    (Inr (), w\<lparr>w_ports := (w_ports w)(cid \<mapsto> port_run P is c)\<rparr>)"
  using assms(2)
proof (induction "is" arbitrary: w c)
  case Nil
  then have "(w_ports w)(cid \<mapsto> c) = w_ports w" by (auto simp: fun_eq_iff)
  then show ?case by (simp add: kick_chassis_channels_def catch_act_def ret_def)
next
  case (Cons i "is")
  obtain r c' where k: "kick_channel P i c = (r, c')" by (cases "kick_channel P i c")
  have nk: "r \<noteq> Inl Killed" using assms(1) k by (metis fst_conv kick_channel_def)
  let ?w = "w\<lparr>w_ports := (w_ports w)(cid \<mapsto> c')\<rparr>"
  have op: "on_port cid (kick_channel P i) w = (r, ?w)" by (simp add: on_port_def Cons.prems k)
  have step: "kick_chassis_channels P cid (i # is) w =
      (if r = Inr () \<or> r = Inl OSErr then kick_chassis_channels P cid is ?w else (r, ?w))"
    by (cases r) (auto simp: kick_chassis_channels_def seq_act_def catch_act_def op ret_def)
  show ?case
  proof (cases "r = Inr () \<or> r = Inl OSErr")
    case True
    then have "port_run P (i # is) c = port_run P is c'" by (auto simp: k)
    moreover have "catch_act (kick_chassis_channels P cid (i # is)) any_exception (\<lambda>_. ret ()) w =
        catch_act (kick_chassis_channels P cid is) any_exception (\<lambda>_. ret ()) ?w"
      using step True by (simp only: catch_act_def if_True)
    moreover have "catch_act (kick_chassis_channels P cid is) any_exception (\<lambda>_. ret ()) ?w =
        (Inr (), ?w\<lparr>w_ports := (w_ports ?w)(cid \<mapsto> port_run P is c')\<rparr>)"
      by (rule Cons.IH) simp
    moreover have "?w\<lparr>w_ports := (w_ports ?w)(cid \<mapsto> q)\<rparr> = w\<lparr>w_ports := (w_ports w)(cid \<mapsto> q)\<rparr>" for q by simp
    ultimately show ?thesis by (simp only:)
  next
    case False
    then obtain e where "r = Inl e" "e \<noteq> OSErr" "e \<noteq> Killed" using nk by (cases r) auto
    then have "catch_act (kick_chassis_channels P cid (i # is)) any_exception (\<lambda>_. ret ()) w = (Inr (), ?w)"
      using step by (simp add: catch_act_def ret_def)
    moreover have "port_run P (i # is) c = c'" using \<open>r = Inl e\<close> \<open>e \<noteq> OSErr\<close> by (simp add: k)
    ultimately show ?thesis by (simp only:)
  qed
qed

lemma gather_kicks_run:
  assumes "\<And>a vs c. fst (mb_write P a vs c) \<noteq> Inl Killed"
    and "distinct (map fst groups)" "\<forall>cid \<in> fst ` set groups. w_ports w cid \<noteq> None"
  shows "gather_chassis (\<lambda>cid ys. kick_chassis_channels P cid (map ex_channel_idx ys)) groups w =
    (Inr (), w\<lparr>w_ports := (\<lambda>cid. map_option
       (port_run P (case map_of groups cid of None \<Rightarrow> [] | Some ys \<Rightarrow> map ex_channel_idx ys)) (w_ports w cid))\<rparr>)"
  using assms(2,3)
proof (induction groups arbitrary: w)
  case Nil
  then show ?case by (simp add: gather_chassis_def ret_def option.map_ident)
next
  case (Cons g groups)
  obtain k ys where g: "g = (k, ys)" by (cases g)
  then obtain c where c: "w_ports w k = Some c" using Cons.prems(2) by auto
  let ?w = "w\<lparr>w_ports := (w_ports w)(k \<mapsto> port_run P (map ex_channel_idx ys) c)\<rparr>"
  have new: "map_of groups k = None" using Cons.prems(1) by (simp add: g map_of_eq_None_iff)
  have "gather_chassis (\<lambda>cid ys. kick_chassis_channels P cid (map ex_channel_idx ys)) (g # groups) w =
      gather_chassis (\<lambda>cid ys. kick_chassis_channels P cid (map ex_channel_idx ys)) groups ?w"
    using kick_chassis_channels_run [OF assms(1) c, of "map ex_channel_idx ys"] by (simp add: gather_chassis_def seq_act_def g)
  also have "\<dots> = (Inr (), ?w\<lparr>w_ports := (\<lambda>cid. map_option
       (port_run P (case map_of groups cid of None \<Rightarrow> [] | Some ys \<Rightarrow> map ex_channel_idx ys)) (w_ports ?w cid))\<rparr>)"
    using Cons.prems by (intro Cons.IH) auto
  finally show ?case
    using new c by (simp add: g) (auto simp: fun_eq_iff intro!: arg_cong [of _ _ "\<lambda>ps. w\<lparr>w_ports := ps\<rparr>"])
qed

lemma keepalive_pass_run:
  assumes "\<And>a vs c. fst (mb_write P a vs c) \<noteq> Inl Killed"
  shows "channel_keepalive_pass P w = (Inr (), settled P (keepalive_kicks w, w))"
proof -
  let ?gs = "group_by_key ex_chassis_id (running_on_bench w)"
  have kicks: "(case map_of ?gs cid of None \<Rightarrow> [] | Some ys \<Rightarrow> map ex_channel_idx ys) = keepalive_kicks w cid" for cid
    by (simp add: map_of_group_by_key keepalive_kicks_def)
  have ports: "\<forall>cid \<in> fst ` set ?gs. w_ports w cid \<noteq> None"
  proof
    fix cid assume "cid \<in> fst ` set ?gs"
    then have "map_of ?gs cid \<noteq> None" by (simp add: map_of_eq_None_iff)
    then have "filter (\<lambda>x. ex_chassis_id x = cid) (running_on_bench w) \<noteq> []" by (auto simp: map_of_group_by_key split: if_splits)
    then show "w_ports w cid \<noteq> None" by (auto simp: filter_empty_conv running_on_bench_def)
  qed
  show ?thesis
    using gather_kicks_run [OF assms distinct_group_by_key ports]
    by (simp only: channel_keepalive_pass_def bind_act_def get_act_def prod.case sum.case kicks settled_def)
qed

text \<open>
  C22. The keepalive pass does not depend on the interleaving. In whatever order the chassis make their
  kicks, once each has had as many turns as it has running channels every coroutine has come to its end, and
  the world is the one the sequential pass leaves, whichever kicks failed on the way.
\<close>

theorem keepalive_any_order:
  assumes "\<And>a vs c. fst (mb_write P a vs c) \<noteq> Inl Killed"
    and "\<forall>cid. length (keepalive_kicks w cid) \<le> count_list cids cid"
  shows "\<exists>w'. keepalive_turns P cids (keepalive_kicks w, w) = ((\<lambda>_. []), w') \<and> channel_keepalive_pass P w = (Inr (), w')"
proof -
  have b: "on_bench (keepalive_kicks w, w)"
    by (auto simp: on_bench_def keepalive_kicks_def filter_empty_conv running_on_bench_def)
  obtain left w' where t: "keepalive_turns P cids (keepalive_kicks w, w) = (left, w')"
    by (cases "keepalive_turns P cids (keepalive_kicks w, w)")
  have "left cid = []" for cid
    using turns_left [of P cids "(keepalive_kicks w, w)" cid] assms(2) [rule_format, of cid] by (simp add: t)
  then have "left = (\<lambda>_. [])" by blast
  with turns_invariant [OF b, of P cids] t have "settled P (keepalive_kicks w, w) = w'" by simp
  with t \<open>left = (\<lambda>_. [])\<close> keepalive_pass_run [OF assms(1)] show ?thesis by simp
qed

definition counting_port :: "nat modbus_port" where
  "counting_port = \<lparr>mb_read = (\<lambda>_ _ n. (Inl OSErr, n)), mb_write = (\<lambda>_ _ n. (Inr (), Suc n))\<rparr>"

definition two_chassis :: "nat world" where
  "two_chassis = (demo_world [] [1 \<mapsto> 0, 2 \<mapsto> 0])\<lparr>w_experiments :=
     map (\<lambda>cid. demo_exp\<lparr>ex_chassis_id := cid, ex_status := Running\<rparr>) [1, 2, 1]\<rparr>"

lemma keepalive_any_order_witness:
  "\<exists>w'. keepalive_turns counting_port [1, 2, 1] (keepalive_kicks two_chassis, two_chassis) = ((\<lambda>_. []), w') \<and>
    channel_keepalive_pass counting_port two_chassis = (Inr (), w')"
proof (rule keepalive_any_order)
  show "fst (mb_write counting_port a vs c) \<noteq> Inl Killed" for a vs c by (simp add: counting_port_def)
  show "\<forall>cid. length (keepalive_kicks two_chassis cid) \<le> count_list [1, 2, 1] cid"
    by (simp add: keepalive_kicks_def two_chassis_def running_on_bench_def demo_world_def)
qed

end
