(* ===== verification/Json.thy ===== *)
theory Json
  imports Text
begin

section \<open>Decoded JSON and what Python does with it\<close>

text \<open>
  The services decode MQTT payloads with \<open>json.loads\<close>, which is a parameter of their models, and
  then index and convert the result. Python raises different exceptions for a missing key, for
  a value that cannot be indexed and for a failed conversion, and the handlers of the sources
  catch only some of them. \<open>float\<close> of a text and \<open>str\<close> of a value are parameters.
  Non-finite numbers are outside the model.
\<close>

datatype json =
    JNull | JBool bool | JInt int | JNum real | JStr string | JArr "json list" | JObj "(string \<times> json) list"

text \<open>\<open>v[k]\<close> with a string key.\<close>

fun index :: "json \<Rightarrow> string \<Rightarrow> exn + json" where
  "index (JObj kvs) k = (case map_of (rev kvs) k of None \<Rightarrow> Inl KeyErr | Some v \<Rightarrow> Inr v)"
| "index _ k = Inl TypeErr"

text \<open>\<open>v.get(k)\<close>: only objects have the method.\<close>

fun get :: "json \<Rightarrow> string \<Rightarrow> exn + json" where
  "get (JObj kvs) k = Inr (case map_of (rev kvs) k of None \<Rightarrow> JNull | Some v \<Rightarrow> v)"
| "get _ k = Inl AttributeErr"

fun to_float :: "(string \<Rightarrow> exn + real) \<Rightarrow> json \<Rightarrow> exn + real" where
  "to_float fl (JInt i) = Inr (real_of_int i)"
| "to_float fl (JNum r) = Inr r"
| "to_float fl (JBool b) = Inr (if b then 1 else 0)"
| "to_float fl (JStr s) = fl s"
| "to_float fl _ = Inl TypeErr"

fun to_int :: "json \<Rightarrow> exn + int" where
  "to_int (JInt i) = Inr i"
| "to_int (JNum r) = Inr (py_int r)"
| "to_int (JBool b) = Inr (if b then 1 else 0)"
| "to_int (JStr s) = parse_int s"
| "to_int _ = Inl TypeErr"

text \<open>\<open>v.get(k, d)\<close>, and \<open>f(v[k]) if v.get(k) is not None else None\<close>.\<close>

definition get_default :: "json \<Rightarrow> string \<Rightarrow> json \<Rightarrow> exn + json" where
  "get_default v k d = (case v of JObj kvs \<Rightarrow> Inr (case map_of (rev kvs) k of None \<Rightarrow> d | Some x \<Rightarrow> x) | _ \<Rightarrow> Inl AttributeErr)"

definition opt_float :: "(string \<Rightarrow> exn + real) \<Rightarrow> json \<Rightarrow> string \<Rightarrow> exn + real option" where
  "opt_float fl v k =
     bind_sum (get v k) (\<lambda>x. if x = JNull then Inr None
       else bind_sum (to_float fl x) (\<lambda>r. Inr (Some r)))"

text \<open>
  MQTT payloads. \<open>Empty\<close> is the payload of length zero, which clears a retained message and is
  no JSON text; the bytes of the others are a parameter type.
\<close>

datatype 'p payload = Empty | Body 'p

fun load :: "('p \<Rightarrow> exn + json) \<Rightarrow> 'p payload \<Rightarrow> exn + json" where
  "load loads Empty = Inl JSONDecodeErr"
| "load loads (Body p) = loads p"

text \<open>Formatting an \<open>int\<close>, and topics of three levels.\<close>

definition show_int :: "int \<Rightarrow> string" where
  "show_int i = (if i < 0 then CHR ''-'' # show_nat (nat (- i)) else show_nat (nat i))"

definition topic3 :: "string \<Rightarrow> int \<Rightarrow> nat \<Rightarrow> string" where
  "topic3 kind a b = kind @ CHR ''/'' # show_int a @ CHR ''/'' # show_nat b"

lemma show_int_chars: "c \<in> set (show_int i) \<Longrightarrow> is_digit c \<or> c = CHR ''-''"
  by (auto simp: show_int_def dest: show_nat_digits split: if_splits)

lemma parse_int_minus: "parse_int (CHR ''-'' # show_nat n) = Inr (- int n)"
proof -
  have "strip (CHR ''-'' # show_nat n) = CHR ''-'' # show_nat n"
  proof (rule strip_no_space, rule ballI)
    fix c assume "c \<in> set (CHR ''-'' # show_nat n)"
    then show "\<not> is_space c"
      using digit_not_space [OF show_nat_digits] by (cases "c = CHR ''-''") (simp add: is_space_def, simp)
  qed
  moreover have "split_on CHR ''_'' (show_nat n) = [show_nat n]"
    by (rule split_on_free) (use show_nat_digits not_digit_chars in blast)
  ultimately show ?thesis by (simp add: parse_int_def Let_def)
qed

lemma parse_int_show_int [simp]: "parse_int (show_int i) = Inr i"
  by (simp add: show_int_def parse_int_minus)

lemma split_topic3 [simp]: "CHR ''/'' \<notin> set kind \<Longrightarrow> split_on CHR ''/'' (topic3 kind a b) = [kind, show_int a, show_nat b]"
proof -
  have "CHR ''/'' \<notin> set (show_int a)" using show_int_chars [of "CHR ''/''" a] by auto
  moreover have "CHR ''/'' \<notin> set (show_nat b)" using show_nat_digits [of "CHR ''/''" b] by auto
  moreover assume "CHR ''/'' \<notin> set kind"
  ultimately show ?thesis by (simp add: topic3_def split_on_append split_on_free)
qed

lemma index_error: "index v k = Inl e \<Longrightarrow> e = KeyErr \<and> (\<exists>kvs. v = JObj kvs) \<or> e = TypeErr"
  by (cases v) (auto split: option.splits)

lemma to_int_error: "to_int v = Inl e \<Longrightarrow> e \<in> {TypeErr, ValueErr}"
  by (cases v) (auto dest: parse_int_error)

end
