(* ===== verification/Watchdog.thy ===== *)
theory Watchdog
  imports Json "HOL-Library.Multiset" "HOL-Library.AList"
begin

section \<open>The watchdog service\<close>

text \<open>
  \<open>services/watchdog\<close>: the edge trigger (\<open>dedupe.py\<close>), the alert sink (\<open>alerts.py\<close>) and the four
  monitors, one pass of each loop per definition. The watchdog only watches and alerts. Clocks
  are arguments; the database and the broker answer through the sink's oracles.
\<close>

subsection \<open>Rising edges\<close>

datatype edge_key = KTripped int | KUnreachable int | KHeartbeat | KFleet | KChamber string

type_synonym edges = "edge_key \<rightharpoonup> bool"

definition armed :: "edge_key \<Rightarrow> edges \<Rightarrow> bool" where
  "armed k s = (case s k of None \<Rightarrow> False | Some b \<Rightarrow> b)"

definition edge_update :: "edge_key \<Rightarrow> bool \<Rightarrow> edges \<Rightarrow> bool \<times> edges" where
  "edge_update k condition s = (condition \<and> \<not> armed k s, s(k \<mapsto> condition))"

definition edge_reset :: "edge_key \<Rightarrow> edges \<Rightarrow> edges" where
  "edge_reset k s = s(k := None)"

text \<open>The contract between the monitors and the trigger.\<close>

locale dedupe =
  fixes update :: "'k \<Rightarrow> bool \<Rightarrow> 's \<Rightarrow> bool \<times> 's" and level :: "'k \<Rightarrow> 's \<Rightarrow> bool"
  assumes fires: "fst (update k c s) \<longleftrightarrow> c \<and> \<not> level k s"
    and level_update: "level j (snd (update k c s)) = (if j = k then c else level j s)"
begin

text \<open>Feeding a sequence of conditions under one key fires exactly at its rising edges.\<close>

fun feed :: "'k \<Rightarrow> bool list \<Rightarrow> 's \<Rightarrow> bool list \<times> 's" where
  "feed k [] s = ([], s)"
| "feed k (c # cs) s = (let (b, s) = update k c s; (bs, s) = feed k cs s in (b # bs, s))"

lemma feed_level: "level k (snd (feed k cs s)) = last (level k s # cs)"
  by (induction cs arbitrary: s) (simp_all add: split_beta Let_def level_update)

lemma feed_other: "j \<noteq> k \<Longrightarrow> level j (snd (feed k cs s)) = level j s"
  by (induction cs arbitrary: s) (simp_all add: split_beta Let_def level_update)

lemma feed_nth: "i < length cs \<Longrightarrow> fst (feed k cs s) ! i \<longleftrightarrow> cs ! i \<and> \<not> (level k s # cs) ! i"
proof (induction cs arbitrary: s i)
  case (Cons c cs)
  then show ?case
    by (cases i) (simp_all add: split_beta Let_def fires level_update)
qed simp

end

interpretation edge: dedupe edge_update armed
  by unfold_locales (auto simp: edge_update_def armed_def)

subsection \<open>The alert sink\<close>

datatype severity = Info | Warning | Critical

record alert =
  a_severity :: severity
  a_source :: string
  a_message :: string
  a_chassis_id :: "int option"
  a_channel_idx :: "int option"

definition RETRY_QUEUE_CAP :: nat where "RETRY_QUEUE_CAP = 1000"

text \<open>
  \<open>sk_db\<close> is the alerts table, \<open>sk_published\<close> what the broker took. An oracle that has run out
  answers yes.
\<close>

record sink =
  sk_retry :: "alert list"
  sk_db :: "alert list"
  sk_published :: "alert list"
  sk_db_answers :: "bool list"
  sk_mqtt_answers :: "bool list"

definition next_answer :: "bool list \<Rightarrow> bool" where
  "next_answer xs = (xs = [] \<or> hd xs)"

definition insert_db :: "alert \<Rightarrow> sink \<Rightarrow> bool \<times> sink" where
  "insert_db a s =
     (let s' = s\<lparr>sk_db_answers := tl (sk_db_answers s)\<rparr>
      in if next_answer (sk_db_answers s) then (True, s'\<lparr>sk_db := sk_db s' @ [a]\<rparr>) else (False, s'))"

text \<open>\<open>deque(maxlen=...)\<close>: a full queue drops its oldest entry.\<close>

definition push_retry :: "alert \<Rightarrow> alert list \<Rightarrow> alert list" where
  "push_retry a q = (if length q < RETRY_QUEUE_CAP then q @ [a] else tl q @ [a])"

definition publish_critical :: "alert \<Rightarrow> sink \<Rightarrow> sink" where
  "publish_critical a s =
     (let s' = s\<lparr>sk_mqtt_answers := tl (sk_mqtt_answers s)\<rparr>
      in if next_answer (sk_mqtt_answers s) then s'\<lparr>sk_published := sk_published s' @ [a]\<rparr> else s')"

lemma insert_db_frame [simp]:
  "sk_retry (snd (insert_db a s)) = sk_retry s" "sk_published (snd (insert_db a s)) = sk_published s"
  by (simp_all add: insert_db_def Let_def)

lemma publish_critical_frame [simp]:
  "sk_retry (publish_critical a s) = sk_retry s" "sk_db (publish_critical a s) = sk_db s"
  by (simp_all add: publish_critical_def Let_def)

function drain :: "sink \<Rightarrow> sink" where
  "drain s =
     (case sk_retry s of
        [] \<Rightarrow> s
      | queued # _ \<Rightarrow>
          (let (ok, s') = insert_db queued s
           in if ok then drain (s'\<lparr>sk_retry := tl (sk_retry s')\<rparr>) else s'))"
  by pat_completeness auto
termination
  by (relation "measure (\<lambda>s. length (sk_retry s))") (auto simp: insert_db_def Let_def split: if_splits)

declare drain.simps [simp del]

definition emit :: "alert \<Rightarrow> sink \<Rightarrow> sink" where
  "emit a s =
     (let (ok, s') = insert_db a (drain s);
          s'' = (if ok then s' else s'\<lparr>sk_retry := push_retry a (sk_retry s')\<rparr>)
      in if a_severity a = Critical then publish_critical a s'' else s'')"

text \<open>
  The same operation with its await points. The four monitors share the sink, and between an
  await and its continuation other tasks run. \<open>Draining\<close> is the head of the loop, the others
  wait for the answer of a statement; \<open>Raised\<close> is an exception leaving \<open>emit\<close>.
\<close>

datatype emit_pc = Draining alert | AwaitRetry alert alert | AwaitInsert alert | AwaitPublish alert | Done | Raised exn

fun emit_step :: "emit_pc \<Rightarrow> sink \<Rightarrow> emit_pc \<times> sink" where
  "emit_step (Draining a) s = (case sk_retry s of [] \<Rightarrow> (AwaitInsert a, s) | q # _ \<Rightarrow> (AwaitRetry a q, s))"
| "emit_step (AwaitRetry a q) s =
     (let (ok, s') = insert_db q s
      in if \<not> ok then (AwaitInsert a, s')
         else if sk_retry s' = [] then (Raised IndexErr, s')
         else (Draining a, s'\<lparr>sk_retry := tl (sk_retry s')\<rparr>))"
| "emit_step (AwaitInsert a) s =
     (let (ok, s') = insert_db a s;
          s'' = (if ok then s' else s'\<lparr>sk_retry := push_retry a (sk_retry s')\<rparr>)
      in (if a_severity a = Critical then AwaitPublish a else Done, s''))"
| "emit_step (AwaitPublish a) s = (Done, publish_critical a s)"
| "emit_step pc s = (pc, s)"

text \<open>A task runs alone, or two tasks interleave; \<open>True\<close> schedules the first.\<close>

fun emit_alone :: "nat \<Rightarrow> emit_pc \<Rightarrow> sink \<Rightarrow> emit_pc \<times> sink" where
  "emit_alone 0 pc s = (pc, s)"
| "emit_alone (Suc n) pc s = (let (pc', s') = emit_step pc s in emit_alone n pc' s')"

fun emit_two :: "bool list \<Rightarrow> emit_pc \<Rightarrow> emit_pc \<Rightarrow> sink \<Rightarrow> emit_pc \<times> emit_pc \<times> sink" where
  "emit_two [] p q s = (p, q, s)"
| "emit_two (b # bs) p q s =
     (if b then (let (p', s') = emit_step p s in emit_two bs p' q s')
      else (let (q', s') = emit_step q s in emit_two bs p q' s'))"

lemma emit_alone_add: "emit_alone (m + n) pc s = (let (pc', s') = emit_alone m pc s in emit_alone n pc' s')"
  by (induction m arbitrary: pc s) (simp_all add: split_beta Let_def)

lemma emit_alone_done: "emit_alone n Done s = (Done, s)"
  by (induction n) simp_all

text \<open>Alone, the stepwise operation reaches the end and is the function.\<close>

lemma drain_alone: "\<exists>n \<le> 2 * length (sk_retry s) + 1. emit_alone n (Draining a) s = (AwaitInsert a, drain s)"
proof (induction s rule: drain.induct)
  case (1 s)
  show ?case
  proof (cases "sk_retry s")
    case Nil
    then show ?thesis by (intro exI [of _ 1]) (simp add: drain.simps [of s])
  next
    case (Cons q qs)
    obtain ok s' where i: "insert_db q s = (ok, s')" by (cases "insert_db q s")
    have r: "sk_retry s' = q # qs" using insert_db_frame(1) [of q s] i Cons by simp
    show ?thesis
    proof (cases ok)
      case True
      have "\<exists>n \<le> 2 * length (sk_retry (s'\<lparr>sk_retry := tl (sk_retry s')\<rparr>)) + 1.
          emit_alone n (Draining a) (s'\<lparr>sk_retry := tl (sk_retry s')\<rparr>) = (AwaitInsert a, drain (s'\<lparr>sk_retry := tl (sk_retry s')\<rparr>))"
        using 1 [OF Cons i [symmetric]] True i by simp
      then obtain n where n: "n \<le> 2 * length qs + 1" "emit_alone n (Draining a) (s'\<lparr>sk_retry := qs\<rparr>) =
          (AwaitInsert a, drain (s'\<lparr>sk_retry := qs\<rparr>))" by (auto simp: r)
      then show ?thesis using Cons i r True
        by (intro exI [of _ "Suc (Suc n)"]) (simp add: drain.simps [of s])
    next
      case False
      then show ?thesis using Cons i r
        by (intro exI [of _ 2]) (simp add: drain.simps [of s] numeral_2_eq_2)
    qed
  qed
qed

lemma emit_alone_emit: "emit_alone (2 * length (sk_retry s) + 4) (Draining a) s = (Done, emit a s)"
proof -
  obtain n where n: "n \<le> 2 * length (sk_retry s) + 1" "emit_alone n (Draining a) s = (AwaitInsert a, drain s)"
    using drain_alone by blast
  have two: "emit_alone 2 (AwaitInsert a) t = (Done, let (ok, s') = insert_db a t;
          s'' = (if ok then s' else s'\<lparr>sk_retry := push_retry a (sk_retry s')\<rparr>)
      in if a_severity a = Critical then publish_critical a s'' else s'')" for t
    by (simp add: numeral_2_eq_2 split_beta Let_def)
  obtain k where k: "2 * length (sk_retry s) + 4 = n + (2 + k)" using n(1) by (auto simp: le_iff_add)
  show ?thesis unfolding k emit_alone_add n(2) by (simp add: two emit_alone_done emit_def)
qed

subsection \<open>What the sink conserves\<close>

definition kept :: "sink \<Rightarrow> alert multiset" where
  "kept s = mset (sk_db s) + mset (sk_retry s)"

lemma drain_kept: "kept (drain s) = kept s \<and> length (sk_retry (drain s)) \<le> length (sk_retry s)"
proof (induction s rule: drain.induct)
  case (1 s)
  show ?case
  proof (cases "sk_retry s")
    case (Cons q qs)
    obtain ok s' where i: "insert_db q s = (ok, s')" by (cases "insert_db q s")
    then have s': "sk_retry s' = q # qs" "sk_db s' = (if ok then sk_db s @ [q] else sk_db s)"
      using Cons by (auto simp: insert_db_def Let_def split: if_splits)
    show ?thesis
      using 1 [OF Cons i [symmetric]] Cons i s'
      by (cases ok) (simp_all add: drain.simps [of s] kept_def le_SucI)
  qed (simp add: drain.simps [of s])
qed

lemma emit_kept:
  assumes "length (sk_retry s) < RETRY_QUEUE_CAP"
  shows "kept (emit a s) = add_mset a (kept s)"
  using drain_kept [of s] assms
  by (auto simp: emit_def insert_db_def publish_critical_def push_retry_def kept_def split_beta Let_def)


definition demo_alert :: "string \<Rightarrow> alert" where
  "demo_alert m = \<lparr>a_severity = Critical, a_source = ''watchdog.chassis'', a_message = m, a_chassis_id = Some 1, a_channel_idx = None\<rparr>"


subsection \<open>The chassis monitor\<close>

text \<open>\<open>ChassisProbe.read_status\<close>: the answer of the connect and of the read are the client library's.\<close>

definition read_status :: "bool \<Rightarrow> exn + int list option \<Rightarrow> bool \<Rightarrow> (exn + int) \<times> bool" where
  "read_status connect_ok answer is_connected =
     (if \<not> is_connected \<and> \<not> connect_ok then (Inl OSErr, False)
      else case answer of
          Inl e \<Rightarrow> if e \<in> {OSErr, ValueErr} then (Inl OSErr, False) else (Inl e, True)
        | Inr None \<Rightarrow> (Inl OSErr, False)
        | Inr (Some []) \<Rightarrow> (Inl IndexErr, True)
        | Inr (Some (r # _)) \<Rightarrow> (Inr r, True))"

definition chassis_alert :: "string \<Rightarrow> int \<Rightarrow> alert" where
  "chassis_alert m cid = \<lparr>a_severity = Critical, a_source = ''watchdog.chassis'', a_message = m,
     a_chassis_id = Some cid, a_channel_idx = None\<rparr>"

text \<open>One probe of one poll: the alerts it emits, and the trigger afterwards. Other exceptions leave the loop.\<close>

definition chassis_probe :: "bool \<Rightarrow> int \<Rightarrow> exn + int \<Rightarrow> edges \<Rightarrow> exn + alert list \<times> edges" where
  "chassis_probe in_grace cid res s =
     (case res of
        Inl e \<Rightarrow>
          if e \<noteq> OSErr then Inl e
          else (let (fire, s1) = edge_update (KUnreachable cid) True s;
                    (_, s2) = edge_update (KTripped cid) False s1
                in Inr (if fire \<and> \<not> in_grace then [chassis_alert ''chassis_unreachable'' cid] else [], s2))
      | Inr status \<Rightarrow>
          (let (_, s1) = edge_update (KUnreachable cid) False s;
               (fire, s2) = edge_update (KTripped cid) (status = 1) s1
           in Inr (if fire \<and> \<not> in_grace then [chassis_alert ''chassis_watchdog_tripped'' cid] else [], s2)))"

fun chassis_poll :: "bool \<Rightarrow> (int \<times> (exn + int)) list \<Rightarrow> edges \<Rightarrow> exn + alert list \<times> edges" where
  "chassis_poll in_grace [] s = Inr ([], s)"
| "chassis_poll in_grace ((cid, res) # ps) s =
     bind_sum (chassis_probe in_grace cid res s) (\<lambda>(as, s1).
       bind_sum (chassis_poll in_grace ps s1) (\<lambda>(bs, s2). Inr (as @ bs, s2)))"

text \<open>The loop over a sequence of polls, numbered from 1 as \<open>poll_count\<close> is.\<close>

fun chassis_polls :: "nat \<Rightarrow> nat \<Rightarrow> (int \<times> (exn + int)) list list \<Rightarrow> edges \<Rightarrow> exn + alert list list \<times> edges" where
  "chassis_polls grace poll_count [] s = Inr ([], s)"
| "chassis_polls grace poll_count (p # ps) s =
     (let poll_count = Suc poll_count in
      bind_sum (chassis_poll (poll_count \<le> grace) p s) (\<lambda>(as, s1).
        bind_sum (chassis_polls grace poll_count ps s1) (\<lambda>(ass, s2). Inr (as # ass, s2))))"

text \<open>A sequence of results of a single probe.\<close>

abbreviation readable :: "exn + int \<Rightarrow> bool" where
  "readable r \<equiv> (case r of Inl e \<Rightarrow> e = OSErr | Inr _ \<Rightarrow> True)"

abbreviation tripped :: "exn + int \<Rightarrow> bool" where
  "tripped r \<equiv> r = Inr 1"

abbreviation unreachable :: "exn + int \<Rightarrow> bool" where
  "unreachable r \<equiv> r = Inl OSErr"

lemma chassis_probe_run:
  assumes "readable r"
  shows "\<exists>s'. chassis_probe g cid r s = Inr ((if unreachable r \<and> \<not> armed (KUnreachable cid) s \<and> \<not> g then [chassis_alert ''chassis_unreachable'' cid] else []) @
      (if tripped r \<and> \<not> armed (KTripped cid) s \<and> \<not> g then [chassis_alert ''chassis_watchdog_tripped'' cid] else []), s') \<and>
    armed (KUnreachable cid) s' = unreachable r \<and> armed (KTripped cid) s' = tripped r"
  using assms by (cases r) (auto simp: chassis_probe_def edge_update_def armed_def)

lemma chassis_polls_run:
  assumes "list_all readable rs"
  shows "\<exists>ass s'. chassis_polls g n (map (\<lambda>r. [(cid, r)]) rs) s = Inr (ass, s') \<and> length ass = length rs \<and>
    (\<forall>i < length rs. ass ! i =
       (if unreachable (rs ! i) \<and> \<not> (armed (KUnreachable cid) s # map unreachable rs) ! i \<and> g \<le> n + i then [chassis_alert ''chassis_unreachable'' cid] else []) @
       (if tripped (rs ! i) \<and> \<not> (armed (KTripped cid) s # map tripped rs) ! i \<and> g \<le> n + i then [chassis_alert ''chassis_watchdog_tripped'' cid] else []))"
  using assms
proof (induction rs arbitrary: s n)
  case (Cons r rs)
  from chassis_probe_run [of r "Suc n \<le> g" cid s] Cons.prems obtain s1 where s1:
    "chassis_probe (Suc n \<le> g) cid r s = Inr ((if unreachable r \<and> \<not> armed (KUnreachable cid) s \<and> \<not> Suc n \<le> g then [chassis_alert ''chassis_unreachable'' cid] else []) @
      (if tripped r \<and> \<not> armed (KTripped cid) s \<and> \<not> Suc n \<le> g then [chassis_alert ''chassis_watchdog_tripped'' cid] else []), s1)"
    "armed (KUnreachable cid) s1 = unreachable r" "armed (KTripped cid) s1 = tripped r" by auto
  from Cons.IH [of "Suc n" s1] Cons.prems obtain ass s2 where s2:
    "chassis_polls g (Suc n) (map (\<lambda>r. [(cid, r)]) rs) s1 = Inr (ass, s2)" "length ass = length rs"
    "\<forall>i < length rs. ass ! i =
       (if unreachable (rs ! i) \<and> \<not> (unreachable r # map unreachable rs) ! i \<and> g \<le> Suc n + i then [chassis_alert ''chassis_unreachable'' cid] else []) @
       (if tripped (rs ! i) \<and> \<not> (tripped r # map tripped rs) ! i \<and> g \<le> Suc n + i then [chassis_alert ''chassis_watchdog_tripped'' cid] else [])"
    unfolding s1(2,3) by auto
  show ?case
  proof (intro exI conjI allI impI)
    show "chassis_polls g n (map (\<lambda>r. [(cid, r)]) (r # rs)) s = Inr (
      ((if unreachable r \<and> \<not> armed (KUnreachable cid) s \<and> \<not> Suc n \<le> g then [chassis_alert ''chassis_unreachable'' cid] else []) @
      (if tripped r \<and> \<not> armed (KTripped cid) s \<and> \<not> Suc n \<le> g then [chassis_alert ''chassis_watchdog_tripped'' cid] else [])) # ass, s2)"
      using s1(1) s2(1) by (simp add: Let_def)
  qed (use s2(2,3) in \<open>auto simp: nth_Cons' less_Suc_eq_0_disj not_less_eq_eq\<close>)
qed simp

text \<open>
  Chassis alerts. Polling one chassis after the start of the watchdog, an alert for a trip (for
  an unreachable chassis) is raised at a poll exactly when the chassis is tripped (unreachable)
  there, was not at the poll before, and the poll is past the grace. So a chassis that is
  tripped from the first poll on is never reported: the grace uses up its only edge.
\<close>

theorem chassis_alerts_exact:
  assumes "list_all readable rs"
  shows "\<exists>ass s'. chassis_polls grace 0 (map (\<lambda>r. [(cid, r)]) rs) Map.empty = Inr (ass, s') \<and>
    (\<forall>i < length rs.
      (chassis_alert ''chassis_watchdog_tripped'' cid \<in> set (ass ! i) \<longleftrightarrow>
        tripped (rs ! i) \<and> (i = 0 \<or> \<not> tripped (rs ! (i - 1))) \<and> grace \<le> i) \<and>
      (chassis_alert ''chassis_unreachable'' cid \<in> set (ass ! i) \<longleftrightarrow>
        unreachable (rs ! i) \<and> (i = 0 \<or> \<not> unreachable (rs ! (i - 1))) \<and> grace \<le> i)) \<and>
    (1 \<le> grace \<and> list_all tripped rs \<longrightarrow> concat ass = [])"
proof -
  from chassis_polls_run [OF assms, of grace 0 cid Map.empty] obtain ass s' where a:
    "chassis_polls grace 0 (map (\<lambda>r. [(cid, r)]) rs) Map.empty = Inr (ass, s')" "length ass = length rs"
    "\<And>i. i < length rs \<Longrightarrow> ass ! i =
       (if unreachable (rs ! i) \<and> \<not> (False # map unreachable rs) ! i \<and> grace \<le> i then [chassis_alert ''chassis_unreachable'' cid] else []) @
       (if tripped (rs ! i) \<and> \<not> (False # map tripped rs) ! i \<and> grace \<le> i then [chassis_alert ''chassis_watchdog_tripped'' cid] else [])"
    by (auto simp: armed_def)
  have shift: "(False # map f rs) ! i \<longleftrightarrow> i \<noteq> 0 \<and> f (rs ! (i - 1))" if "i < length rs" for i f
    using that by (cases i) auto
  have "concat ass = []" if t: "1 \<le> grace" "list_all tripped rs"
  proof -
    have "ass ! i = []" if "i < length rs" for i
      using a(3) [OF that] shift [OF that] t that by (cases i) (auto simp: list_all_length)
    then show ?thesis using a(2) by (auto simp: in_set_conv_nth)
  qed
  with a(1) show ?thesis
    by (intro exI [of _ ass] exI [of _ s']) (auto simp: a(3) shift chassis_alert_def)
qed

lemma chassis_alerts_exact_witness:
  "\<exists>ass s'. chassis_polls 1 0 (map (\<lambda>r. [(3, r)]) (replicate 100 (Inr 1))) Map.empty = Inr (ass, s') \<and> concat ass = []"
proof -
  have r: "list_all readable (replicate 100 (Inr 1))" and t: "list_all tripped (replicate 100 (Inr 1))"
    by (simp_all add: list_all_length)
  from chassis_alerts_exact [OF r, of 1 3] t show ?thesis by (elim exE conjE) (intro exI conjI, assumption, simp only: order_refl simp_thms)
qed

subsection \<open>The heartbeat and fleet monitors\<close>

definition critical :: "string \<Rightarrow> string \<Rightarrow> alert" where
  "critical source message = \<lparr>a_severity = Critical, a_source = source, a_message = message,
     a_chassis_id = None, a_channel_idx = None\<rparr>"

definition heartbeat_check :: "real \<Rightarrow> real \<Rightarrow> real \<Rightarrow> edges \<Rightarrow> alert list \<times> edges" where
  "heartbeat_check threshold_s now last_rx s =
     (let gap = now - last_rx; (fire, s') = edge_update KHeartbeat (threshold_s < gap) s
      in (if fire then [critical ''watchdog.heartbeat'' ''orchestrator_heartbeat_stale''] else [], s'))"

text \<open>The rows are status and \<open>finished_at\<close>; a failed query counts as 0.\<close>

definition count_recent_failures :: "bool \<Rightarrow> real \<Rightarrow> real \<Rightarrow> (string \<times> real option) list \<Rightarrow> nat" where
  "count_recent_failures query_ok now window_s rows =
     (if query_ok then length (filter (\<lambda>(status, finished_at). status = ''failed'' \<and>
          (case finished_at of None \<Rightarrow> False | Some t \<Rightarrow> now - window_s < t)) rows)
      else 0)"

definition fleet_monitor_step :: "nat \<Rightarrow> nat \<Rightarrow> edges \<Rightarrow> alert list \<times> edges" where
  "fleet_monitor_step threshold n s =
     (let (fire, s') = edge_update KFleet (threshold \<le> n) s
      in (if fire then [critical ''watchdog.fleet'' ''mass_chassis_failure''] else [], s'))"

text \<open>A failed query re-arms the trigger, so one mass failure can be reported twice.\<close>

lemma fleet_realert:
  assumes "threshold \<le> n" "0 < threshold" "armed KFleet s"
  shows "fst (fleet_monitor_step threshold n (snd (fleet_monitor_step threshold 0 s))) \<noteq> []"
  using assms by (simp add: fleet_monitor_step_def edge_update_def armed_def)

subsection \<open>The chamber monitor\<close>

record chamber_state =
  cm_measured_c :: real
  cm_setpoint_c :: real
  cm_breach_started :: "real option"
  cm_last_msg :: real

type_synonym chambers = "(string \<times> chamber_state) list"

definition fresh_breach :: "(string \<times> chamber_state) list \<Rightarrow> string \<Rightarrow> real option" where
  "fresh_breach cs cid = (case map_of cs cid of None \<Rightarrow> None | Some st \<Rightarrow> cm_breach_started st)"

definition fold_measurement :: "real \<Rightarrow> real \<Rightarrow> string \<Rightarrow> real \<Rightarrow> real \<Rightarrow> chambers \<Rightarrow> chambers" where
  "fold_measurement band_c now cid measured setpoint cs =
     (let in_breach = band_c < \<bar>measured - setpoint\<bar>;
          started = (if in_breach then (case fresh_breach cs cid of None \<Rightarrow> Some now | Some t \<Rightarrow> Some t) else None)
      in AList.update cid \<lparr>cm_measured_c = measured, cm_setpoint_c = setpoint, cm_breach_started = started, cm_last_msg = now\<rparr> cs)"

text \<open>\<open>loads\<close>, \<open>fl\<close> and \<open>py_str\<close> are \<open>json.loads\<close>, \<open>float\<close> of a text and \<open>str\<close>.\<close>

definition parse_chamber :: "('p \<Rightarrow> exn + json) \<Rightarrow> (string \<Rightarrow> exn + real) \<Rightarrow> (json \<Rightarrow> string) \<Rightarrow> 'p \<Rightarrow> exn + string \<times> real \<times> real" where
  "parse_chamber loads fl py_str payload =
     bind_sum (loads payload) (\<lambda>msg.
     bind_sum (index msg ''chamber_id'') (\<lambda>cid.
     bind_sum (bind_sum (index msg ''measured_c'') (to_float fl)) (\<lambda>measured.
     bind_sum (bind_sum (index msg ''setpoint_c'') (to_float fl)) (\<lambda>setpoint.
       Inr (py_str cid, measured, setpoint)))))"

definition update_from_msg ::
  "('p \<Rightarrow> exn + json) \<Rightarrow> (string \<Rightarrow> exn + real) \<Rightarrow> (json \<Rightarrow> string) \<Rightarrow> real \<Rightarrow> real \<Rightarrow> 'p \<Rightarrow> chambers \<Rightarrow> exn + chambers" where
  "update_from_msg loads fl py_str band_c now payload cs =
     (case parse_chamber loads fl py_str payload of
        Inl e \<Rightarrow> if e \<in> {KeyErr, ValueErr, JSONDecodeErr} then Inr cs else Inl e
      | Inr (cid, measured, setpoint) \<Rightarrow> Inr (fold_measurement band_c now cid measured setpoint cs))"

definition grace_active :: "real \<Rightarrow> real \<Rightarrow> real \<Rightarrow> bool" where
  "grace_active startup_grace_s started now \<longleftrightarrow> now - started < startup_grace_s"

definition is_breach_sustained :: "real \<Rightarrow> real \<Rightarrow> chamber_state \<Rightarrow> bool" where
  "is_breach_sustained breach_duration_s now st =
     (case cm_breach_started st of None \<Rightarrow> False | Some t \<Rightarrow> breach_duration_s < now - t)"

definition chamber_alert :: "string \<Rightarrow> alert" where
  "chamber_alert cid = \<lparr>a_severity = Warning, a_source = ''watchdog.chamber'', a_message = ''chamber_temp_breach:'' @ cid,
     a_chassis_id = None, a_channel_idx = None\<rparr>"

fun chamber_sweep :: "real \<Rightarrow> real \<Rightarrow> chambers \<Rightarrow> edges \<Rightarrow> alert list \<times> edges" where
  "chamber_sweep duration now [] s = ([], s)"
| "chamber_sweep duration now ((cid, st) # cs) s =
     (let (fire, s) = edge_update (KChamber cid) (is_breach_sustained duration now st) s;
          (as, s) = chamber_sweep duration now cs s
      in (if fire then chamber_alert cid # as else as, s))"

definition chamber_check :: "real \<Rightarrow> real \<Rightarrow> real \<Rightarrow> real \<Rightarrow> chambers \<Rightarrow> edges \<Rightarrow> alert list \<times> edges" where
  "chamber_check grace_s started duration now cs s =
     (if grace_active grace_s started now then ([], s) else chamber_sweep duration now cs s)"

lemma map_of_update: "map_of (AList.update k v al) = (map_of al)(k \<mapsto> v)"
  by (rule ext) (simp add: update_conv)

lemma fresh_breach_update:
  "fresh_breach (AList.update k st cs) j = (if j = k then cm_breach_started st else fresh_breach cs j)"
  by (simp add: fresh_breach_def map_of_update)

lemma chamber_sweep_alert:
  assumes "distinct (map fst cs)"
  shows "chamber_alert cid \<in> set (fst (chamber_sweep d now cs s)) \<longleftrightarrow>
    (case map_of cs cid of None \<Rightarrow> False | Some st \<Rightarrow> is_breach_sustained d now st \<and> \<not> armed (KChamber cid) s)"
  using assms
proof (induction cs arbitrary: s)
  case (Cons c cs)
  obtain k st where c: "c = (k, st)" by (cases c)
  obtain b s1 where b: "edge_update (KChamber k) (is_breach_sustained d now st) s = (b, s1)" by fastforce
  have "k \<noteq> cid \<Longrightarrow> armed (KChamber cid) s1 = armed (KChamber cid) s"
    "b = (is_breach_sustained d now st \<and> \<not> armed (KChamber k) s)"
    using edge.level_update [of "KChamber cid" "KChamber k" "is_breach_sustained d now st" s]
      edge.fires [of "KChamber k" "is_breach_sustained d now st" s] by (simp_all add: b)
  moreover have "map_of cs k = None" using Cons.prems c by (simp add: map_of_eq_None_iff)
  moreover have "chamber_alert x = chamber_alert y \<longleftrightarrow> x = y" for x y by (simp add: chamber_alert_def)
  ultimately show ?case using Cons.IH [of s1] Cons.prems c b
    by (cases "chamber_sweep d now cs s1") (auto split: option.splits)
qed simp

text \<open>The breach timer of a chamber after a history of measurements (time, measured, setpoint), oldest first.\<close>

definition out_of_band :: "real \<Rightarrow> real \<times> real \<times> real \<Rightarrow> bool" where
  "out_of_band band_c m \<longleftrightarrow> band_c < \<bar>fst (snd m) - snd (snd m)\<bar>"

definition fold_history :: "real \<Rightarrow> string \<Rightarrow> (real \<times> real \<times> real) list \<Rightarrow> chambers \<Rightarrow> chambers" where
  "fold_history band_c cid ms cs = fold (\<lambda>(t, m, sp). fold_measurement band_c t cid m sp) ms cs"

lemma fold_history_snoc: "fold_history b cid (ms @ [(t, m, sp)]) cs = fold_measurement b t cid m sp (fold_history b cid ms cs)"
  by (simp add: fold_history_def)

lemma breach_timer:
  "fresh_breach (fold_history b cid ms []) cid =
    (case takeWhile (out_of_band b) (rev ms) of [] \<Rightarrow> None | run \<Rightarrow> Some (fst (last run)))"
proof (induction ms rule: rev_induct)
  case Nil
  then show ?case by (simp add: fresh_breach_def fold_history_def)
next
  case (snoc x ms)
  obtain t m sp where x: "x = (t, m, sp)" by (cases x)
  show ?case
    using snoc unfolding x fold_history_snoc
    by (auto simp: fold_measurement_def Let_def fresh_breach_update out_of_band_def split: list.splits)
qed

lemma fold_history_distinct: "distinct (map fst cs) \<Longrightarrow> distinct (map fst (fold_history b cid ms cs))"
  by (induction ms arbitrary: cs) (auto simp: fold_history_def fold_measurement_def Let_def distinct_update)



subsection \<open>A session\<close>

text \<open>
  The state of one broker session; the edges outlive it, the sink's retry queue does not.
  \<open>matches\<close> is the topic matching of the MQTT library.
\<close>

record wd_session =
  ws_last_rx :: real
  ws_chambers :: chambers
  ws_started :: real
  ws_edges :: edges
  ws_sink :: sink

definition session_start :: "real \<Rightarrow> edges \<Rightarrow> sink \<Rightarrow> wd_session" where
  "session_start now s snk =
     \<lparr>ws_last_rx = now, ws_chambers = [], ws_started = now, ws_edges = edge_reset KHeartbeat s,
      ws_sink = snk\<lparr>sk_retry := []\<rparr>\<rparr>"

definition dispatch_message ::
  "(string \<Rightarrow> string \<Rightarrow> bool) \<Rightarrow> ('p \<Rightarrow> exn + json) \<Rightarrow> (string \<Rightarrow> exn + real) \<Rightarrow> (json \<Rightarrow> string) \<Rightarrow> real \<Rightarrow> real \<Rightarrow>
    string \<Rightarrow> 'p \<Rightarrow> wd_session \<Rightarrow> exn + wd_session" where
  "dispatch_message matches loads fl py_str band_c now topic payload w =
     (if matches topic ''heartbeat/orchestrator'' then Inr (w\<lparr>ws_last_rx := now\<rparr>)
      else if matches topic ''chamber/+/ambient'' then
        bind_sum (update_from_msg loads fl py_str band_c now payload (ws_chambers w)) (\<lambda>cs. Inr (w\<lparr>ws_chambers := cs\<rparr>))
      else Inr w)"

text \<open>Emitting the alerts of a monitor pass, one after another.\<close>

definition emit_all :: "alert list \<times> edges \<Rightarrow> wd_session \<Rightarrow> wd_session" where
  "emit_all r w = w\<lparr>ws_edges := snd r, ws_sink := fold emit (fst r) (ws_sink w)\<rparr>"

end
