(* ===== verification/Chamber.thy ===== *)
theory Chamber
  imports Chassis_Block
begin

section \<open>The thermal chamber\<close>

text \<open>
  \<open>services/chamber\<close>: the first-order thermal model (\<open>thermal.py\<close>), the Modbus block of the chamber
  (\<open>modbus_server.py\<close>) and the loops of \<open>main.py\<close> as events. The store class is pymodbus's, as in
  the cycler, with one more law: a new store holds the values it was built with.
\<close>

record thermal_model =
  th_measured_c :: real
  th_setpoint_c :: real
  th_tau_s :: real

definition thermal_step :: "real \<Rightarrow> thermal_model \<Rightarrow> thermal_model" where
  "thermal_step dt_s m =
     (if th_tau_s m \<le> 0 then m\<lparr>th_measured_c := th_setpoint_c m\<rparr>
      else (let d = (th_setpoint_c m - th_measured_c m) / th_tau_s m
            in m\<lparr>th_measured_c := th_measured_c m + d * dt_s\<rparr>))"

datatype chamber_reg = CH_SETPOINT_DC | CH_MEASURED_DC | CH_WATCHDOG_KICK | CH_WATCHDOG_STATUS
  | CH_PROTOCOL_VERSION | CH_FIRMWARE_VERSION

fun chreg :: "chamber_reg \<Rightarrow> nat" where
  "chreg CH_SETPOINT_DC = 0"
| "chreg CH_MEASURED_DC = 1"
| "chreg CH_WATCHDOG_KICK = 10"
| "chreg CH_WATCHDOG_STATUS = 11"
| "chreg CH_PROTOCOL_VERSION = 10000"
| "chreg CH_FIRMWARE_VERSION = 10001"

definition CHAMBER_PROTOCOL_VERSION :: int where "CHAMBER_PROTOCOL_VERSION = 1"
definition WATCHDOG_TIMEOUT_S :: real where "WATCHDOG_TIMEOUT_S = 30"

definition chamber_u16_clamp :: "real \<Rightarrow> int" where
  "chamber_u16_clamp v = max 0 (min 65535 (py_int v))"

record 's chamber_block =
  chb_store :: 's
  chb_model :: thermal_model
  chb_last_kick_sim_s :: real

definition chamber_block_init :: "'s sparse_ops \<Rightarrow> real \<Rightarrow> thermal_model \<Rightarrow> 's chamber_block" where
  "chamber_block_init R now m =
     \<lparr>chb_store = sp_init R
        [(chreg CH_SETPOINT_DC, chamber_u16_clamp (th_setpoint_c m * 10)),
         (chreg CH_MEASURED_DC, chamber_u16_clamp (th_measured_c m * 10)),
         (chreg CH_WATCHDOG_KICK, 0), (chreg CH_WATCHDOG_STATUS, 0),
         (chreg CH_PROTOCOL_VERSION, CHAMBER_PROTOCOL_VERSION), (chreg CH_FIRMWARE_VERSION, FIRMWARE_VERSION)],
      chb_model = m, chb_last_kick_sim_s = now\<rparr>"

definition chamber_dispatch :: "real \<Rightarrow> nat \<Rightarrow> int \<Rightarrow> 's chamber_block \<Rightarrow> 's chamber_block" where
  "chamber_dispatch now addr raw b =
     (if addr = chreg CH_SETPOINT_DC
      then b\<lparr>chb_model := (chb_model b)\<lparr>th_setpoint_c := of_int (raw mod 65536) / 10\<rparr>\<rparr>
      else if addr = chreg CH_WATCHDOG_KICK then b\<lparr>chb_last_kick_sim_s := now\<rparr>
      else b)"

fun chamber_dispatch_all :: "real \<Rightarrow> nat \<Rightarrow> int list \<Rightarrow> 's chamber_block \<Rightarrow> 's chamber_block" where
  "chamber_dispatch_all now addr [] b = b"
| "chamber_dispatch_all now addr (raw # vs) b = chamber_dispatch_all now (Suc addr) vs (chamber_dispatch now addr raw b)"

definition chamber_set_values :: "'s sparse_ops \<Rightarrow> real \<Rightarrow> nat \<Rightarrow> int list \<Rightarrow> 's chamber_block \<Rightarrow> 's chamber_block" where
  "chamber_set_values R now address vs b =
     chamber_dispatch_all now address vs (b\<lparr>chb_store := sp_set R (chb_store b) address vs\<rparr>)"

definition chamber_mirror :: "'s sparse_ops \<Rightarrow> real \<Rightarrow> 's chamber_block \<Rightarrow> 's chamber_block" where
  "chamber_mirror R now b =
     (let s = sp_set R (chb_store b) (chreg CH_MEASURED_DC) [chamber_u16_clamp (th_measured_c (chb_model b) * 10)];
          tripped = (WATCHDOG_TIMEOUT_S < now - chb_last_kick_sim_s b)
      in b\<lparr>chb_store := sp_set R s (chreg CH_WATCHDOG_STATUS) [if tripped then 1 else 0]\<rparr>)"

text \<open>The loops of the process, interleaved.\<close>

datatype chamber_event = ThermalTick | ChamberMirror | ChamberWrite nat "int list" | ChamberTime real

definition THERMAL_DT_S :: real where "THERMAL_DT_S = 1 / 10"

fun chamber_exec :: "'s sparse_ops \<Rightarrow> chamber_event \<Rightarrow> real \<times> 's chamber_block \<Rightarrow> real \<times> 's chamber_block" where
  "chamber_exec R ThermalTick (now, b) = (now, b\<lparr>chb_model := thermal_step THERMAL_DT_S (chb_model b)\<rparr>)"
| "chamber_exec R ChamberMirror (now, b) = (now, chamber_mirror R now b)"
| "chamber_exec R (ChamberWrite a vs) (now, b) = (now, chamber_set_values R now a vs b)"
| "chamber_exec R (ChamberTime dt) (now, b) = (now + dt, b)"

subsection \<open>The thermal model\<close>

lemma thermal_step_error:
  "0 < th_tau_s m \<Longrightarrow> th_measured_c (thermal_step dt m) - th_setpoint_c m = (1 - dt / th_tau_s m) * (th_measured_c m - th_setpoint_c m)"
  by (simp add: thermal_step_def Let_def field_simps)

lemma thermal_step_frame [simp]:
  "th_setpoint_c (thermal_step dt m) = th_setpoint_c m" "th_tau_s (thermal_step dt m) = th_tau_s m"
  by (simp_all add: thermal_step_def Let_def)

lemma thermal_steps_frame [simp]:
  "th_setpoint_c ((thermal_step dt ^^ n) m) = th_setpoint_c m" "th_tau_s ((thermal_step dt ^^ n) m) = th_tau_s m"
  by (induction n) simp_all

lemma thermal_steps_error:
  "0 < th_tau_s m \<Longrightarrow> th_measured_c ((thermal_step dt ^^ n) m) - th_setpoint_c m =
    (1 - dt / th_tau_s m) ^ n * (th_measured_c m - th_setpoint_c m)"
proof (induction n)
  case (Suc n)
  let ?m = "(thermal_step dt ^^ n) m"
  have "th_measured_c (thermal_step dt ?m) - th_setpoint_c ?m = (1 - dt / th_tau_s ?m) * (th_measured_c ?m - th_setpoint_c ?m)"
    using Suc.prems by (intro thermal_step_error) simp
  with Suc show ?case by simp
qed simp

lemma settle_factor: "(1 - 1 / 6000 :: real) ^ 20000 \<le> 1 / 25"
proof -
  have "(1 - 1 / 6000 :: real) \<le> exp (- 1 / 6000)" using exp_ge_add_one_self [of "- 1 / 6000"] by simp
  then have "(1 - 1 / 6000 :: real) ^ 20000 \<le> exp (- 1 / 6000) ^ 20000" by (intro power_mono) simp_all
  also have "\<dots> = exp (- (10 / 3))" by (simp add: exp_of_nat_mult [symmetric])
  also have "\<dots> = 1 / exp (1 / 3) ^ 10"
    by (simp add: exp_minus exp_of_nat_mult [symmetric] field_simps)
  also have "\<dots> \<le> 1 / 25"
  proof -
    have "(25 / 18 :: real) \<le> exp (1 / 3)" using exp_lower_Taylor_quadratic [of "1 / 3"] by (simp add: power2_eq_square)
    then have "(25 / 18 :: real) ^ 10 \<le> exp (1 / 3) ^ 10" by (intro power_mono) simp_all
    moreover have "25 \<le> (25 / 18 :: real) ^ 10" by (simp add: power_divide)
    ultimately show ?thesis by (simp add: divide_simps)
  qed
  finally show ?thesis .
qed

text \<open>
  The chamber approaches its setpoint. With a positive time constant and steps no longer than it,
  after \<open>n\<close> steps the distance to the setpoint is \<open>(1 - dt/tau)^n\<close> times the first one: it
  never overshoots and never grows. With the shipped 600 s and 0.1 s it is down to a 25th after
  2000 s, so a 20 degree step is then within one degree of its target.
\<close>

theorem chamber_settles:
  assumes "0 < dt" "dt \<le> th_tau_s m"
  shows "th_measured_c ((thermal_step dt ^^ n) m) - th_setpoint_c m =
      (1 - dt / th_tau_s m) ^ n * (th_measured_c m - th_setpoint_c m) \<and>
    \<bar>th_measured_c ((thermal_step dt ^^ Suc n) m) - th_setpoint_c m\<bar> \<le> \<bar>th_measured_c ((thermal_step dt ^^ n) m) - th_setpoint_c m\<bar> \<and>
    0 \<le> (th_measured_c ((thermal_step dt ^^ n) m) - th_setpoint_c m) * (th_measured_c m - th_setpoint_c m) \<and>
    (th_tau_s m = 600 \<and> dt = THERMAL_DT_S \<longrightarrow>
      \<bar>th_measured_c ((thermal_step dt ^^ 20000) m) - th_setpoint_c m\<bar> \<le> \<bar>th_measured_c m - th_setpoint_c m\<bar> / 25)"
proof -
  let ?q = "1 - dt / th_tau_s m" and ?e = "th_measured_c m - th_setpoint_c m"
  have tau: "0 < th_tau_s m" using assms by simp
  then have q: "0 \<le> ?q" "?q \<le> 1" using assms by (simp_all add: divide_le_eq)
  note err = thermal_steps_error [OF tau, where dt = dt]
  have "\<bar>?q ^ Suc n * ?e\<bar> \<le> \<bar>?q ^ n * ?e\<bar>"
    using q by (simp add: abs_mult mult_right_mono mult_left_le_one_le)
  moreover have "0 \<le> (?q ^ n * ?e) * ?e" using q by (simp add: mult.assoc)
  moreover have "\<bar>?q ^ 20000 * ?e\<bar> \<le> \<bar>?e\<bar> / 25" if "th_tau_s m = 600" "dt = THERMAL_DT_S"
  proof -
    have "?q = 1 - 1 / 6000" using that by (simp add: THERMAL_DT_S_def)
    then have "?q ^ 20000 \<le> 1 / 25" using settle_factor by simp
    then have "\<bar>?e\<bar> * ?q ^ 20000 \<le> \<bar>?e\<bar> * (1 / 25)" by (intro mult_left_mono) simp_all
    then show ?thesis using q by (simp add: abs_mult mult.commute)
  qed
  ultimately show ?thesis unfolding err by blast
qed

lemma chamber_settles_witness:
  "\<bar>th_measured_c ((thermal_step THERMAL_DT_S ^^ 20000) \<lparr>th_measured_c = 25, th_setpoint_c = 45, th_tau_s = 600\<rparr>) - 45\<bar> \<le> 20 / 25"
  using chamber_settles [of THERMAL_DT_S "\<lparr>th_measured_c = 25, th_setpoint_c = 45, th_tau_s = 600\<rparr>" 0]
  by (simp add: THERMAL_DT_S_def)

subsection \<open>The registers\<close>

text \<open>A chamber is built with its register values, so the store must keep those too.\<close>

locale loaded_block = sparse_block +
  assumes rd_init: "distinct (map fst xs) \<Longrightarrow> (a, v) \<in> set xs \<Longrightarrow> sp_rd R (sp_init R xs) a = v"
begin

definition mapped_regs :: "'a \<Rightarrow> bool" where
  "mapped_regs s \<longleftrightarrow> (\<forall>r. has s (chreg r))"

lemma init_regs: "mapped_regs (chb_store (chamber_block_init R now m))"
  unfolding mapped_regs_def
proof
  fix r show "has (chb_store (chamber_block_init R now m)) (chreg r)"
    by (cases r) (simp_all add: chamber_block_init_def has_init)
qed

lemma init_setpoint: "sp_rd R (chb_store (chamber_block_init R now m)) (chreg CH_SETPOINT_DC) = chamber_u16_clamp (th_setpoint_c m * 10)"
  unfolding chamber_block_init_def chamber_block.simps by (rule rd_init) simp_all

lemma set_regs: "has s (chreg r) \<Longrightarrow> mapped_regs (sp_set R s (chreg r) [v]) \<longleftrightarrow> mapped_regs s"
  by (simp add: mapped_regs_def has_set)

lemma rd_set_reg: "mapped_regs s \<Longrightarrow> sp_rd R (sp_set R s (chreg r) [v]) (chreg q) = (if q = r then v else sp_rd R s (chreg q))"
proof -
  have "chreg q = chreg r \<longleftrightarrow> q = r" by (cases q; cases r) simp_all
  moreover assume "mapped_regs s"
  ultimately show ?thesis using rd_set [of "[v]" s "chreg r" "chreg q"] by (auto simp: mapped_regs_def)
qed

lemma mirror_reads:
  assumes "mapped_regs (chb_store b)"
  shows "sp_rd R (chb_store (chamber_mirror R now b)) (chreg CH_MEASURED_DC) = chamber_u16_clamp (th_measured_c (chb_model b) * 10)"
    "sp_rd R (chb_store (chamber_mirror R now b)) (chreg CH_WATCHDOG_STATUS) = (if WATCHDOG_TIMEOUT_S < now - chb_last_kick_sim_s b then 1 else 0)"
    "sp_rd R (chb_store (chamber_mirror R now b)) (chreg CH_SETPOINT_DC) = sp_rd R (chb_store b) (chreg CH_SETPOINT_DC)"
    "mapped_regs (chb_store (chamber_mirror R now b))"
proof -
  have h: "has (chb_store b) (chreg r)" for r using assms by (simp add: mapped_regs_def)
  let ?s = "sp_set R (chb_store b) (chreg CH_MEASURED_DC) [chamber_u16_clamp (th_measured_c (chb_model b) * 10)]"
  have m: "mapped_regs ?s" using set_regs [OF h] assms by blast
  then have h1: "has ?s (chreg r)" for r by (simp add: mapped_regs_def)
  show "sp_rd R (chb_store (chamber_mirror R now b)) (chreg CH_MEASURED_DC) = chamber_u16_clamp (th_measured_c (chb_model b) * 10)"
    "sp_rd R (chb_store (chamber_mirror R now b)) (chreg CH_WATCHDOG_STATUS) = (if WATCHDOG_TIMEOUT_S < now - chb_last_kick_sim_s b then 1 else 0)"
    "sp_rd R (chb_store (chamber_mirror R now b)) (chreg CH_SETPOINT_DC) = sp_rd R (chb_store b) (chreg CH_SETPOINT_DC)"
    using rd_set_reg [OF m] rd_set_reg [OF assms] by (simp_all add: chamber_mirror_def Let_def del: chreg.simps)
  show "mapped_regs (chb_store (chamber_mirror R now b))"
    using set_regs [OF h1] m by (simp add: chamber_mirror_def Let_def del: chreg.simps)
qed

lemma write_setpoint:
  assumes "mapped_regs (chb_store b)"
  shows "chb_model (chamber_set_values R now (chreg CH_SETPOINT_DC) [raw] b) = (chb_model b)\<lparr>th_setpoint_c := of_int (raw mod 65536) / 10\<rparr>"
    "sp_rd R (chb_store (chamber_set_values R now (chreg CH_SETPOINT_DC) [raw] b)) (chreg CH_SETPOINT_DC) = raw"
    "mapped_regs (chb_store (chamber_set_values R now (chreg CH_SETPOINT_DC) [raw] b))"
    "chb_last_kick_sim_s (chamber_set_values R now (chreg CH_SETPOINT_DC) [raw] b) = chb_last_kick_sim_s b"
proof -
  have h: "has (chb_store b) (chreg r)" for r using assms by (simp add: mapped_regs_def)
  show "chb_model (chamber_set_values R now (chreg CH_SETPOINT_DC) [raw] b) = (chb_model b)\<lparr>th_setpoint_c := of_int (raw mod 65536) / 10\<rparr>"
    "chb_last_kick_sim_s (chamber_set_values R now (chreg CH_SETPOINT_DC) [raw] b) = chb_last_kick_sim_s b"
    by (simp_all add: chamber_set_values_def chamber_dispatch_def)
  have st: "chb_store (chamber_set_values R now (chreg CH_SETPOINT_DC) [raw] b) = sp_set R (chb_store b) (chreg CH_SETPOINT_DC) [raw]"
    by (simp add: chamber_set_values_def chamber_dispatch_def)
  show "sp_rd R (chb_store (chamber_set_values R now (chreg CH_SETPOINT_DC) [raw] b)) (chreg CH_SETPOINT_DC) = raw"
    "mapped_regs (chb_store (chamber_set_values R now (chreg CH_SETPOINT_DC) [raw] b))"
    unfolding st using rd_set_reg [OF assms] set_regs [OF h] assms by (simp_all del: chreg.simps)
qed

end

interpretation loaded_dict: loaded_block dict_ops "\<lambda>m a. m a \<noteq> None"
proof unfold_locales
  fix xs :: "(nat \<times> int) list" and a v
  assume "distinct (map fst xs)" "(a, v) \<in> set xs"
  then have "map_of xs a = Some v" by simp
  then show "sp_rd dict_ops (sp_init dict_ops xs) a = v" by (simp add: dict_ops_def sp_rd_def)
qed

text \<open>
  C40. Setting a chamber over Modbus. A temperature from 0 to 6553.5 degrees, truncated to tenths, becomes
  the setpoint to within a tenth, reads back as written, and leaves the measurement and the
  dead-man timer alone; the next mirror shows the measurement and whether the last kick is more
  than 30 s old. A temperature below zero, sent as two's complement as the cycler's registers
  do, becomes a setpoint of more than 6500 degrees, at most a tenth plus 6553.6 above the one meant.
\<close>

theorem chamber_setpoint_write:
  assumes "loaded_block R has" and "\<forall>r. has (chb_store b) (chreg r)"
    and "b1 = chamber_set_values R now (chreg CH_SETPOINT_DC) [py_int (t * 10) mod 65536] b" "b2 = chamber_mirror R now' b1"
  shows "(0 \<le> t \<and> t \<le> 6553.5 \<longrightarrow> \<bar>th_setpoint_c (chb_model b1) - t\<bar> < 1 / 10) \<and>
    (- 50 \<le> t \<and> t \<le> - 1 / 10 \<longrightarrow> 6500 < th_setpoint_c (chb_model b1) \<and> \<bar>th_setpoint_c (chb_model b1) - (t + 6553.6)\<bar> < 1 / 10) \<and>
    sp_rd R (chb_store b2) (chreg CH_SETPOINT_DC) = py_int (t * 10) mod 65536 \<and>
    th_measured_c (chb_model b1) = th_measured_c (chb_model b) \<and> chb_last_kick_sim_s b1 = chb_last_kick_sim_s b \<and>
    sp_rd R (chb_store b2) (chreg CH_MEASURED_DC) = chamber_u16_clamp (th_measured_c (chb_model b) * 10) \<and>
    sp_rd R (chb_store b2) (chreg CH_WATCHDOG_STATUS) = (if WATCHDOG_TIMEOUT_S < now' - chb_last_kick_sim_s b then 1 else 0)"
proof -
  have m: "loaded_block.mapped_regs has (chb_store b)"
    using assms(2) by (simp add: loaded_block.mapped_regs_def [OF assms(1)])
  note w = loaded_block.write_setpoint [OF assms(1) m, of now "py_int (t * 10) mod 65536", folded assms(3)]
  note r = loaded_block.mirror_reads [OF assms(1) w(3), of now', folded assms(4)]
  have sp: "th_setpoint_c (chb_model b1) = of_int (py_int (t * 10) mod 65536) / 10" using w(1) by simp
  have e: "\<bar>of_int (py_int (t * 10)) - t * 10\<bar> < 1" by (rule py_int_error)
  have "\<bar>th_setpoint_c (chb_model b1) - t\<bar> < 1 / 10" if t: "0 \<le> t" "t \<le> 6553.5"
  proof -
    have "0 \<le> py_int (t * 10)" "py_int (t * 10) \<le> 65535"
      using py_int_mono [of 0 "t * 10"] py_int_mono [of "t * 10" 65535] t by simp_all
    then have "th_setpoint_c (chb_model b1) = of_int (py_int (t * 10)) / 10" using sp by simp
    then show ?thesis using e by (simp add: abs_if split: if_splits)
  qed
  moreover have "6500 < th_setpoint_c (chb_model b1) \<and> \<bar>th_setpoint_c (chb_model b1) - (t + 6553.6)\<bar> < 1 / 10" if t: "- 50 \<le> t" "t \<le> - 1 / 10"
  proof -
    have b: "- 500 \<le> py_int (t * 10)" "py_int (t * 10) \<le> - 1"
      using py_int_mono [of "- 500" "t * 10"] py_int_mono [of "t * 10" "- numeral Num.One"] t
      by (simp_all only: py_int_numeral) simp_all
    have "py_int (t * 10) mod 65536 = (py_int (t * 10) + 65536) mod 65536" by simp
    also have "\<dots> = py_int (t * 10) + 65536" using b by (intro mod_pos_pos_trivial) auto
    finally have "py_int (t * 10) mod 65536 = py_int (t * 10) + 65536" .
    then have "th_setpoint_c (chb_model b1) = (of_int (py_int (t * 10)) + 65536) / 10" using sp by simp
    moreover have "- 500 \<le> (of_int (py_int (t * 10)) :: real)" using b by linarith
    ultimately show ?thesis using e by (auto simp: abs_if split: if_splits)
  qed
  ultimately show ?thesis using w r by (auto simp del: chreg.simps)
qed

lemma chamber_setpoint_write_witness:
  "6500 < th_setpoint_c (chb_model (chamber_set_values dict_ops 0 (chreg CH_SETPOINT_DC) [py_int (- 10 * 10) mod 65536]
     (chamber_block_init dict_ops 0 \<lparr>th_measured_c = 25, th_setpoint_c = 25, th_tau_s = 600\<rparr>)))"
proof -
  have "\<forall>r. chb_store (chamber_block_init dict_ops 0 \<lparr>th_measured_c = 25, th_setpoint_c = 25, th_tau_s = 600\<rparr>) (chreg r) \<noteq> None"
    using loaded_dict.init_regs unfolding loaded_block.mapped_regs_def [OF loaded_dict.loaded_block_axioms] by blast
  from chamber_setpoint_write [OF loaded_dict.loaded_block_axioms,
      where b = "chamber_block_init dict_ops 0 \<lparr>th_measured_c = 25, th_setpoint_c = 25, th_tau_s = 600\<rparr>" and now = 0 and t = "- 10" and now' = 0,
      OF this refl refl]
  show ?thesis by (simp del: chreg.simps)
qed

end
