(* ===== verification/Telemetry.thy ===== *)
theory Telemetry
  imports Channel Json Effects
begin

section \<open>The cycler's telemetry publisher\<close>

text \<open>
  \<open>cycler/telemetry.py\<close>: every period one telemetry message per channel (QoS 0), and a retained
  state message (QoS 1) when the mode or the latch of a channel differs from the last state
  published. The broker is outside src/: the model keeps what it took, what it retains per
  topic, and an oracle of its answers. A publish is taken, refused (\<open>MqttError\<close> without effect),
  or taken with the acknowledgement lost (\<open>MqttError\<close> after the effect); an exhausted oracle
  takes everything. The channel objects change while the publisher awaits, so a visit of a
  channel sees it twice: for the telemetry message, and afterwards for the state.
\<close>

text \<open>\<open>round(x, n)\<close> on a float.\<close>

definition py_round :: "nat \<Rightarrow> real \<Rightarrow> real" where
  "py_round n x = of_int (round_half_even (x * 10 ^ n)) / 10 ^ n"

lemma py_round_error: "\<bar>py_round n x - x\<bar> \<le> 1 / 2 / 10 ^ n"
proof -
  have "py_round n x - x = (of_int (round_half_even (x * 10 ^ n)) - x * 10 ^ n) / 10 ^ n"
    by (simp add: py_round_def field_simps)
  then have "\<bar>py_round n x - x\<bar> = \<bar>of_int (round_half_even (x * 10 ^ n)) - x * 10 ^ n\<bar> / 10 ^ n" by simp
  also have "\<dots> \<le> 1 / 2 / 10 ^ n" by (intro divide_right_mono round_half_even_error) simp
  finally show ?thesis .
qed

fun mode_str :: "channel_mode \<Rightarrow> string" where
  "mode_str Idle = ''idle''"
| "mode_str Cc = ''cc''"
| "mode_str Cv = ''cv''"
| "mode_str Cp = ''cp''"
| "mode_str Rest = ''rest''"

fun error_name :: "error_code \<Rightarrow> string" where
  "error_name NONE = ''NONE''"
| "error_name OVERVOLTAGE = ''OVERVOLTAGE''"
| "error_name OVERTEMP = ''OVERTEMP''"
| "error_name WATCHDOG_TIMEOUT = ''WATCHDOG_TIMEOUT''"
| "error_name INTERNAL_SHORT = ''INTERNAL_SHORT''"
| "error_name THERMAL_RUNAWAY = ''THERMAL_RUNAWAY''"
| "error_name DEAD = ''DEAD''"

definition telemetry_payload :: "real \<Rightarrow> channel \<Rightarrow> cell_state \<Rightarrow> json" where
  "telemetry_payload now ch s = JObj
     [(''t'', JNum now),
      (''v'', JNum (py_round 4 (st_voltage_v s))),
      (''i'', JNum (py_round 4 (st_current_a s))),
      (''tc'', JNum (py_round 2 (st_temperature_c s))),
      (''soc'', JNum (py_round 4 (st_soc s))),
      (''soh'', JNum (py_round 4 (st_soh s))),
      (''cyc'', JInt (ch_cycle_index ch)),
      (''mode'', JStr (mode_str (ch_mode ch))),
      (''err'', JInt (error_code_int (ch_latched_error ch)))]"

definition state_payload :: "real \<Rightarrow> channel_mode \<times> error_code \<Rightarrow> json" where
  "state_payload now cur = JObj
     [(''t'', JNum now), (''mode'', JStr (mode_str (fst cur))), (''err'', JInt (error_code_int (snd cur))),
      (''err_name'', JStr (error_name (snd cur)))]"

datatype answer = Taken | Refused | TakenUnacked

record publisher =
  pub_messages :: "(string \<times> json) list"
  pub_retained :: "string \<rightharpoonup> json"
  pub_last_state :: "nat \<rightharpoonup> channel_mode \<times> error_code"
  pub_answers :: "answer list"

definition mqtt_publish :: "string \<Rightarrow> json \<Rightarrow> bool \<Rightarrow> (publisher, unit) act" where
  "mqtt_publish topic v retain p =
     (let taken = (\<lambda>p. p\<lparr>pub_messages := pub_messages p @ [(topic, v)],
                         pub_retained := (if retain then (pub_retained p)(topic \<mapsto> v) else pub_retained p)\<rparr>)
      in case pub_answers p of
           [] \<Rightarrow> (Inr (), taken p)
         | Taken # as \<Rightarrow> (Inr (), taken (p\<lparr>pub_answers := as\<rparr>))
         | Refused # as \<Rightarrow> (Inl MqttErr, p\<lparr>pub_answers := as\<rparr>)
         | TakenUnacked # as \<Rightarrow> (Inl MqttErr, taken (p\<lparr>pub_answers := as\<rparr>)))"

abbreviation state_topic :: "int \<Rightarrow> nat \<Rightarrow> string" where
  "state_topic cid idx \<equiv> topic3 ''state'' cid idx"

definition publish_transition :: "int \<Rightarrow> real \<Rightarrow> channel \<Rightarrow> (publisher, unit) act" where
  "publish_transition cid now ch =
     bind_act (get_act pub_last_state) (\<lambda>last_state.
       let cur = (ch_mode ch, ch_latched_error ch) in
       when_act (last_state (ch_idx ch) \<noteq> Some cur)
         (seq_act (mqtt_publish (state_topic cid (ch_idx ch)) (state_payload now cur) True)
           (mod_act (\<lambda>p. p\<lparr>pub_last_state := (pub_last_state p)(ch_idx ch \<mapsto> cur)\<rparr>))))"

definition publish_channel :: "np_interp \<Rightarrow> int \<Rightarrow> real \<Rightarrow> channel \<times> channel \<Rightarrow> (publisher, unit) act" where
  "publish_channel np cid now v =
     (case v of (ch, ch') \<Rightarrow>
        bind_act (lift_sum (channel_read_state np ch)) (\<lambda>s.
          seq_act (mqtt_publish (topic3 ''telemetry'' cid (ch_idx ch)) (telemetry_payload now ch s) False)
            (publish_transition cid now ch')))"

definition publish_pass :: "np_interp \<Rightarrow> int \<Rightarrow> real \<Rightarrow> (channel \<times> channel) list \<Rightarrow> (publisher, unit) act" where
  "publish_pass np cid now visits = for_act (publish_channel np cid now) visits"

text \<open>
  The loop over a sequence of passes. A broker error ends the session and, after the backoff, a new
  one starts with a fresh pass; \<open>last_state\<close> outlives the session. Other exceptions end the task.
\<close>

fun telemetry_publisher :: "np_interp \<Rightarrow> int \<Rightarrow> (real \<times> (channel \<times> channel) list) list \<Rightarrow> (publisher, unit) act" where
  "telemetry_publisher np cid [] = ret ()"
| "telemetry_publisher np cid ((now, visits) # ps) =
     seq_act (catch_act (publish_pass np cid now visits) (\<lambda>e. e = MqttErr) (\<lambda>_. ret ()))
       (telemetry_publisher np cid ps)"

definition publisher_start :: "(string \<rightharpoonup> json) \<Rightarrow> channel list \<Rightarrow> answer list \<Rightarrow> publisher" where
  "publisher_start retained channels answers =
     \<lparr>pub_messages = [], pub_retained = retained,
      pub_last_state = map_of (map (\<lambda>ch. (ch_idx ch, (ch_mode ch, ch_latched_error ch))) channels),
      pub_answers = answers\<rparr>"

subsection \<open>What the retained state says\<close>

text \<open>
  For channel \<open>i\<close>: nothing was published since the start, or the retained message shows the state
  recorded last.
\<close>

definition shown :: "int \<Rightarrow> publisher \<Rightarrow> publisher \<Rightarrow> nat \<Rightarrow> bool" where
  "shown cid p0 p i \<longleftrightarrow>
     pub_last_state p i = pub_last_state p0 i \<and> pub_retained p (state_topic cid i) = pub_retained p0 (state_topic cid i) \<or>
     (\<exists>now cur. pub_last_state p i = Some cur \<and> pub_retained p (state_topic cid i) = Some (state_payload now cur))"

definition acked :: "publisher \<Rightarrow> bool" where
  "acked p \<longleftrightarrow> TakenUnacked \<notin> set (pub_answers p)"

lemma topic3_inj: "topic3 k a b = topic3 k a' b' \<longleftrightarrow> a = a' \<and> b = b'"
proof
  assume e: "topic3 k a b = topic3 k a' b'"
  have "CHR ''/'' \<notin> set (show_int i)" for i using show_int_chars [of "CHR ''/''" i] by auto
  then have "split_on CHR ''/'' (show_int i @ CHR ''/'' # show_nat n) = [show_int i, show_nat n]" for i n
    using split_on_append split_on_free show_nat_digits not_digit_chars by metis
  then have s: "show_int a = show_int a'" "show_nat b = show_nat b'" using e unfolding topic3_def by (metis list.inject same_append_eq)+
  then show "a = a' \<and> b = b'" by (metis parse_int_show_int show_nat_inj sum.inject(2))
qed simp

lemma telemetry_not_state: "topic3 ''telemetry'' a b \<noteq> topic3 ''state'' c d"
  by (simp add: topic3_def)

lemma publish_answers: "acked p \<Longrightarrow> acked (snd (mqtt_publish t v r p))"
  by (auto simp: acked_def mqtt_publish_def Let_def split: list.splits answer.splits)

lemma telemetry_keeps_shown:
  "keeps (\<lambda>p. acked p \<and> (\<forall>i. shown cid p0 p i)) (mqtt_publish (topic3 ''telemetry'' cid j) v False)"
  unfolding keeps_def
  by (auto simp: acked_def shown_def mqtt_publish_def Let_def split: list.splits answer.splits)

lemma shown_cong:
  "pub_last_state p i = pub_last_state q i \<Longrightarrow> pub_retained p (state_topic cid i) = pub_retained q (state_topic cid i) \<Longrightarrow>
    shown cid p0 p i = shown cid p0 q i"
  by (simp add: shown_def)

text \<open>The state after a published transition.\<close>

lemma transition_runs:
  fixes ch :: channel
  assumes "acked p"
  defines "cur \<equiv> (ch_mode ch, ch_latched_error ch)"
  shows "(\<exists>as. acked (p\<lparr>pub_answers := as\<rparr>) \<and>
      (publish_transition cid now ch p = (Inl MqttErr, p\<lparr>pub_answers := as\<rparr>) \<or>
       publish_transition cid now ch p = (Inr (), p\<lparr>pub_answers := as,
         pub_messages := pub_messages p @ [(state_topic cid (ch_idx ch), state_payload now cur)],
         pub_retained := (pub_retained p)(state_topic cid (ch_idx ch) \<mapsto> state_payload now cur),
         pub_last_state := (pub_last_state p)(ch_idx ch \<mapsto> cur)\<rparr>))) \<or>
    pub_last_state p (ch_idx ch) = Some cur \<and> publish_transition cid now ch p = (Inr (), p)"
proof (cases "pub_last_state p (ch_idx ch) = Some cur")
  case True
  then show ?thesis by (simp add: publish_transition_def cur_def bind_act_def get_act_def run_simps Let_def)
next
  case False
  note defs = publish_transition_def cur_def bind_act_def get_act_def run_simps mqtt_publish_def seq_act_def mod_act_def Let_def
  show ?thesis
  proof (cases "pub_answers p")
    case Nil
    with False show ?thesis by (intro disjI1 exI [of _ "[]"]) (simp add: defs acked_def)
  next
    case (Cons a as)
    with False assms(1) show ?thesis by (intro disjI1 exI [of _ as]) (cases a, auto simp: defs acked_def)
  qed
qed

lemma transition_keeps_shown:
  "triple (\<lambda>p. acked p \<and> (\<forall>i. shown cid p0 p i)) (publish_transition cid now ch)
     (\<lambda>_ p. (acked p \<and> (\<forall>i. shown cid p0 p i)) \<and> pub_last_state p (ch_idx ch) = Some (ch_mode ch, ch_latched_error ch))
     (\<lambda>_ p. acked p \<and> (\<forall>i. shown cid p0 p i))"
proof (rule tripleI)
  fix p assume p: "acked p \<and> (\<forall>i. shown cid p0 p i)"
  then have s: "shown cid p0 p i" for i by blast
  have new: "shown cid p0 (p\<lparr>pub_answers := as, pub_messages := ms,
      pub_retained := (pub_retained p)(state_topic cid (ch_idx ch) \<mapsto> state_payload now cur),
      pub_last_state := (pub_last_state p)(ch_idx ch \<mapsto> cur)\<rparr>) i" for as ms cur i
  proof (cases "i = ch_idx ch")
    case True
    then show ?thesis by (auto simp: shown_def)
  next
    case False
    then show ?thesis using s [of i] by (simp add: shown_def topic3_inj)
  qed
  have old: "shown cid p0 (p\<lparr>pub_answers := as\<rparr>) i" for as i using s [of i] by (simp add: shown_def)
  from transition_runs [of p cid now ch] p
  show "case publish_transition cid now ch p of
      (Inr x, p) \<Rightarrow> (acked p \<and> (\<forall>i. shown cid p0 p i)) \<and> pub_last_state p (ch_idx ch) = Some (ch_mode ch, ch_latched_error ch)
    | (Inl e, p) \<Rightarrow> acked p \<and> (\<forall>i. shown cid p0 p i)"
    using new old by (auto simp: acked_def)
qed

lemma transition_others:
  "i \<noteq> ch_idx ch \<Longrightarrow> unchanged (\<lambda>p. pub_last_state p i) (publish_transition cid now ch)"
  by (auto simp: unchanged_def publish_transition_def run_simps bind_act_def get_act_def seq_act_def Let_def
      mqtt_publish_def mod_act_def split: list.splits answer.splits)

lemma telemetry_message_last: "unchanged pub_last_state (mqtt_publish t v r)"
  by (auto simp: unchanged_def mqtt_publish_def Let_def split: list.splits answer.splits)

abbreviation seen :: "channel \<Rightarrow> channel_mode \<times> error_code" where
  "seen ch \<equiv> (ch_mode ch, ch_latched_error ch)"

lemma channel_keeps_shown:
  "triple (\<lambda>p. acked p \<and> (\<forall>i. shown cid p0 p i)) (publish_channel np cid now (ch, ch'))
     (\<lambda>_ p. (acked p \<and> (\<forall>i. shown cid p0 p i)) \<and> pub_last_state p (ch_idx ch') = Some (seen ch'))
     (\<lambda>_ p. acked p \<and> (\<forall>i. shown cid p0 p i))"
  unfolding publish_channel_def prod.case
  by (rule triple_bind [where R = "\<lambda>_ p. acked p \<and> (\<forall>i. shown cid p0 p i)"], rule triple_lift, assumption, assumption,
      rule triple_seq [OF telemetry_keeps_shown [unfolded triple_keeps] transition_keeps_shown])

lemma channel_others: "i \<noteq> ch_idx ch' \<Longrightarrow> unchanged (\<lambda>p. pub_last_state p i) (publish_channel np cid now (ch, ch'))"
  unfolding publish_channel_def prod.case
  by (intro unchanged_bind unchanged_seq unchanged_basic transition_others)
    (use telemetry_message_last in \<open>simp_all add: unchanged_def\<close>)

lemma pass_keeps_shown: "keeps (\<lambda>p. acked p \<and> (\<forall>i. shown cid p0 p i)) (publish_pass np cid now visits)"
  unfolding publish_pass_def
proof (rule keeps_for)
  fix v
  show "keeps (\<lambda>p. acked p \<and> (\<forall>i. shown cid p0 p i)) (publish_channel np cid now v)"
    unfolding triple_keeps
    by (cases v, simp, rule triple_conseq [OF channel_keeps_shown]) blast+
qed

lemma run_keeps_shown: "keeps (\<lambda>p. acked p \<and> (\<forall>i. shown cid p0 p i)) (telemetry_publisher np cid ps)"
proof (induction ps)
  case (Cons x ps)
  obtain now visits where x: "x = (now, visits)" by (cases x)
  show ?case
    unfolding x telemetry_publisher.simps
    by (rule keeps_seq [OF keeps_catch [OF pass_keeps_shown keeps_ret] Cons.IH])
qed (simp add: keeps_ret)

lemma pass_records:
  assumes "publish_pass np cid now visits p = (Inr (), p')" "distinct (map (ch_idx \<circ> snd) visits)" "(ch, ch') \<in> set visits"
    and "acked p"
  shows "pub_last_state p' (ch_idx ch') = Some (seen ch')"
  using assms
proof (induction visits arbitrary: p)
  case (Cons v visits)
  obtain c c' where v: "v = (c, c')" by (cases v)
  obtain q where q: "publish_channel np cid now v p = (Inr (), q)" and r: "publish_pass np cid now visits q = (Inr (), p')"
    using Cons.prems(1) by (auto simp: publish_pass_def seq_act_def split: prod.splits sum.splits)
  have p: "acked p \<and> (\<forall>i. shown cid p p i)" using Cons.prems(4) by (simp add: shown_def)
  from triple_Inr [OF channel_keeps_shown p q [unfolded v]]
  have a: "acked q" and l: "pub_last_state q (ch_idx c') = Some (seen c')" by blast+
  show ?case
  proof (cases "(ch, ch') = v")
    case True
    have "\<forall>w \<in> set visits. ch_idx (snd w) \<noteq> ch_idx c'" using Cons.prems(2) v by force
    then have "unchanged (\<lambda>p. pub_last_state p (ch_idx c')) (publish_pass np cid now visits)"
      unfolding publish_pass_def
    proof (induction visits)
      case (Cons w ws)
      then show ?case
        by (cases w) (simp, intro unchanged_seq channel_others, auto)
    qed (simp add: unchanged_basic)
    from unchangedD [OF this, of q] r l v True show ?thesis by simp
  next
    case False
    with Cons.IH [OF r] Cons.prems(2, 3) a show ?thesis by auto
  qed
qed simp

text \<open>
  C36. The retained state topic. As long as no acknowledgement is lost, and whatever else the broker
  refuses before, after every completed pass the state retained for a channel is the one the
  pass saw, unless the channel is in the state it had when the process started: then nothing
  may have been published, and the topic still holds what an earlier process left there.
\<close>

theorem state_topic_follows:
  assumes "acked p0" and "telemetry_publisher np cid ps p0 = (Inr (), p)" and "publish_pass np cid now visits p = (Inr (), p')"
    and "distinct (map (ch_idx \<circ> snd) visits)" and "(ch, ch') \<in> set visits"
  shows "(\<exists>t. pub_retained p' (state_topic cid (ch_idx ch')) = Some (state_payload t (seen ch'))) \<or>
    pub_last_state p0 (ch_idx ch') = Some (seen ch') \<and>
      pub_retained p' (state_topic cid (ch_idx ch')) = pub_retained p0 (state_topic cid (ch_idx ch'))"
proof -
  have "acked p0 \<and> (\<forall>i. shown cid p0 p0 i)" using assms(1) by (simp add: shown_def)
  then have p: "acked p \<and> (\<forall>i. shown cid p0 p i)"
    using keepsD [OF run_keeps_shown [of cid p0 np ps], of p0] assms(2) by simp
  then have "shown cid p0 p' (ch_idx ch')"
    using keepsD [OF pass_keeps_shown [of cid p0 np now visits], of p] assms(3) by simp
  moreover have "pub_last_state p' (ch_idx ch') = Some (seen ch')"
    using pass_records [OF assms(3-5)] p by blast
  ultimately show ?thesis by (auto simp: shown_def)
qed

text \<open>
  A lost acknowledgement. The publisher goes from \<open>a\<close> to \<open>b\<close>, the broker takes the message but its
  acknowledgement is lost, and the channel is back in \<open>a\<close> at the next pass: nothing is published,
  and the topic goes on showing \<open>b\<close>.
\<close>

lemma lost_ack_stale:
  assumes "ch_idx a = ch_idx b" "seen a \<noteq> seen b" "pub_last_state p (ch_idx a) = Some (seen a)" "pub_answers p = [TakenUnacked]"
    and "publish_transition cid now b p = (r, p')" "publish_transition cid now' a p' = (r', p'')"
  shows "r = Inl MqttErr \<and> r' = Inr () \<and> pub_retained p'' (state_topic cid (ch_idx a)) = Some (state_payload now (seen b))"
  using assms
  by (auto simp: publish_transition_def bind_act_def get_act_def when_act_run seq_act_def mqtt_publish_def Let_def mod_act_def)

lemma state_topic_follows_witness:
  "\<exists>p'. publish_pass lin_interp 1 0 [(channel_new 0 3 (ecm_cell_new chem_NMC 3 (1 / 2)) 4400\<lparr>ch_mode := Cc\<rparr>, channel_new 0 3 (ecm_cell_new chem_NMC 3 (1 / 2)) 4400\<lparr>ch_mode := Cc\<rparr>)]
      (publisher_start (\<lambda>_. None) [channel_new 0 3 (ecm_cell_new chem_NMC 3 (1 / 2)) 4400] []) = (Inr (), p') \<and>
    (\<exists>t. pub_retained p' (state_topic 1 3) = Some (state_payload t (Cc, NONE)))"
proof -
  let ?ch = "channel_new 0 3 (ecm_cell_new chem_NMC 3 (1 / 2)) 4400\<lparr>ch_mode := Cc\<rparr>" and ?p = "publisher_start (\<lambda>_. None) [channel_new 0 3 (ecm_cell_new chem_NMC 3 (1 / 2)) 4400] []"
  have c: "cell_ok (ecm_cell_new chem_NMC 3 (1 / 2))"
    using chem_ok_shipped [of "''NMC''" chem_NMC] by (intro cell_ok_new) (simp_all add: CHEMISTRIES_def)
  obtain s where "channel_read_state lin_interp ?ch = Inr s"
    using ecm_read_state_ok [OF c, of lin_interp] by (auto simp: channel_read_state_def channel_new_def)
  then obtain p' where p': "publish_pass lin_interp 1 0 [(?ch, ?ch)] ?p = (Inr (), p')"
    by (simp add: publish_pass_def publish_channel_def publish_transition_def publisher_start_def bind_act_def seq_act_def
        mqtt_publish_def run_simps Let_def channel_new_def)
  have "acked ?p" by (simp add: acked_def publisher_start_def)
  from state_topic_follows [of ?p lin_interp 1 "[]" ?p 0 "[(?ch, ?ch)]" p' ?ch ?ch] p' this show ?thesis
    by (auto simp: run_simps channel_new_def publisher_start_def)
qed

end
