(* ===== verification/Ingester.thy ===== *)
theory Ingester
  imports Telemetry Orch_World "HOL-Library.Sublist"
begin

section \<open>The telemetry ingester\<close>

text \<open>
  \<open>ingester/main.py\<close>: joins the retained experiment context with the telemetry stream, batches the
  rows and copies them into the telemetry table. The broker, the pool and \<open>json.loads\<close> are
  parameters: a run is a list of events, each with the clock before and after it; a \<open>COPY\<close> asks
  the fault oracle as the orchestrator's statements do. A \<open>datetime\<close> is its number of
  microseconds since the epoch.
\<close>

record telemetry_row =
  tr_time :: int
  tr_chassis_id :: int
  tr_channel_idx :: int
  tr_schedule_id :: string
  tr_cycle_index :: int
  tr_step_name :: string
  tr_voltage_v :: "real option"
  tr_current_a :: "real option"
  tr_temperature_c :: "real option"
  tr_soc_est :: "real option"

type_synonym context_map = "int \<times> int \<rightharpoonup> string \<times> string"

definition BATCH_MAX :: nat where "BATCH_MAX = 5000"
definition BATCH_MAX_AGE_S :: real where "BATCH_MAX_AGE_S = 1"
definition BUFFER_HARD_CAP :: nat where "BUFFER_HARD_CAP = 50000"

text \<open>
  \<open>datetime.fromtimestamp(epoch_s, tz=UTC)\<close> rounds to microseconds. Beyond the range of \<open>time_t\<close>
  it raises \<open>OverflowError\<close>, beyond that of C's \<open>gmtime\<close> \<open>OSError\<close>, outside the years 1 to
  9999 \<open>ValueError\<close>.
\<close>

definition epoch_to_ts :: "real \<Rightarrow> exn + int" where
  "epoch_to_ts epoch_s =
     (let us = round_half_even (epoch_s * 1000000); sec = us div 1000000
      in if sec < - 9223372036854775808 \<or> 9223372036854775807 < sec then Inl OverflowErr
         else if sec < - 67768040609740800 \<or> 67768036191676799 < sec then Inl OSErr
         else if sec < - 62135596800 \<or> 253402300799 < sec then Inl ValueErr
         else Inr us)"

subsection \<open>Messages\<close>

text \<open>\<open>str(v)\<close>: a text is itself, \<open>py_repr\<close> stands for the others.\<close>

fun py_str :: "(json \<Rightarrow> string) \<Rightarrow> json \<Rightarrow> string" where
  "py_str py_repr (JStr s) = s"
| "py_str py_repr v = py_repr v"

text \<open>The \<open>except\<close> clauses: caught exceptions become \<open>None\<close>, the others go on.\<close>

definition none_on :: "(exn \<Rightarrow> bool) \<Rightarrow> exn + 'a \<Rightarrow> exn + 'a option" where
  "none_on P r = (case r of Inl e \<Rightarrow> if P e then Inr None else Inl e | Inr x \<Rightarrow> Inr (Some x))"

definition channel_key :: "string \<Rightarrow> string \<Rightarrow> exn + int \<times> int" where
  "channel_key a b = bind_sum (parse_int a) (\<lambda>chassis_id. bind_sum (parse_int b) (\<lambda>channel_idx. Inr (chassis_id, channel_idx)))"

definition read_context :: "('p \<Rightarrow> exn + json) \<Rightarrow> (json \<Rightarrow> string) \<Rightarrow> 'p \<Rightarrow> exn + string \<times> string" where
  "read_context loads py_repr p =
     bind_sum (loads p) (\<lambda>msg.
     bind_sum (get_default msg ''schedule_id'' (JStr [])) (\<lambda>sid.
     bind_sum (get_default msg ''step_name'' (JStr [])) (\<lambda>step.
       Inr (py_str py_repr sid, py_str py_repr step))))"

definition parse_context ::
  "('p \<Rightarrow> exn + json) \<Rightarrow> (json \<Rightarrow> string) \<Rightarrow> string \<Rightarrow> 'p payload \<Rightarrow> exn + ((int \<times> int) \<times> (string \<times> string) option) option" where
  "parse_context loads py_repr topic payload =
     (case split_on CHR ''/'' topic of
        [_, a, b] \<Rightarrow>
          bind_sum (none_on (\<lambda>e. e = ValueErr) (channel_key a b)) (\<lambda>k. case k of
              None \<Rightarrow> Inr None
            | Some key \<Rightarrow>
                (case payload of
                   Empty \<Rightarrow> Inr (Some (key, None))
                 | Body p \<Rightarrow>
                     bind_sum (none_on (\<lambda>e. e \<in> {JSONDecodeErr, ValueErr}) (read_context loads py_repr p)) (\<lambda>c.
                       Inr (case c of None \<Rightarrow> None | Some ctx \<Rightarrow> Some (key, Some ctx)))))
      | _ \<Rightarrow> Inr None)"

definition read_row ::
  "('p \<Rightarrow> exn + json) \<Rightarrow> (string \<Rightarrow> exn + real) \<Rightarrow> context_map \<Rightarrow> string \<Rightarrow> string \<Rightarrow> 'p payload \<Rightarrow> exn + telemetry_row" where
  "read_row loads fl context a b payload =
     bind_sum (channel_key a b) (\<lambda>(chassis_id, channel_idx).
     bind_sum (load loads payload) (\<lambda>msg.
     let ctx = (case context (chassis_id, channel_idx) of None \<Rightarrow> ([], []) | Some c \<Rightarrow> c) in
     bind_sum (bind_sum (bind_sum (index msg ''t'') (to_float fl)) epoch_to_ts) (\<lambda>t.
     bind_sum (bind_sum (get_default msg ''cyc'' (JInt 0)) to_int) (\<lambda>cyc.
     bind_sum (opt_float fl msg ''v'') (\<lambda>v.
     bind_sum (opt_float fl msg ''i'') (\<lambda>i.
     bind_sum (opt_float fl msg ''tc'') (\<lambda>tc.
     bind_sum (opt_float fl msg ''soc'') (\<lambda>soc.
       Inr \<lparr>tr_time = t, tr_chassis_id = chassis_id, tr_channel_idx = channel_idx, tr_schedule_id = fst ctx,
            tr_cycle_index = cyc, tr_step_name = snd ctx, tr_voltage_v = v, tr_current_a = i,
            tr_temperature_c = tc, tr_soc_est = soc\<rparr>))))))))"

definition parse_row ::
  "('p \<Rightarrow> exn + json) \<Rightarrow> (string \<Rightarrow> exn + real) \<Rightarrow> context_map \<Rightarrow> string \<Rightarrow> 'p payload \<Rightarrow> exn + telemetry_row option" where
  "parse_row loads fl context topic payload =
     (case split_on CHR ''/'' topic of
        [_, a, b] \<Rightarrow> none_on (\<lambda>e. e \<in> {KeyErr, ValueErr, JSONDecodeErr}) (read_row loads fl context a b payload)
      | _ \<Rightarrow> Inr None)"

subsection \<open>The process\<close>

record ingester =
  ig_context :: context_map
  ig_buffer :: "telemetry_row list"
  ig_last_flush :: real
  ig_drops :: nat
  ig_table :: "telemetry_row list"
  ig_faults :: "fault list"

definition flush :: "telemetry_row list \<Rightarrow> (ingester, unit) act" where
  "flush rows s =
     (let copied = (\<lambda>s. s\<lparr>ig_table := ig_table s @ rows\<rparr>) in
      if rows = [] then (Inr (), s)
      else case ig_faults s of
          [] \<Rightarrow> (Inr (), copied s)
        | Commit # fs \<Rightarrow> (Inr (), copied (s\<lparr>ig_faults := fs\<rparr>))
        | Reject e # fs \<Rightarrow> (Inl e, s\<lparr>ig_faults := fs\<rparr>)
        | Lost e # fs \<Rightarrow> (Inl e, copied (s\<lparr>ig_faults := fs\<rparr>)))"

definition push_row :: "telemetry_row \<Rightarrow> ingester \<Rightarrow> ingester" where
  "push_row row s =
     (let s = (if BUFFER_HARD_CAP \<le> length (ig_buffer s)
               then s\<lparr>ig_buffer := tl (ig_buffer s), ig_drops := Suc (ig_drops s)\<rparr> else s)
      in s\<lparr>ig_buffer := ig_buffer s @ [row]\<rparr>)"

definition update_context :: "(int \<times> int) \<times> (string \<times> string) option \<Rightarrow> ingester \<Rightarrow> ingester" where
  "update_context kc s = s\<lparr>ig_context := (ig_context s)(fst kc := snd kc)\<rparr>"

definition flush_due :: "real \<Rightarrow> ingester \<Rightarrow> bool" where
  "flush_due now s \<longleftrightarrow> BATCH_MAX \<le> length (ig_buffer s) \<or> ig_buffer s \<noteq> [] \<and> BATCH_MAX_AGE_S < now - ig_last_flush s"

definition flush_buffer :: "real \<Rightarrow> (ingester, unit) act" where
  "flush_buffer done_at =
     bind_act (get_act ig_buffer) (\<lambda>batch.
       seq_act (mod_act (\<lambda>s. s\<lparr>ig_buffer := []\<rparr>))
         (seq_act (flush batch) (mod_act (\<lambda>s. s\<lparr>ig_last_flush := done_at\<rparr>))))"

definition is_experiment :: "string \<Rightarrow> bool" where
  "is_experiment topic \<longleftrightarrow> take 11 topic = ''experiment/''"

definition handle_message ::
  "('p \<Rightarrow> exn + json) \<Rightarrow> (string \<Rightarrow> exn + real) \<Rightarrow> (json \<Rightarrow> string) \<Rightarrow> real \<Rightarrow> real \<Rightarrow> string \<Rightarrow> 'p payload \<Rightarrow> (ingester, unit) act" where
  "handle_message loads fl py_repr now done_at topic payload =
     (if is_experiment topic then
        bind_act (lift_sum (parse_context loads py_repr topic payload)) (\<lambda>parsed.
          case parsed of None \<Rightarrow> ret () | Some kc \<Rightarrow> mod_act (update_context kc))
      else
        bind_act (get_act ig_context) (\<lambda>context.
        bind_act (lift_sum (parse_row loads fl context topic payload)) (\<lambda>row.
          seq_act (case row of None \<Rightarrow> ret () | Some r \<Rightarrow> mod_act (push_row r))
            (bind_act (get_act (flush_due now)) (\<lambda>due. when_act due (flush_buffer done_at))))))"

text \<open>
  What can happen next: a message, or the broker or the pool ends the session with an exception.
  The handled ones start a new session at the clock value \<open>done_at\<close>; the rest ends the process.
\<close>

datatype 'p ig_event = Message real real string "'p payload" | SessionError real exn

fun event_act :: "('p \<Rightarrow> exn + json) \<Rightarrow> (string \<Rightarrow> exn + real) \<Rightarrow> (json \<Rightarrow> string) \<Rightarrow> 'p ig_event \<Rightarrow> (ingester, unit) act" where
  "event_act loads fl py_repr (Message now done_at topic payload) = handle_message loads fl py_repr now done_at topic payload"
| "event_act loads fl py_repr (SessionError t e) = raise e"

fun event_end :: "'p ig_event \<Rightarrow> real" where
  "event_end (Message now done_at topic payload) = done_at"
| "event_end (SessionError t e) = t"

definition new_session :: "real \<Rightarrow> ingester \<Rightarrow> ingester" where
  "new_session now s = s\<lparr>ig_buffer := [], ig_last_flush := now, ig_drops := 0\<rparr>"

fun ingester_run :: "('p \<Rightarrow> exn + json) \<Rightarrow> (string \<Rightarrow> exn + real) \<Rightarrow> (json \<Rightarrow> string) \<Rightarrow> 'p ig_event list \<Rightarrow> (ingester, unit) act" where
  "ingester_run loads fl py_repr [] = ret ()"
| "ingester_run loads fl py_repr (ev # evs) =
     seq_act (catch_act (event_act loads fl py_repr ev) (\<lambda>e. e \<in> {MqttErr, PostgresErr, OSErr})
         (\<lambda>_. mod_act (new_session (event_end ev))))
       (ingester_run loads fl py_repr evs)"

definition ingester_start :: "real \<Rightarrow> telemetry_row list \<Rightarrow> fault list \<Rightarrow> ingester" where
  "ingester_start now table faults = \<lparr>ig_context = (\<lambda>_. None), ig_buffer = [], ig_last_flush = now, ig_drops = 0,
     ig_table = table, ig_faults = faults\<rparr>"

subsection \<open>What a run accepts, and what it delivers\<close>

text \<open>The rows the messages stand for, with the context of their moment.\<close>

fun event_context :: "('p \<Rightarrow> exn + json) \<Rightarrow> (json \<Rightarrow> string) \<Rightarrow> 'p ig_event \<Rightarrow> context_map \<Rightarrow> context_map" where
  "event_context loads py_repr (Message now done_at topic payload) c =
     (if is_experiment topic
      then (case parse_context loads py_repr topic payload of Inr (Some kc) \<Rightarrow> c(fst kc := snd kc) | _ \<Rightarrow> c) else c)"
| "event_context loads py_repr (SessionError t e) c = c"

fun event_rows :: "('p \<Rightarrow> exn + json) \<Rightarrow> (string \<Rightarrow> exn + real) \<Rightarrow> 'p ig_event \<Rightarrow> context_map \<Rightarrow> telemetry_row list" where
  "event_rows loads fl (Message now done_at topic payload) c =
     (if is_experiment topic then []
      else (case parse_row loads fl c topic payload of Inr (Some r) \<Rightarrow> [r] | _ \<Rightarrow> []))"
| "event_rows loads fl (SessionError t e) c = []"

fun accepted :: "('p \<Rightarrow> exn + json) \<Rightarrow> (string \<Rightarrow> exn + real) \<Rightarrow> (json \<Rightarrow> string) \<Rightarrow> 'p ig_event list \<Rightarrow> context_map \<Rightarrow> telemetry_row list" where
  "accepted loads fl py_repr [] c = []"
| "accepted loads fl py_repr (ev # evs) c =
     event_rows loads fl ev c @ accepted loads fl py_repr evs (event_context loads py_repr ev c)"

definition small :: "ingester \<Rightarrow> bool" where
  "small s \<longleftrightarrow> length (ig_buffer s) < BATCH_MAX \<and> ig_drops s = 0"

lemma push_row_small: "small s \<Longrightarrow> push_row r s = s\<lparr>ig_buffer := ig_buffer s @ [r]\<rparr>"
  by (simp add: small_def push_row_def BATCH_MAX_def BUFFER_HARD_CAP_def)

lemma flush_run:
  "(\<exists>fs. flush_buffer d s = (Inr (), s\<lparr>ig_buffer := [], ig_faults := fs, ig_table := ig_table s @ ig_buffer s, ig_last_flush := d\<rparr>)) \<or>
   (\<exists>e fs. flush_buffer d s = (Inl e, s\<lparr>ig_buffer := [], ig_faults := fs\<rparr>)) \<or>
   (\<exists>e fs. flush_buffer d s = (Inl e, s\<lparr>ig_buffer := [], ig_faults := fs, ig_table := ig_table s @ ig_buffer s\<rparr>))"
proof (cases "ig_buffer s = []")
  case True
  then have "flush_buffer d s = (Inr (), s\<lparr>ig_buffer := [], ig_faults := ig_faults s, ig_table := ig_table s @ ig_buffer s, ig_last_flush := d\<rparr>)"
    by (simp add: flush_buffer_def run_simps bind_act_def get_act_def seq_act_def mod_act_def flush_def Let_def)
  then show ?thesis by blast
next
  case False
  note defs = flush_buffer_def run_simps bind_act_def get_act_def seq_act_def mod_act_def flush_def Let_def
  show ?thesis
  proof (cases "ig_faults s")
    case Nil
    with False have "flush_buffer d s = (Inr (), s\<lparr>ig_buffer := [], ig_faults := ig_faults s, ig_table := ig_table s @ ig_buffer s, ig_last_flush := d\<rparr>)"
      by (simp add: defs)
    then show ?thesis by blast
  next
    case (Cons f fs)
    with False show ?thesis by (cases f) (simp_all add: defs, blast+)
  qed
qed

lemma flush_no_faults:
  "ig_faults s = [] \<Longrightarrow> flush_buffer d s = (Inr (), s\<lparr>ig_buffer := [], ig_last_flush := d, ig_table := ig_table s @ ig_buffer s\<rparr>)"
  by (simp add: flush_buffer_def run_simps bind_act_def get_act_def seq_act_def mod_act_def flush_def Let_def)

text \<open>One message, by what it is.\<close>

lemma handle_experiment:
  "is_experiment topic \<Longrightarrow> handle_message loads fl py_repr now d topic payload s =
    (case parse_context loads py_repr topic payload of Inl e \<Rightarrow> (Inl e, s) | Inr None \<Rightarrow> (Inr (), s) | Inr (Some kc) \<Rightarrow> (Inr (), update_context kc s))"
  by (auto simp: handle_message_def run_simps bind_act_def lift_sum_def split: sum.split option.split)

definition buffered :: "telemetry_row option \<Rightarrow> ingester \<Rightarrow> ingester" where
  "buffered row s = (case row of None \<Rightarrow> s | Some r \<Rightarrow> push_row r s)"

lemma handle_telemetry:
  "\<not> is_experiment topic \<Longrightarrow> handle_message loads fl py_repr now d topic payload s =
    (case parse_row loads fl (ig_context s) topic payload of Inl e \<Rightarrow> (Inl e, s)
     | Inr row \<Rightarrow> if flush_due now (buffered row s) then flush_buffer d (buffered row s) else (Inr (), buffered row s))"
  by (auto simp: handle_message_def buffered_def run_simps bind_act_def lift_sum_def get_act_def seq_act_def when_act_def
      mod_act_def ret_def split: sum.split option.split)

lemma buffered_small:
  "small s \<Longrightarrow> buffered row s = s\<lparr>ig_buffer := ig_buffer s @ (case row of None \<Rightarrow> [] | Some r \<Rightarrow> [r])\<rparr>"
  by (simp add: buffered_def push_row_small split: option.split)

text \<open>Every row that came in is in the table or the buffer, or belongs to a batch whose copy failed; none twice.\<close>

definition delivers :: "telemetry_row list \<Rightarrow> ingester \<Rightarrow> bool" where
  "delivers acc s \<longleftrightarrow> small s \<and> subseq (ig_table s @ ig_buffer s) acc"

lemma subseq_cut: "subseq (xs @ ys) zs \<Longrightarrow> subseq xs zs"
  using subseq_rev_drop_many [of xs xs ys] by (metis subseq_order.refl subseq_order.order_trans)

lemma event_delivers:
  assumes "delivers acc s" "event_act loads fl py_repr ev s = (r, s')"
  shows "delivers (acc @ event_rows loads fl ev (ig_context s)) s' \<and> ig_context s' = event_context loads py_repr ev (ig_context s)"
proof (cases ev)
  case (SessionError t e)
  with assms show ?thesis by (simp add: run_simps)
next
  case (Message now d topic payload)
  show ?thesis
  proof (cases "is_experiment topic")
    case True
    with assms Message show ?thesis
      by (auto simp: handle_experiment delivers_def small_def update_context_def split: sum.splits option.splits)
  next
    case False
    show ?thesis
    proof (cases "parse_row loads fl (ig_context s) topic payload")
      case (Inl e)
      with assms Message False show ?thesis by (simp add: handle_telemetry)
    next
      case (Inr row)
      let ?rs = "case row of None \<Rightarrow> [] | Some r \<Rightarrow> [r]" and ?b = "buffered row s"
      have b: "?b = s\<lparr>ig_buffer := ig_buffer s @ ?rs\<rparr>" using assms(1) by (simp add: delivers_def buffered_small)
      have rows: "event_rows loads fl ev (ig_context s) = ?rs" using Inr Message False by (simp split: option.split)
      have seq: "subseq (ig_table s @ ig_buffer s @ ?rs) (acc @ ?rs)"
        using list_emb_append_mono [of "(=)" "ig_table s @ ig_buffer s" acc ?rs ?rs] assms(1) by (simp add: delivers_def)
      have cut: "subseq (ig_table s) (acc @ ?rs)" using subseq_cut seq by blast
      have run: "(if flush_due now ?b then flush_buffer d ?b else (Inr (), ?b)) = (r, s')"
        using assms(2) Message False Inr by (simp add: handle_telemetry)
      show ?thesis
      proof (cases "flush_due now ?b")
        case True
        with run have r: "flush_buffer d ?b = (r, s')" by simp
        from assms(1) have drops: "ig_drops s = 0" and pos: "0 < BATCH_MAX" by (simp_all add: delivers_def small_def BATCH_MAX_def)
        from flush_run [of d ?b, unfolded r] show ?thesis
          unfolding rows using seq cut drops pos Message False by (elim disjE exE) (simp_all add: b delivers_def small_def)
      next
        case f: False
        then have "length (ig_buffer ?b) < BATCH_MAX" by (auto simp: flush_due_def)
        with run f assms(1) seq Message False show ?thesis unfolding rows by (auto simp: b delivers_def small_def)
      qed
    qed
  qed
qed

lemma run_delivers:
  assumes "delivers acc s" "ingester_run loads fl py_repr evs s = (r, s')"
  shows "delivers (acc @ accepted loads fl py_repr evs (ig_context s)) s'"
  using assms
proof (induction evs arbitrary: acc s)
  case Nil
  then show ?case by (simp add: ret_def)
next
  case (Cons ev evs)
  obtain r1 s1 where e: "event_act loads fl py_repr ev s = (r1, s1)" by (cases "event_act loads fl py_repr ev s")
  let ?acc = "acc @ event_rows loads fl ev (ig_context s)"
  from event_delivers [OF Cons.prems(1) e] have d: "delivers ?acc s1"
    and c: "ig_context s1 = event_context loads py_repr ev (ig_context s)" by blast+
  have n: "delivers ?acc (new_session t s1)" for t
    using d subseq_cut by (auto simp: delivers_def small_def new_session_def)
  have more: "delivers a s \<Longrightarrow> delivers (a @ b) s" for a b s
    by (auto simp: delivers_def dest: subseq_rev_drop_many)
  show ?case
  proof (cases r1)
    case (Inr u)
    with e Cons.prems(2) have "ingester_run loads fl py_repr evs s1 = (r, s')" by (simp add: seq_act_def catch_act_def)
    from Cons.IH [OF d this] c show ?thesis by simp
  next
    case (Inl x)
    show ?thesis
    proof (cases "x \<in> {MqttErr, PostgresErr, OSErr}")
      case True
      with e Inl Cons.prems(2) have "ingester_run loads fl py_repr evs (new_session (event_end ev) s1) = (r, s')"
        by (simp add: seq_act_def catch_act_def mod_act_def)
      from Cons.IH [OF n this] c show ?thesis by (simp add: new_session_def)
    next
      case False
      with e Inl Cons.prems(2) have "s' = s1" by (simp add: seq_act_def catch_act_def)
      with more [OF d] show ?thesis by simp
    qed
  qed
qed

lemma run_snoc:
  "ingester_run loads fl py_repr (evs @ [ev]) = seq_act (ingester_run loads fl py_repr evs) (ingester_run loads fl py_repr [ev])"
proof (induction evs)
  case Nil
  show ?case by (rule ext) (simp add: seq_act_def ret_def)
next
  case (Cons e evs)
  then show ?case by (intro ext) (simp add: seq_act_def split: prod.split sum.split)
qed

lemma event_fresh:
  assumes "\<not> is_experiment topic" "ingester_run loads fl py_repr [Message now d topic payload] s = (Inr (), s')" and "small s"
  shows "ig_buffer s' = [] \<or> now - ig_last_flush s' \<le> BATCH_MAX_AGE_S"
proof -
  obtain r1 s1 where e: "handle_message loads fl py_repr now d topic payload s = (r1, s1)" by fastforce
  show ?thesis
  proof (cases r1)
    case (Inl x)
    with e assms(2) have "s' = new_session d s1" by (simp add: seq_act_def catch_act_def mod_act_def ret_def split: if_splits)
    then show ?thesis by (simp add: new_session_def)
  next
    case (Inr u)
    with e assms(2) have s': "s' = s1" by (simp add: seq_act_def catch_act_def ret_def)
    from Inr e assms(1) obtain row where "(if flush_due now (buffered row s) then flush_buffer d (buffered row s) else (Inr (), buffered row s)) = (Inr (), s1)"
      by (auto simp: handle_telemetry split: sum.splits)
    with flush_run [of d "buffered row s"] show ?thesis unfolding s' by (auto simp: flush_due_def split: if_splits)
  qed
qed

lemma event_complete:
  assumes "small s" "ig_faults s = []" "event_act loads fl py_repr ev s = (Inr (), s')"
  shows "ig_table s' @ ig_buffer s' = ig_table s @ ig_buffer s @ event_rows loads fl ev (ig_context s) \<and> ig_faults s' = []"
proof (cases ev)
  case (SessionError t e)
  with assms show ?thesis by (simp add: run_simps)
next
  case (Message now d topic payload)
  show ?thesis
  proof (cases "is_experiment topic")
    case True
    with assms Message show ?thesis by (auto simp: handle_experiment update_context_def split: sum.splits option.splits)
  next
    case False
    with assms(3) Message obtain row where p: "parse_row loads fl (ig_context s) topic payload = Inr row"
      and run: "(if flush_due now (buffered row s) then flush_buffer d (buffered row s) else (Inr (), buffered row s)) = (Inr (), s')"
      by (auto simp: handle_telemetry split: sum.splits)
    from p Message False have "event_rows loads fl ev (ig_context s) = (case row of None \<Rightarrow> [] | Some r \<Rightarrow> [r])"
      by (simp split: option.split)
    with run assms(1, 2) show ?thesis
      by (auto simp: buffered_small flush_no_faults split: if_splits)
  qed
qed

text \<open>A session without a reconnect: the events, one after another, without an exception.\<close>

definition ingester_session :: "('p \<Rightarrow> exn + json) \<Rightarrow> (string \<Rightarrow> exn + real) \<Rightarrow> (json \<Rightarrow> string) \<Rightarrow> 'p ig_event list \<Rightarrow> (ingester, unit) act" where
  "ingester_session loads fl py_repr evs = for_act (event_act loads fl py_repr) evs"

lemma session_complete:
  assumes "delivers acc s" "ig_faults s = []" "ingester_session loads fl py_repr evs s = (Inr (), s')"
  shows "ingester_run loads fl py_repr evs s = (Inr (), s') \<and>
    ig_table s' @ ig_buffer s' = ig_table s @ ig_buffer s @ accepted loads fl py_repr evs (ig_context s)"
  using assms
proof (induction evs arbitrary: acc s)
  case (Cons ev evs)
  obtain s1 where e: "event_act loads fl py_repr ev s = (Inr (), s1)" and r: "ingester_session loads fl py_repr evs s1 = (Inr (), s')"
    using Cons.prems(3) by (auto simp: ingester_session_def seq_act_def split: prod.splits sum.splits)
  from event_delivers [OF Cons.prems(1) e] have d: "delivers (acc @ event_rows loads fl ev (ig_context s)) s1"
    and c: "ig_context s1 = event_context loads py_repr ev (ig_context s)" by blast+
  from event_complete [OF _ Cons.prems(2) e] Cons.prems(1)
  have t: "ig_table s1 @ ig_buffer s1 = ig_table s @ ig_buffer s @ event_rows loads fl ev (ig_context s)" and f: "ig_faults s1 = []"
    by (auto simp: delivers_def)
  from Cons.IH [OF d f r] t c e show ?case by (simp add: seq_act_def catch_act_def)
qed (simp add: ingester_session_def ret_def)

text \<open>
  C9. Delivery of telemetry. Through any messages, broker errors and database faults, the telemetry
  table is a subsequence of the rows the messages stand for: in order and none twice. The
  buffer stays below one batch, so the hard cap never drops a row. A session without faults
  and reconnects loses nothing. After every telemetry message the buffer is empty or the last
  flush is at most a second old.
\<close>

theorem ingester_at_most_once:
  assumes "ingester_run loads fl py_repr evs (ingester_start t0 [] faults) = (r, s)"
  shows "subseq (ig_table s) (accepted loads fl py_repr evs (\<lambda>_. None)) \<and>
    length (ig_buffer s) < BATCH_MAX \<and> ig_drops s = 0 \<and>
    (faults = [] \<and> fst (ingester_session loads fl py_repr evs (ingester_start t0 [] [])) = Inr () \<longrightarrow>
      ig_table s @ ig_buffer s = accepted loads fl py_repr evs (\<lambda>_. None)) \<and>
    (r = Inr () \<and> evs = es @ [Message now d topic payload] \<and> \<not> is_experiment topic \<longrightarrow>
      ig_buffer s = [] \<or> now - ig_last_flush s \<le> BATCH_MAX_AGE_S)"
proof -
  have d: "delivers [] (ingester_start t0 [] faults)" for faults
    by (simp add: delivers_def small_def ingester_start_def BATCH_MAX_def)
  from run_delivers [OF d assms] have a: "delivers (accepted loads fl py_repr evs (\<lambda>_. None)) s" by (simp add: ingester_start_def)
  have c: "ig_table s @ ig_buffer s = accepted loads fl py_repr evs (\<lambda>_. None)"
    if fs: "faults = []" and ok: "fst (ingester_session loads fl py_repr evs (ingester_start t0 [] [])) = Inr ()"
  proof -
    obtain s1 where "ingester_session loads fl py_repr evs (ingester_start t0 [] []) = (Inr (), s1)"
      using ok by (cases "ingester_session loads fl py_repr evs (ingester_start t0 [] [])") auto
    from session_complete [OF d _ this] fs assms show ?thesis by (simp add: ingester_start_def)
  qed
  have f: "ig_buffer s = [] \<or> now - ig_last_flush s \<le> BATCH_MAX_AGE_S"
    if r: "r = Inr ()" and e: "evs = es @ [Message now d' topic payload]" and x: "\<not> is_experiment topic" for d'
  proof -
    obtain s1 where s1: "ingester_run loads fl py_repr es (ingester_start t0 [] faults) = (Inr (), s1)"
      and l: "ingester_run loads fl py_repr [Message now d' topic payload] s1 = (Inr (), s)"
      using assms unfolding r e run_snoc by (auto simp: seq_act_def split: prod.splits sum.splits)
    from run_delivers [OF d s1] have "small s1" by (simp add: delivers_def)
    from event_fresh [OF x l this] show ?thesis .
  qed
  have "subseq (ig_table s) (accepted loads fl py_repr evs (\<lambda>_. None)) \<and> length (ig_buffer s) < BATCH_MAX \<and> ig_drops s = 0"
    using a subseq_cut unfolding delivers_def small_def by blast
  with c f show ?thesis by blast
qed

lemma ingester_at_most_once_witness:
  "\<exists>s. ingester_run (\<lambda>p. Inr p) (\<lambda>_. Inl ValueErr) (\<lambda>_. [])
      [Message 0 0 ''telemetry/1/3'' (Body (JObj [(''t'', JInt 5)])), Message 2 3 ''telemetry/1/3'' (Body (JObj []))]
      (ingester_start 0 [] []) = (Inr (), s) \<and> map tr_time (ig_table s @ ig_buffer s) = [5000000]"
proof -
  let ?m = "Message 0 0 ''telemetry/1/3'' (Body (JObj [(''t'', JInt 5)]))" and ?m' = "Message 2 3 ''telemetry/1/3'' (Body (JObj []))"
  let ?acc = "accepted (\<lambda>p. Inr p) (\<lambda>_. Inl ValueErr) (\<lambda>_. []) [?m, ?m'] (\<lambda>_. None)"
  have key: "channel_key ''1'' ''3'' = Inr (1, 3)" by code_simp
  have five: "round_half_even 5000000 = 5000000" using round_half_even_of_int [of 5000000] by simp
  have acc: "map tr_time ?acc = [5000000]"
    by (simp add: is_experiment_def parse_row_def read_row_def key none_on_def get_default_def opt_float_def epoch_to_ts_def five Let_def)
  have "fst (ingester_session (\<lambda>p. Inr p) (\<lambda>_. Inl ValueErr) (\<lambda>_. []) [?m, ?m'] (ingester_start 0 [] [])) = Inr ()"
    by (simp add: ingester_session_def seq_act_def handle_telemetry is_experiment_def parse_row_def read_row_def key none_on_def
        get_default_def opt_float_def epoch_to_ts_def five Let_def ret_def flush_no_faults ingester_start_def buffered_def push_row_def
        flush_due_def BATCH_MAX_def BATCH_MAX_AGE_S_def BUFFER_HARD_CAP_def)
  moreover from this obtain s where s: "ingester_run (\<lambda>p. Inr p) (\<lambda>_. Inl ValueErr) (\<lambda>_. []) [?m, ?m'] (ingester_start 0 [] []) = (Inr (), s)"
    using session_complete [of "[]" "ingester_start 0 [] []" "\<lambda>p. Inr p" "\<lambda>_. Inl ValueErr" "\<lambda>_. []" "[?m, ?m']"]
    by (cases "ingester_session (\<lambda>p. Inr p) (\<lambda>_. Inl ValueErr) (\<lambda>_. []) [?m, ?m'] (ingester_start 0 [] [])")
      (auto simp: delivers_def small_def ingester_start_def BATCH_MAX_def)
  ultimately have "ig_table s @ ig_buffer s = ?acc"
    using ingester_at_most_once [OF s] by blast
  then have "map tr_time (ig_table s @ ig_buffer s) = [5000000]" by (simp only: acc)
  with s show ?thesis by (intro exI conjI)
qed

subsection \<open>From the channel to the table\<close>

text \<open>The messages of \<open>orchestrator/context.py\<close> and of the cycler as they go over the wire.\<close>

definition context_json :: "context_msg \<Rightarrow> json" where
  "context_json m =
     (case m of
        CtxPublish chassis chan sid step k cyc eid \<Rightarrow> JObj
          [(''schedule_id'', JStr sid), (''step_name'', JStr step), (''step_index'', JInt (int k)),
           (''cycle_index'', JInt (int cyc)), (''experiment_id'', JStr eid)]
      | CtxClear chassis chan \<Rightarrow> JObj [])"

definition context_wire :: "(json \<Rightarrow> 'p) \<Rightarrow> context_msg \<Rightarrow> string \<times> 'p payload" where
  "context_wire dumps m =
     (topic3 ''experiment'' (ctx_chassis m) (ctx_channel m),
      case m of CtxPublish _ _ _ _ _ _ _ \<Rightarrow> Body (dumps (context_json m)) | CtxClear _ _ \<Rightarrow> Empty)"

definition context_labels :: "context_msg \<Rightarrow> string \<times> string" where
  "context_labels m = (case m of CtxPublish _ _ sid step _ _ _ \<Rightarrow> (sid, step) | CtxClear _ _ \<Rightarrow> ([], []))"

lemma epoch_to_ts_ok:
  assumes "0 \<le> t" "t \<le> 253402300799"
  shows "epoch_to_ts t = Inr (round_half_even (t * 1000000))"
proof -
  have "0 \<le> round_half_even (t * 1000000) \<and> round_half_even (t * 1000000) \<le> 253402300799000000"
    using assms by (intro round_half_even_bounds) simp_all
  then have "0 \<le> round_half_even (t * 1000000) div 1000000 \<and> round_half_even (t * 1000000) div 1000000 \<le> 253402300799"
    by (intro conjI) (simp_all add: pos_imp_zdiv_nonneg_iff, linarith)
  then show ?thesis by (simp add: epoch_to_ts_def Let_def)
qed

lemma topic3_kinds [simp]: "is_experiment (topic3 ''experiment'' a b)" "\<not> is_experiment (topic3 ''telemetry'' a b)"
  by (simp_all add: is_experiment_def topic3_def)

lemma split_kinds [simp]:
  "split_on CHR ''/'' (topic3 ''experiment'' a b) = [''experiment'', show_int a, show_nat b]"
  "split_on CHR ''/'' (topic3 ''telemetry'' a b) = [''telemetry'', show_int a, show_nat b]"
  by (simp_all add: split_topic3)

lemma channel_key_show [simp]: "channel_key (show_int a) (show_nat b) = Inr (a, int b)"
  by (simp add: channel_key_def)

lemma context_received:
  assumes "loads (dumps (context_json m)) = Inr (context_json m)"
  shows "\<exists>c. handle_message loads fl py_repr now d (fst (context_wire dumps m)) (snd (context_wire dumps m)) s = (Inr (), s\<lparr>ig_context := c\<rparr>) \<and>
    (case c (ctx_chassis m, int (ctx_channel m)) of None \<Rightarrow> ([], []) | Some l \<Rightarrow> l) = context_labels m"
  using assms
  by (cases m) (auto simp: context_wire_def handle_experiment parse_context_def none_on_def read_context_def context_json_def
      get_default_def update_context_def context_labels_def)

lemma telemetry_received:
  assumes "loads (dumps (telemetry_payload now ch st)) = Inr (telemetry_payload now ch st)" "0 \<le> now" "now \<le> 253402300799"
  shows "parse_row loads fl c (topic3 ''telemetry'' cid (ch_idx ch)) (Body (dumps (telemetry_payload now ch st))) =
    (let l = (case c (cid, int (ch_idx ch)) of None \<Rightarrow> ([], []) | Some l \<Rightarrow> l) in
     Inr (Some \<lparr>tr_time = round_half_even (now * 1000000), tr_chassis_id = cid, tr_channel_idx = int (ch_idx ch),
       tr_schedule_id = fst l, tr_cycle_index = ch_cycle_index ch, tr_step_name = snd l,
       tr_voltage_v = Some (py_round 4 (st_voltage_v st)), tr_current_a = Some (py_round 4 (st_current_a st)),
       tr_temperature_c = Some (py_round 2 (st_temperature_c st)), tr_soc_est = Some (py_round 4 (st_soc st))\<rparr>))"
  unfolding parse_row_def read_row_def using assms
  by (simp add: telemetry_payload_def none_on_def get_default_def opt_float_def epoch_to_ts_ok Let_def)

lemma publish_sends:
  assumes "channel_read_state np ch = Inr st" "publish_channel np cid now (ch, ch') p = (Inr (), p')"
  shows "(topic3 ''telemetry'' cid (ch_idx ch), telemetry_payload now ch st) \<in> set (pub_messages p')"
proof -
  let ?m = "(topic3 ''telemetry'' cid (ch_idx ch), telemetry_payload now ch st)"
  obtain q where q: "mqtt_publish (fst ?m) (snd ?m) False p = (Inr (), q)" and t: "publish_transition cid now ch' q = (Inr (), p')"
    using assms by (auto simp: publish_channel_def bind_act_def lift_sum_def seq_act_def split: prod.splits sum.splits)
  from q have "?m \<in> set (pub_messages q)"
    by (auto simp: mqtt_publish_def Let_def split: list.splits answer.splits)
  with t show ?thesis
    by (auto simp: publish_transition_def bind_act_def get_act_def seq_act_def when_act_run mod_act_def mqtt_publish_def Let_def
        split: if_splits list.splits answer.splits)
qed

text \<open>
  C13. From the channel to the database. What the cycler publishes for a channel, with the context
  the orchestrator published last for it, becomes one row: the ids and the cycle index exactly,
  the schedule and step of the context (empty after a clear), the time to half a microsecond,
  voltage, current and charge to half of 1/10000, the temperature to half of 1/100.
\<close>

theorem telemetry_reaches_database:
  assumes "channel_read_state np ch = Inr st" and "publish_channel np cid now (ch, ch') p = (Inr (), p')"
    and "loads (dumps (context_json m)) = Inr (context_json m)" and "ctx_chassis m = cid" "ctx_channel m = ch_idx ch"
    and "loads (dumps (telemetry_payload now ch st)) = Inr (telemetry_payload now ch st)"
    and "0 \<le> now" "now \<le> 253402300799" and "small s" "ig_faults s = []"
  shows "(topic3 ''telemetry'' cid (ch_idx ch), telemetry_payload now ch st) \<in> set (pub_messages p') \<and>
    (\<exists>s' row v i tc soc.
      ingester_session loads fl py_repr
        [Message t1 d1 (fst (context_wire dumps m)) (snd (context_wire dumps m)),
         Message t2 d2 (topic3 ''telemetry'' cid (ch_idx ch)) (Body (dumps (telemetry_payload now ch st)))] s = (Inr (), s') \<and>
      ig_table s' @ ig_buffer s' = ig_table s @ ig_buffer s @ [row] \<and>
      tr_chassis_id row = cid \<and> tr_channel_idx row = int (ch_idx ch) \<and> tr_cycle_index row = ch_cycle_index ch \<and>
      (tr_schedule_id row, tr_step_name row) = context_labels m \<and> \<bar>real_of_int (tr_time row) - now * 1000000\<bar> \<le> 1 / 2 \<and>
      tr_voltage_v row = Some v \<and> \<bar>v - st_voltage_v st\<bar> \<le> 1 / 20000 \<and>
      tr_current_a row = Some i \<and> \<bar>i - st_current_a st\<bar> \<le> 1 / 20000 \<and>
      tr_temperature_c row = Some tc \<and> \<bar>tc - st_temperature_c st\<bar> \<le> 1 / 200 \<and>
      tr_soc_est row = Some soc \<and> \<bar>soc - st_soc st\<bar> \<le> 1 / 20000)"
proof -
  obtain c where c: "handle_message loads fl py_repr t1 d1 (fst (context_wire dumps m)) (snd (context_wire dumps m)) s = (Inr (), s\<lparr>ig_context := c\<rparr>)"
    and l: "(case c (cid, int (ch_idx ch)) of None \<Rightarrow> ([], []) | Some l \<Rightarrow> l) = context_labels m"
    using context_received [where loads = loads and dumps = dumps, OF assms(3), of fl py_repr t1 d1 s, unfolded assms(4, 5)]
    by (elim exE conjE)
  let ?s1 = "s\<lparr>ig_context := c\<rparr>" and ?e = "Message t2 d2 (topic3 ''telemetry'' cid (ch_idx ch)) (Body (dumps (telemetry_payload now ch st)))"
  define row where "row = \<lparr>tr_time = round_half_even (now * 1000000), tr_chassis_id = cid, tr_channel_idx = int (ch_idx ch),
       tr_schedule_id = fst (context_labels m), tr_cycle_index = ch_cycle_index ch, tr_step_name = snd (context_labels m),
       tr_voltage_v = Some (py_round 4 (st_voltage_v st)), tr_current_a = Some (py_round 4 (st_current_a st)),
       tr_temperature_c = Some (py_round 2 (st_temperature_c st)), tr_soc_est = Some (py_round 4 (st_soc st))\<rparr>"
  have p: "parse_row loads fl c (topic3 ''telemetry'' cid (ch_idx ch)) (Body (dumps (telemetry_payload now ch st))) = Inr (Some row)"
    unfolding telemetry_received [where loads = loads and dumps = dumps, OF assms(6-8)] l Let_def row_def ..
  have small: "small ?s1" "ig_faults ?s1 = []" using assms(9, 10) by (simp_all add: small_def)
  obtain s' where s': "event_act loads fl py_repr ?e ?s1 = (Inr (), s')"
  proof (cases "flush_due t2 (buffered (Some row) ?s1)")
    case True
    with p small that show thesis by (simp add: handle_telemetry buffered_small flush_no_faults)
  next
    case False
    with p small that show thesis by (simp add: handle_telemetry)
  qed
  from event_complete [OF small s'] p have "ig_table s' @ ig_buffer s' = ig_table s @ ig_buffer s @ [row]" by simp
  moreover have "ingester_session loads fl py_repr
        [Message t1 d1 (fst (context_wire dumps m)) (snd (context_wire dumps m)), ?e] s = (Inr (), s')"
    using c s' by (simp add: ingester_session_def seq_act_def ret_def)
  moreover have "\<bar>real_of_int (tr_time row) - now * 1000000\<bar> \<le> 1 / 2" using round_half_even_error by (simp add: row_def)
  moreover note py_round_error [of 4 "st_voltage_v st"] py_round_error [of 4 "st_current_a st"] py_round_error [of 4 "st_soc st"]
    py_round_error [of 2 "st_temperature_c st"]
  ultimately show ?thesis
    using publish_sends [OF assms(1, 2)] by (intro conjI exI [of _ s'] exI [of _ row] exI) (simp_all add: row_def)
qed

lemma telemetry_reaches_database_witness:
  "\<exists>st s' row. channel_read_state lin_interp (channel_new 0 3 (ecm_cell_new chem_NMC 3 (1 / 2)) 4400) = Inr st \<and>
    ingester_session Inr (\<lambda>_. Inl ValueErr) (\<lambda>_. [])
      [Message 0 0 (topic3 ''experiment'' 1 3) (Body (context_json (CtxPublish 1 3 ''soak'' ''cc_charge'' 0 0 ''e''))),
       Message 0 0 (topic3 ''telemetry'' 1 3) (Body (telemetry_payload 5 (channel_new 0 3 (ecm_cell_new chem_NMC 3 (1 / 2)) 4400) st))]
      (ingester_start 0 [] []) = (Inr (), s') \<and>
    ig_table s' @ ig_buffer s' = [row] \<and> tr_schedule_id row = ''soak'' \<and> tr_step_name row = ''cc_charge''"
proof -
  let ?ch = "channel_new 0 3 (ecm_cell_new chem_NMC 3 (1 / 2)) 4400" and ?m = "CtxPublish 1 3 ''soak'' ''cc_charge'' 0 0 ''e''"
  let ?p = "publisher_start (\<lambda>_. None) [?ch] []"
  have c: "cell_ok (ecm_cell_new chem_NMC 3 (1 / 2))"
    using chem_ok_shipped [of "''NMC''" chem_NMC] by (intro cell_ok_new) (simp_all add: CHEMISTRIES_def)
  obtain st where st: "channel_read_state lin_interp ?ch = Inr st"
    using ecm_read_state_ok [OF c, of lin_interp] by (auto simp: channel_read_state_def channel_new_def)
  then obtain p' where p': "publish_channel lin_interp 1 5 (?ch, ?ch) ?p = (Inr (), p')"
    by (simp add: publish_channel_def publish_transition_def publisher_start_def bind_act_def seq_act_def
        mqtt_publish_def run_simps Let_def channel_new_def)
  have small: "small (ingester_start 0 [] [])" "ig_faults (ingester_start 0 [] []) = []"
    by (simp_all add: small_def ingester_start_def BATCH_MAX_def)
  have idx: "ch_idx ?ch = 3" by (simp add: channel_new_def)
  have ctx: "fst (context_wire (\<lambda>v. v) ?m) = topic3 ''experiment'' 1 3" "snd (context_wire (\<lambda>v. v) ?m) = Body (context_json ?m)"
    "ig_table (ingester_start 0 [] []) = []" "ig_buffer (ingester_start 0 [] []) = []"
    by (simp_all add: context_wire_def ingester_start_def)
  note reach = telemetry_reaches_database [where loads = Inr and dumps = "\<lambda>v. v" and m = ?m, OF st p' refl _ _ refl _ _ small,
      of "\<lambda>_. Inl ValueErr" "\<lambda>_. []" 0 0 0 0, unfolded idx ctx append_Nil context_labels_def context_msg.case prod.inject]
  from reach st show ?thesis by simp blast
qed

text \<open>A payload that is valid JSON but no object ends the process: \<open>TypeError\<close> is not among the handled exceptions.\<close>

lemma array_payload_kills:
  assumes "loads p = Inr (JArr xs)"
  shows "ingester_run loads fl py_repr (Message now d (topic3 ''telemetry'' a b) (Body p) # evs) s = (Inl TypeErr, s)"
  using assms by (simp add: handle_telemetry parse_row_def read_row_def none_on_def seq_act_def catch_act_def)

end
