(* ===== verification/Calendar.thy ===== *)
theory Calendar
  imports Json
begin

section \<open>Hours and dates\<close>

text \<open>
  A UTC \<open>datetime\<close> is its number of microseconds since the epoch; its fields follow the proleptic
  Gregorian calendar of Python's standard library. \<open>hive_path\<close> of \<open>parquet_export/s3.py\<close> names the
  object of an hour by those fields.
\<close>

definition HOUR :: int where "HOUR = 3600000000"

text \<open>The length of the months, and month and day of a day of the year (counted from 0).\<close>

definition month_lengths :: "bool \<Rightarrow> int list" where
  "month_lengths leap = [31, if leap then 29 else 28, 31, 30, 31, 30, 31, 31, 30, 31, 30, 31]"

fun month_day :: "nat \<Rightarrow> int list \<Rightarrow> int \<Rightarrow> nat \<times> int" where
  "month_day m [] n = (m, n + 1)"
| "month_day m (l # ls) n = (if n < l then (m, n + 1) else month_day (Suc m) ls (n - l))"

text \<open>Year and day of the year, from the days since 0001-01-01.\<close>

definition year_day :: "int \<Rightarrow> int \<times> bool \<times> int" where
  "year_day n =
     (let n400 = n div 146097; a = n mod 146097;
          n100 = min 3 (a div 36524); b = a - n100 * 36524;
          n4 = b div 1461; c = b mod 1461;
          n1 = min 3 (c div 365)
      in (400 * n400 + 100 * n100 + 4 * n4 + n1 + 1, n1 = 3 \<and> (n4 \<noteq> 24 \<or> n100 = 3), c - n1 * 365))"

record fields =
  dt_year :: int
  dt_month :: nat
  dt_day :: int
  dt_hour :: int

definition datetime_fields :: "int \<Rightarrow> fields" where
  "datetime_fields us =
     (let (y, leap, n) = year_day (us div (24 * HOUR) + 719162);
          (m, d) = month_day 1 (month_lengths leap) n
      in \<lparr>dt_year = y, dt_month = m, dt_day = d, dt_hour = us mod (24 * HOUR) div HOUR\<rparr>)"

definition hive_path :: "string \<Rightarrow> int \<Rightarrow> string" where
  "hive_path bucket hour_start =
     (let f = datetime_fields hour_start in
      bucket @ ''/telemetry'' @ ''/year='' @ show_int (dt_year f) @ ''/month='' @ show_02d (dt_month f)
        @ ''/day='' @ show_02d (nat (dt_day f)) @ ''/hour='' @ show_02d (nat (dt_hour f)) @ ''/data.parquet'')"

definition time_bucket :: "int \<Rightarrow> int" where
  "time_bucket t = t div HOUR * HOUR"

text \<open>\<open>ts.replace(minute=0, second=0, microsecond=0)\<close>.\<close>

definition hour_floor :: "int \<Rightarrow> int" where
  "hour_floor ts = ts - ts mod HOUR"

lemma datetime_examples:
  "datetime_fields 0 = \<lparr>dt_year = 1970, dt_month = 1, dt_day = 1, dt_hour = 0\<rparr>"
  "datetime_fields 951782400000000 = \<lparr>dt_year = 2000, dt_month = 2, dt_day = 29, dt_hour = 0\<rparr>"
  "datetime_fields 1798757999000000 = \<lparr>dt_year = 2026, dt_month = 12, dt_day = 31, dt_hour = 22\<rparr>"
  by code_simp+

lemma hour_floor_bucket: "hour_floor t = time_bucket t"
  by (simp add: hour_floor_def time_bucket_def minus_mod_eq_div_mult)

lemma time_bucket_bounds: "time_bucket t \<le> t \<and> t < time_bucket t + HOUR"
  by (simp add: time_bucket_def HOUR_def) linarith

lemma time_bucket_idem [simp]: "time_bucket (time_bucket t) = time_bucket t" "time_bucket (hour_floor t) = hour_floor t"
  by (simp_all add: time_bucket_def HOUR_def hour_floor_bucket)

text \<open>Below an hour boundary means a whole hour below it.\<close>

lemma bucket_below:
  assumes "c = hour_floor x" shows "time_bucket t + HOUR \<le> c \<longleftrightarrow> t < c"
proof -
  obtain k where c: "c = k * HOUR" using assms by (metis hour_floor_bucket time_bucket_def)
  show ?thesis
  proof
    assume "time_bucket t + HOUR \<le> c"
    then show "t < c" using time_bucket_bounds [of t] by linarith
  next
    assume "t < c"
    then have "t div HOUR < k" unfolding c by (simp add: HOUR_def)
    then have "(t div HOUR + 1) * HOUR \<le> k * HOUR" by (intro mult_right_mono) (simp_all add: HOUR_def)
    then show "time_bucket t + HOUR \<le> c" by (simp add: c time_bucket_def algebra_simps)
  qed
qed

subsection \<open>Different hours have different objects\<close>

lemma month_day_inverse: "month_day m ls n = (m', d) \<Longrightarrow> m \<le> m' \<and> n = sum_list (take (m' - m) ls) + d - 1"
proof (induction m ls n rule: month_day.induct)
  case (2 m l ls n)
  show ?case
  proof (cases "n < l")
    case True
    with 2 show ?thesis by auto
  next
    case False
    with 2 have i: "Suc m \<le> m'" "n - l = sum_list (take (m' - Suc m) ls) + d - 1" by auto
    then have "m' - m = Suc (m' - Suc m)" by simp
    with i show ?thesis by simp
  qed
qed auto

lemma digits_unique:
  fixes a b c e :: int
  assumes "400 * a + 100 * b + 4 * c + e = 400 * a' + 100 * b' + 4 * c' + e'"
    "b \<in> {0..3}" "b' \<in> {0..3}" "c \<in> {0..24}" "c' \<in> {0..24}" "e \<in> {0..3}" "e' \<in> {0..3}"
  shows "a = a' \<and> b = b' \<and> c = c' \<and> e = e'"
proof -
  have a: "a = (400 * a + 100 * b + 4 * c + e) div 400" if "b \<in> {0..3}" "c \<in> {0..24}" "e \<in> {0..3}" for a b c e :: int
    using that by auto
  have b: "b = (100 * b + 4 * c + e) div 100" if "c \<in> {0..24}" "e \<in> {0..3}" for b c e :: int using that by auto
  have aa: "a = a'" using a [of b c e a] a [of b' c' e' a'] assms by simp
  then have "100 * b + 4 * c + e = 100 * b' + 4 * c' + e'" using assms(1) by simp
  moreover from this have bb: "b = b'" using b [of c e b] b [of c' e' b'] assms by simp
  ultimately have "4 * c + e = 4 * c' + e'" by simp
  moreover have "c = (4 * c + e) div 4" if "e \<in> {0..3}" for c e :: int using that by auto
  ultimately have "c = c'" using assms(6, 7) by metis
  with \<open>4 * c + e = 4 * c' + e'\<close> aa bb show ?thesis by simp
qed

lemma year_day_inj:
  assumes "year_day n = (y, l, d)" "year_day n' = (y, l', d')" shows "l = l' \<and> (d = d' \<longrightarrow> n = n')"
proof -
  define a where "a n = n mod 146097" for n :: int
  define n100 where "n100 n = min 3 (a n div 36524)" for n
  define b where "b n = a n - n100 n * 36524" for n
  define n4 where "n4 n = b n div 1461" for n
  define c where "c n = b n mod 1461" for n
  define n1 where "n1 n = min 3 (c n div 365)" for n
  note defs = a_def n100_def b_def n4_def c_def n1_def
  have yd: "year_day n = (400 * (n div 146097) + 100 * n100 n + 4 * n4 n + n1 n + 1, n1 n = 3 \<and> (n4 n \<noteq> 24 \<or> n100 n = 3), c n - n1 n * 365)" for n
    unfolding year_day_def Let_def defs by (rule refl)
  have "0 \<le> a n" "a n < 146097" for n by (simp_all add: a_def)
  note a = this
  have r100: "n100 n \<in> {0..3}" for n using a [of n] by (auto simp: n100_def min_def pos_imp_zdiv_nonneg_iff)
  have rb: "0 \<le> b n \<and> b n < 36525" for n
  proof (cases "a n div 36524 \<le> 3")
    case True
    then have "b n = a n mod 36524" by (simp add: b_def n100_def minus_div_mult_eq_mod min_def)
    then show ?thesis by simp
  next
    case False
    then have "109572 \<le> a n" by linarith
    with False a [of n] show ?thesis by (simp add: b_def n100_def)
  qed
  have r4: "n4 n \<in> {0..24}" for n
  proof -
    have "0 \<le> b n" "b n < 36525" using rb by simp_all
    then have "0 \<le> b n div 1461" "b n div 1461 \<le> 24" by linarith+
    then show ?thesis by (simp add: n4_def)
  qed
  have r1: "n1 n \<in> {0..3}" for n by (simp add: n1_def c_def pos_imp_zdiv_nonneg_iff)
  have n: "n = 146097 * (n div 146097) + 36524 * n100 n + 1461 * n4 n + c n" for n
    by (simp add: n4_def c_def b_def a_def)
  from assms have "400 * (n div 146097) + 100 * n100 n + 4 * n4 n + n1 n = 400 * (n' div 146097) + 100 * n100 n' + 4 * n4 n' + n1 n'"
    by (simp add: yd)
  from digits_unique [OF this r100 r100 r4 r4 r1 r1]
  have e: "n div 146097 = n' div 146097" "n100 n = n100 n'" "n4 n = n4 n'" "n1 n = n1 n'" by blast+
  then have "c n = c n'" if "d = d'" using that assms by (simp add: yd)
  with e n [of n] n [of n'] assms show ?thesis by (auto simp: yd)
qed

lemma datetime_fields_inj:
  assumes "datetime_fields (time_bucket t) = datetime_fields (time_bucket t')" shows "time_bucket t = time_bucket t'"
proof -
  let ?h = "\<lambda>t. time_bucket t" and ?D = "24 * HOUR"
  obtain y l n where y: "year_day (?h t div ?D + 719162) = (y, l, n)" by (cases "year_day (?h t div ?D + 719162)")
  obtain y' l' n' where y': "year_day (?h t' div ?D + 719162) = (y', l', n')" by (cases "year_day (?h t' div ?D + 719162)")
  obtain m d where m: "month_day 1 (month_lengths l) n = (m, d)" by (cases "month_day 1 (month_lengths l) n")
  obtain m' d' where m': "month_day 1 (month_lengths l') n' = (m', d')" by (cases "month_day 1 (month_lengths l') n'")
  have f: "y = y'" "m = m'" "d = d'" "?h t mod ?D div HOUR = ?h t' mod ?D div HOUR"
    using assms y y' m m' by (simp_all add: datetime_fields_def)
  have inj: "l = l'" "n = n' \<Longrightarrow> ?h t div ?D = ?h t' div ?D" using year_day_inj [OF y y' [folded f(1)]] by simp_all
  then have "n = n'" using month_day_inverse [OF m] month_day_inverse [OF m'] f by simp
  then have "?h t div ?D = ?h t' div ?D" by (rule inj(2))
  moreover have "?h t mod ?D = ?h t mod ?D div HOUR * HOUR" for t
    unfolding time_bucket_def mod_mult_mult2 by (simp add: HOUR_def)
  ultimately show ?thesis using f(4) by (metis div_mult_mod_eq)
qed

lemma field_chars:
  "CHR ''/'' \<notin> set (show_int i)" "CHR ''/'' \<notin> set (show_02d n)"
  using show_int_chars [of "CHR ''/''" i] show_02d_digits [of "CHR ''/''" n] by auto

lemma show_int_inj: "show_int i = show_int j \<longleftrightarrow> i = j"
  by (metis parse_int_show_int sum.inject(2))

lemma show_02d_inj: "show_02d m = show_02d n \<longleftrightarrow> m = n"
  by (metis digits_val_show_02d)

lemma split_hive:
  "split_on CHR ''/'' (''/telemetry'' @ ''/year='' @ show_int y @ ''/month='' @ show_02d m @ ''/day='' @ show_02d d @ ''/hour='' @ show_02d h @ ''/data.parquet'') =
    [[], ''telemetry'', ''year='' @ show_int y, ''month='' @ show_02d m, ''day='' @ show_02d d, ''hour='' @ show_02d h, ''data.parquet'']"
proof -
  let ?ps = "[[], ''telemetry'', ''year='' @ show_int y, ''month='' @ show_02d m, ''day='' @ show_02d d, ''hour='' @ show_02d h, ''data.parquet'']"
  have "split_on CHR ''/'' (join_with CHR ''/'' ?ps) = ?ps" by (rule split_on_join) (simp_all add: field_chars)
  then show ?thesis by simp
qed

lemma month_day_pos: "month_day m ls n = (m', d) \<Longrightarrow> 0 \<le> n \<Longrightarrow> 1 \<le> d"
  by (induction m ls n rule: month_day.induct) (auto split: if_splits)

lemma year_day_nonneg: "year_day n = (y, l, d) \<Longrightarrow> 0 \<le> d"
proof -
  have nonneg: "0 \<le> b mod 1461 - min 3 (b mod 1461 div 365) * 365" for b :: int
  proof -
    have "min 3 (b mod 1461 div 365) * 365 \<le> b mod 1461 div 365 * 365" by (intro mult_right_mono) simp_all
    also have "\<dots> \<le> b mod 1461" by linarith
    finally show ?thesis by simp
  qed
  assume "year_day n = (y, l, d)"
  then have "d = snd (snd (year_day n))" by simp
  also have "0 \<le> \<dots>" unfolding year_day_def Let_def snd_conv by (rule nonneg)
  finally show ?thesis .
qed

lemma day_pos: "1 \<le> dt_day (datetime_fields us)"
proof -
  obtain y l n where y: "year_day (us div (24 * HOUR) + 719162) = (y, l, n)" by (cases "year_day (us div (24 * HOUR) + 719162)")
  obtain m d where m: "month_day 1 (month_lengths l) n = (m, d)" by (cases "month_day 1 (month_lengths l) n")
  have "0 \<le> n" using y by (rule year_day_nonneg)
  then show ?thesis using month_day_pos [OF m] y m by (simp add: datetime_fields_def)
qed

lemma hive_path_bucket:
  assumes "hive_path b (time_bucket t) = hive_path b (time_bucket t')" shows "time_bucket t = time_bucket t'"
proof -
  let ?f = "\<lambda>t. datetime_fields (time_bucket t)"
  have same: "show_int (dt_year (?f t)) = show_int (dt_year (?f t'))" "show_02d (dt_month (?f t)) = show_02d (dt_month (?f t'))"
    "show_02d (nat (dt_day (?f t))) = show_02d (nat (dt_day (?f t')))" "show_02d (nat (dt_hour (?f t))) = show_02d (nat (dt_hour (?f t')))"
    using assms arg_cong [where f = "split_on CHR ''/''"] unfolding hive_path_def Let_def same_append_eq
    by (metis (no_types, lifting) split_hive list.inject same_append_eq)+
  have pos: "1 \<le> dt_day (?f t)" "0 \<le> dt_hour (?f t)" for t
    using day_pos by (simp_all add: datetime_fields_def HOUR_def pos_imp_zdiv_nonneg_iff split: prod.split)
  have "0 \<le> dt_day (?f t)" for t using pos(1) [of t] by linarith
  then have "dt_day (?f t) = dt_day (?f t')" "dt_hour (?f t) = dt_hour (?f t')"
    using same(3, 4) pos(2) by (simp_all add: show_02d_inj eq_nat_nat_iff)
  with same(1, 2) show ?thesis
    by (intro datetime_fields_inj fields.equality) (simp_all add: show_int_inj show_02d_inj)
qed

end
