(* ===== verification/Parquet_Export.thy ===== *)
theory Parquet_Export
  imports Ingester Calendar
begin

section \<open>The hourly export to Parquet\<close>

text \<open>
  \<open>parquet_export\<close>: hours of telemetry older than a cutoff are streamed to one object each,
  recorded in a ledger, and then dropped from the hot table. The database, the object store
  and pyarrow are outside src/: a statement or a store operation asks the fault oracle, as
  in the orchestrator; an object appears in the store when its stream is closed; the size of
  an object is a parameter. A chunk of the hypertable is one hour, as the migration sets it.
\<close>

record ledger_row =
  lg_hour_start :: int
  lg_s3_path :: string
  lg_row_count :: nat
  lg_byte_count :: nat

type_synonym batches = "telemetry_row list list"

record export_world =
  xw_telemetry :: "telemetry_row list"
  xw_ledger :: "ledger_row list"
  xw_objects :: "string \<rightharpoonup> batches"
  xw_upload :: "batches option"
  xw_faults :: "fault list"
  xw_fetches :: nat

definition BATCH_ROWS :: nat where "BATCH_ROWS = 100000"

definition stmt :: "(export_world \<Rightarrow> export_world) \<Rightarrow> (export_world, unit) act" where
  "stmt f w =
     (case xw_faults w of
        [] \<Rightarrow> (Inr (), f w)
      | Commit # fs \<Rightarrow> (Inr (), f (w\<lparr>xw_faults := fs\<rparr>))
      | Reject e # fs \<Rightarrow> (Inl e, w\<lparr>xw_faults := fs\<rparr>)
      | Lost e # fs \<Rightarrow> (Inl e, f (w\<lparr>xw_faults := fs\<rparr>)))"

definition query :: "(export_world \<Rightarrow> 'a) \<Rightarrow> (export_world, 'a) act" where
  "query g = seq_act (stmt (\<lambda>w. w)) (get_act g)"

text \<open>\<open>try: m finally: f\<close>; an exception of \<open>f\<close> wins.\<close>

definition finally_act :: "('s, 'a) act \<Rightarrow> ('s, unit) act \<Rightarrow> ('s, 'a) act" where
  "finally_act m f s = (case m s of (r, s1) \<Rightarrow> (case f s1 of (Inl e, s2) \<Rightarrow> (Inl e, s2) | (Inr _, s2) \<Rightarrow> (r, s2)))"

definition ledger_hours :: "export_world \<Rightarrow> int set" where
  "ledger_hours w = lg_hour_start ` set (xw_ledger w)"

definition find_pending_hours :: "int \<Rightarrow> (export_world, int list) act" where
  "find_pending_hours cutoff = query (\<lambda>w.
     sort (remdups (filter (\<lambda>h. h \<notin> ledger_hours w)
       (map (time_bucket \<circ> tr_time) (filter (\<lambda>r. tr_time r < cutoff) (xw_telemetry w))))))"

definition record_export :: "int \<Rightarrow> string \<Rightarrow> nat \<Rightarrow> nat \<Rightarrow> (export_world, unit) act" where
  "record_export hour_start path row_count byte_count = stmt (\<lambda>w.
     if hour_start \<in> ledger_hours w then w
     else w\<lparr>xw_ledger := xw_ledger w @ [\<lparr>lg_hour_start = hour_start, lg_s3_path = path, lg_row_count = row_count, lg_byte_count = byte_count\<rparr>]\<rparr>)"

text \<open>The rows of the cursor.\<close>

definition hour_rows :: "int \<Rightarrow> export_world \<Rightarrow> telemetry_row list" where
  "hour_rows hour_start w =
     sort_key tr_time (filter (\<lambda>r. hour_start \<le> tr_time r \<and> tr_time r < hour_start + HOUR) (xw_telemetry w))"

definition fetch_act :: "(export_world, unit) act" where
  "fetch_act = seq_act (mod_act (\<lambda>w. w\<lparr>xw_fetches := Suc (xw_fetches w)\<rparr>)) (stmt (\<lambda>w. w))"

definition open_upload :: "(export_world, unit) act" where
  "open_upload = bind_act (get_act xw_upload) (\<lambda>writer.
     when_act (writer = None) (seq_act (stmt (\<lambda>w. w)) (mod_act (\<lambda>w. w\<lparr>xw_upload := Some []\<rparr>))))"

definition write_batch :: "telemetry_row list \<Rightarrow> (export_world, unit) act" where
  "write_batch batch = stmt (\<lambda>w. w\<lparr>xw_upload := map_option (\<lambda>bs. bs @ [batch]) (xw_upload w)\<rparr>)"

definition close_upload :: "string \<Rightarrow> (export_world, unit) act" where
  "close_upload path w =
     (case xw_upload w of
        None \<Rightarrow> (Inr (), w)
      | Some bs \<Rightarrow> stmt (\<lambda>w. w\<lparr>xw_objects := (xw_objects w)(path \<mapsto> bs)\<rparr>) (w\<lparr>xw_upload := None\<rparr>))"

function stream_rows :: "telemetry_row list \<Rightarrow> (export_world, nat) act" where
  "stream_rows cursor =
     seq_act fetch_act
       (let records = take BATCH_ROWS cursor in
        if records = [] then ret 0
        else seq_act open_upload
          (seq_act (write_batch records)
            (bind_act (stream_rows (drop BATCH_ROWS cursor)) (\<lambda>n. ret (length records + n)))))"
  by pat_completeness auto
termination
  by (relation "measure length") (auto simp: BATCH_ROWS_def)

declare stream_rows.simps [simp del]

definition export_hour :: "(batches \<Rightarrow> nat) \<Rightarrow> string \<Rightarrow> int \<Rightarrow> (export_world, nat \<times> nat) act" where
  "export_hour obj_size bucket hour_start =
     (let path = hive_path bucket hour_start in
      bind_act (finally_act (bind_act (query (hour_rows hour_start)) stream_rows) (close_upload path)) (\<lambda>row_count.
        if row_count = 0
        then seq_act (record_export hour_start path 0 0) (ret (0, 0))
        else bind_act (query (\<lambda>w. case xw_objects w path of None \<Rightarrow> 0 | Some bs \<Rightarrow> obj_size bs)) (\<lambda>byte_count.
          seq_act (record_export hour_start path row_count byte_count) (ret (row_count, byte_count)))))"

definition drop_exported_chunks :: "int \<Rightarrow> (export_world, nat) act" where
  "drop_exported_chunks cutoff =
     bind_act (get_act (\<lambda>w. length (remdups (map (time_bucket \<circ> tr_time)
         (filter (\<lambda>r. time_bucket (tr_time r) + HOUR \<le> cutoff) (xw_telemetry w)))))) (\<lambda>n.
       seq_act (stmt (\<lambda>w. w\<lparr>xw_telemetry := filter (\<lambda>r. \<not> time_bucket (tr_time r) + HOUR \<le> cutoff) (xw_telemetry w)\<rparr>)) (ret n))"

record summary =
  sm_exported_hours :: nat
  sm_total_rows :: nat
  sm_total_bytes :: nat
  sm_chunks_dropped :: nat

text \<open>The loop over the pending hours; the first failure stops it.\<close>

fun export_all :: "(batches \<Rightarrow> nat) \<Rightarrow> string \<Rightarrow> int list \<Rightarrow> (export_world, nat \<times> nat \<times> nat) act" where
  "export_all obj_size bucket [] = ret (0, 0, 0)"
| "export_all obj_size bucket (h # hs) =
     bind_act (catch_act (bind_act (export_hour obj_size bucket h) (\<lambda>x. ret (Some x)))
         (\<lambda>e. e \<in> {PostgresErr, OSErr}) (\<lambda>_. ret None)) (\<lambda>r.
       case r of
         None \<Rightarrow> ret (0, 0, 0)
       | Some (rc, bc) \<Rightarrow> bind_act (export_all obj_size bucket hs) (\<lambda>(k, rows, bytes). ret (Suc k, rc + rows, bc + bytes)))"

definition run_once :: "(batches \<Rightarrow> nat) \<Rightarrow> string \<Rightarrow> int \<Rightarrow> nat \<Rightarrow> (export_world, summary) act" where
  "run_once obj_size bucket now age_hours =
     (let cutoff = hour_floor (now - int age_hours * HOUR) in
      bind_act (find_pending_hours cutoff) (\<lambda>pending.
      bind_act (export_all obj_size bucket pending) (\<lambda>(exported, total_rows, total_bytes).
      bind_act (if exported = length pending \<and> pending \<noteq> [] then drop_exported_chunks cutoff else ret 0) (\<lambda>dropped.
        ret \<lparr>sm_exported_hours = exported, sm_total_rows = total_rows, sm_total_bytes = total_bytes, sm_chunks_dropped = dropped\<rparr>))))"

text \<open>
  What happens to the store over time: the ingester copies rows, the exporter makes a pass. An
  exception of a pass is logged or ends the process; both leave the tables to the next pass.
  The one-shot of \<open>--now\<close> is a pass with age 0.
\<close>

datatype export_event = Ingest "telemetry_row list" | ExportPass int nat

fun export_step :: "(batches \<Rightarrow> nat) \<Rightarrow> string \<Rightarrow> export_event \<Rightarrow> export_world \<Rightarrow> export_world" where
  "export_step obj_size bucket (Ingest rows) w = w\<lparr>xw_telemetry := xw_telemetry w @ rows\<rparr>"
| "export_step obj_size bucket (ExportPass now age) w = (snd (run_once obj_size bucket now age w))\<lparr>xw_upload := None\<rparr>"

fun export_run :: "(batches \<Rightarrow> nat) \<Rightarrow> string \<Rightarrow> export_event list \<Rightarrow> export_world \<Rightarrow> export_world" where
  "export_run obj_size bucket [] w = w"
| "export_run obj_size bucket (ev # evs) w = export_run obj_size bucket evs (export_step obj_size bucket ev w)"

definition export_start :: "fault list \<Rightarrow> export_world" where
  "export_start faults = \<lparr>xw_telemetry = [], xw_ledger = [], xw_objects = (\<lambda>_. None), xw_upload = None, xw_faults = faults, xw_fetches = 0\<rparr>"

subsection \<open>Streaming one hour\<close>

fun chunks :: "nat \<Rightarrow> 'a list \<Rightarrow> 'a list list" where
  "chunks 0 xs = []"
| "chunks n [] = []"
| "chunks (Suc n) (x # xs) = take (Suc n) (x # xs) # chunks (Suc n) (drop (Suc n) (x # xs))"

lemma chunks_Nil [simp]: "chunks n [] = []"
  by (cases n) simp_all

lemma chunks_step: "0 < n \<Longrightarrow> xs \<noteq> [] \<Longrightarrow> chunks n xs = take n xs # chunks n (drop n xs)"
  by (cases n; cases xs) simp_all

lemma chunks_props:
  "0 < n \<Longrightarrow> concat (chunks n xs) = xs \<and> (\<forall>c \<in> set (chunks n xs). c \<noteq> [] \<and> length c \<le> n) \<and> length (chunks n xs) = (length xs + n - 1) div n"
proof (induction "length xs" arbitrary: xs rule: less_induct)
  case less
  show ?case
  proof (cases "xs = []")
    case True
    then show ?thesis using less.prems by simp
  next
    case False
    with less have i: "concat (chunks n (drop n xs)) = drop n xs" "\<forall>c \<in> set (chunks n (drop n xs)). c \<noteq> [] \<and> length c \<le> n"
      "length (chunks n (drop n xs)) = (length (drop n xs) + n - 1) div n" by (metis diff_less length_drop length_greater_0_conv)+
    have "Suc ((length xs - n + n - 1) div n) = (length xs + n - 1) div n"
    proof (cases "n \<le> length xs")
      case True
      then have "length xs + n - 1 = (length xs - 1) + n" using less.prems by simp
      then have "(length xs + n - 1) div n = Suc ((length xs - 1) div n)" using less.prems by (simp only: div_add_self2)
      then show ?thesis using True by simp
    next
      case f: False
      have "(length xs + n - 1) div n = 1"
        using f False less.prems by (cases xs) (auto intro: div_nat_eqI)
      then show ?thesis using f less.prems by simp
    qed
    with i False less.prems show ?thesis unfolding chunks_step [OF less.prems False] by simp
  qed
qed

text \<open>Without faults.\<close>

definition writer_batches :: "export_world \<Rightarrow> batches" where
  "writer_batches w = (case xw_upload w of None \<Rightarrow> [] | Some bs \<Rightarrow> bs)"

lemma stream_ok:
  assumes "xw_faults w = []"
  shows "stream_rows cursor w = (Inr (length cursor),
    w\<lparr>xw_fetches := xw_fetches w + length (chunks BATCH_ROWS cursor) + 1,
      xw_upload := (if cursor = [] then xw_upload w else Some (writer_batches w @ chunks BATCH_ROWS cursor))\<rparr>)"
  using assms
proof (induction "length cursor" arbitrary: cursor w rule: less_induct)
  case less
  have fetch: "fetch_act w = (Inr (), w\<lparr>xw_fetches := Suc (xw_fetches w)\<rparr>)"
    using less.prems by (simp add: fetch_act_def seq_act_def mod_act_def stmt_def)
  show ?case
  proof (cases "cursor = []")
    case True
    then show ?thesis
      by (simp add: stream_rows.simps [of "[]"] seq_act_def fetch ret_def)
  next
    case False
    let ?r = "take BATCH_ROWS cursor" and ?rest = "drop BATCH_ROWS cursor"
    have pos: "0 < BATCH_ROWS" by (simp add: BATCH_ROWS_def)
    have r: "?r \<noteq> []" using False pos by simp
    define w1 where "w1 = w\<lparr>xw_fetches := Suc (xw_fetches w), xw_upload := Some (writer_batches w @ [?r])\<rparr>"
    have "seq_act open_upload (seq_act (write_batch ?r) k) (w\<lparr>xw_fetches := Suc (xw_fetches w)\<rparr>) = k w1" for k :: "(export_world, nat) act"
      using less.prems
      by (cases "xw_upload w") (simp_all add: open_upload_def bind_act_def get_act_def when_act_def ret_def seq_act_def stmt_def mod_act_def
          write_batch_def w1_def writer_batches_def)
    then have step: "stream_rows cursor w = bind_act (stream_rows ?rest) (\<lambda>n. ret (length ?r + n)) w1"
      using r by (simp add: stream_rows.simps [of cursor] seq_act_def fetch Let_def)
    have "length ?rest < length cursor" "xw_faults w1 = []" using False pos less.prems by (simp_all add: w1_def)
    from less.hyps [OF this] have "stream_rows ?rest w1 = (Inr (length ?rest),
      w1\<lparr>xw_fetches := xw_fetches w1 + length (chunks BATCH_ROWS ?rest) + 1,
        xw_upload := (if ?rest = [] then xw_upload w1 else Some (writer_batches w1 @ chunks BATCH_ROWS ?rest))\<rparr>)" .
    with step False pos show ?thesis
      unfolding chunks_step [OF pos False] by (auto simp: bind_act_def ret_def w1_def writer_batches_def)
  qed
qed

lemma query_ok: "xw_faults w = [] \<Longrightarrow> query g w = (Inr (g w), w)"
  by (simp add: query_def seq_act_def stmt_def get_act_def)

lemma record_ok:
  assumes "xw_faults w = []"
  shows "\<exists>w'. record_export h path n b w = (Inr (), w') \<and> h \<in> ledger_hours w' \<and> xw_telemetry w' = xw_telemetry w \<and>
    xw_objects w' = xw_objects w \<and> xw_upload w' = xw_upload w \<and> xw_fetches w' = xw_fetches w \<and> xw_faults w' = []"
  using assms by (simp add: record_export_def stmt_def ledger_hours_def)

text \<open>The upload of an hour without faults: everything before the ledger.\<close>

lemma upload_ok:
  fixes hour :: int and w :: export_world
  assumes "xw_faults w = []" "xw_upload w = None"
  defines "rows \<equiv> hour_rows hour w"
  shows "finally_act (bind_act (query (hour_rows hour)) stream_rows) (close_upload path) w =
    (Inr (length rows), w\<lparr>xw_fetches := xw_fetches w + length (chunks BATCH_ROWS rows) + 1,
      xw_objects := (if rows = [] then xw_objects w else (xw_objects w)(path \<mapsto> chunks BATCH_ROWS rows))\<rparr>)"
  using assms(1, 2) unfolding rows_def
  by (auto simp: finally_act_def bind_act_def query_ok stream_ok close_upload_def stmt_def writer_batches_def)

lemma export_hour_result:
  fixes hour :: int and w :: export_world and obj_size :: "batches \<Rightarrow> nat"
  assumes "xw_faults w = []" "xw_upload w = None"
  defines "rows \<equiv> hour_rows hour w"
  defines "bs \<equiv> chunks BATCH_ROWS rows"
  defines "b \<equiv> if rows = [] then 0 else obj_size bs"
  shows "\<exists>w'. export_hour obj_size bucket hour w = (Inr (length rows, b), w') \<and>
    xw_fetches w' = xw_fetches w + length bs + 1 \<and>
    xw_objects w' = (if rows = [] then xw_objects w else (xw_objects w)(hive_path bucket hour \<mapsto> bs)) \<and>
    hour \<in> ledger_hours w' \<and> xw_telemetry w' = xw_telemetry w \<and> xw_upload w' = None"
proof -
  let ?path = "hive_path bucket hour"
  define w1 where "w1 = w\<lparr>xw_fetches := xw_fetches w + length bs + 1,
      xw_objects := (if rows = [] then xw_objects w else (xw_objects w)(?path \<mapsto> bs))\<rparr>"
  have up: "finally_act (bind_act (query (hour_rows hour)) stream_rows) (close_upload ?path) w = (Inr (length rows), w1)"
    unfolding w1_def rows_def bs_def by (rule upload_ok [OF assms(1, 2)])
  have w1: "xw_faults w1 = []" using assms(1) by (simp add: w1_def)
  obtain w' where r: "record_export hour ?path (length rows) b w1 = (Inr (), w')" and w': "hour \<in> ledger_hours w'"
    "xw_telemetry w' = xw_telemetry w1" "xw_objects w' = xw_objects w1" "xw_upload w' = xw_upload w1" "xw_fetches w' = xw_fetches w1"
    using record_ok [OF w1, of hour ?path "length rows" b] by blast
  have "export_hour obj_size bucket hour w = (Inr (length rows, b), w')"
  proof (cases "rows = []")
    case True
    with up r show ?thesis by (simp add: export_hour_def Let_def bind_act_def seq_act_def ret_def b_def)
  next
    case False
    then have "xw_objects w1 ?path = Some bs" by (simp add: w1_def)
    with up r False show ?thesis
      by (simp add: export_hour_def Let_def bind_act_def seq_act_def ret_def b_def query_ok [OF w1])
  qed
  with w' assms(2) show ?thesis by (auto simp: w1_def)
qed

text \<open>
  C39. Exporting an hour. Whatever its number of rows, the loop ends after one fetch per started
  hundred thousand rows and one more; without faults the object then holds all rows of the
  hour, ordered by time, in row groups of at most that size, and the ledger has the hour. An
  hour without rows writes no object and is recorded as empty.
\<close>

theorem export_hour_streams:
  fixes hour :: int and w :: export_world
  assumes "xw_faults w = []" "xw_upload w = None"
  defines "rows \<equiv> hour_rows hour w"
  shows "\<exists>w' b. export_hour obj_size bucket hour w = (Inr (length rows, b), w') \<and>
    xw_fetches w' = xw_fetches w + (length rows + BATCH_ROWS - 1) div BATCH_ROWS + 1 \<and>
    (if rows = [] then xw_objects w' = xw_objects w
     else \<exists>bs. xw_objects w' = (xw_objects w)(hive_path bucket hour \<mapsto> bs) \<and> b = obj_size bs \<and> concat bs = rows \<and>
       sorted (map tr_time (concat bs)) \<and> (\<forall>g \<in> set bs. g \<noteq> [] \<and> length g \<le> BATCH_ROWS)) \<and>
    hour \<in> ledger_hours w' \<and> xw_telemetry w' = xw_telemetry w \<and> xw_upload w' = None"
proof -
  have "0 < BATCH_ROWS" by (simp add: BATCH_ROWS_def)
  note ch = chunks_props [OF this, of rows]
  have sorted: "sorted (map tr_time (concat (chunks BATCH_ROWS rows)))" using ch by (simp add: rows_def hour_rows_def)
  from export_hour_result [OF assms(1,2), of obj_size bucket hour] ch sorted show ?thesis
    unfolding rows_def by (elim exE conjE) (intro exI conjI, assumption, auto)
qed

definition demo_row :: "int \<Rightarrow> telemetry_row" where
  "demo_row t = \<lparr>tr_time = t, tr_chassis_id = 1, tr_channel_idx = 0, tr_schedule_id = [], tr_cycle_index = 0, tr_step_name = [],
     tr_voltage_v = None, tr_current_a = None, tr_temperature_c = None, tr_soc_est = None\<rparr>"

lemma export_hour_streams_witness:
  "\<exists>w' b. export_hour (\<lambda>_. 7) ''lab'' 0 ((export_start [])\<lparr>xw_telemetry := [demo_row 5]\<rparr>) = (Inr (1, b), w') \<and> xw_fetches w' = 2"
proof -
  have "hour_rows 0 ((export_start [])\<lparr>xw_telemetry := [demo_row 5]\<rparr>) = [demo_row 5]"
    by (simp add: hour_rows_def demo_row_def HOUR_def)
  with export_hour_streams [of "(export_start [])\<lparr>xw_telemetry := [demo_row 5]\<rparr>" "\<lambda>_. 7" "''lab''" 0] show ?thesis
    by (auto simp: export_start_def BATCH_ROWS_def)
qed

end
