(* ===== verification/Export_Safety.thy ===== *)
theory Export_Safety
  imports Parquet_Export
begin

section \<open>The export never loses a row that comes in time\<close>

text \<open>
  Every row the ingester ever copied is in the hot table or in the object of its hour, through any
  faults and restarts of the exporter, provided no row is copied into an hour the ledger
  already has. Rows that come later than that are dropped without an export, and two
  exporters at work on the same hour can leave a truncated object behind.
\<close>

definition archived :: "string \<Rightarrow> export_world \<Rightarrow> telemetry_row \<Rightarrow> bool" where
  "archived bucket w r \<longleftrightarrow> time_bucket (tr_time r) \<in> ledger_hours w \<and>
     (case xw_objects w (hive_path bucket (time_bucket (tr_time r))) of None \<Rightarrow> False | Some bs \<Rightarrow> r \<in> set (concat bs))"

text \<open>Rows of recorded hours are archived.\<close>

definition covered :: "string \<Rightarrow> export_world \<Rightarrow> bool" where
  "covered bucket w \<longleftrightarrow> (\<forall>r \<in> set (xw_telemetry w). time_bucket (tr_time r) \<in> ledger_hours w \<longrightarrow> archived bucket w r)"

definition none_lost :: "string \<Rightarrow> telemetry_row set \<Rightarrow> export_world \<Rightarrow> bool" where
  "none_lost bucket R w \<longleftrightarrow> covered bucket w \<and> (\<forall>r \<in> R. r \<in> set (xw_telemetry w) \<or> archived bucket w r)"

subsection \<open>What an upload can touch\<close>

definition off_path :: "string \<Rightarrow> export_world \<Rightarrow> export_world \<Rightarrow> bool" where
  "off_path path w0 w \<longleftrightarrow> xw_telemetry w = xw_telemetry w0 \<and> xw_ledger w = xw_ledger w0 \<and>
     (\<forall>p. p \<noteq> path \<longrightarrow> xw_objects w p = xw_objects w0 p)"

lemma stmt_cases:
  "\<exists>fs. stmt f w = (Inr (), f (w\<lparr>xw_faults := fs\<rparr>)) \<or> (\<exists>e. stmt f w = (Inl e, w\<lparr>xw_faults := fs\<rparr>)) \<or>
    (\<exists>e. stmt f w = (Inl e, f (w\<lparr>xw_faults := fs\<rparr>)))"
proof (cases "xw_faults w")
  case Nil
  then have "w = w\<lparr>xw_faults := []\<rparr>" by (cases w) simp
  moreover have "stmt f w = (Inr (), f w)" using Nil by (simp add: stmt_def)
  ultimately show ?thesis by metis
next
  case (Cons x fs)
  then show ?thesis by (intro exI [of _ fs]) (cases x; simp add: stmt_def)
qed

lemma keeps_stmt: "(\<And>w fs. I w \<Longrightarrow> I (w\<lparr>xw_faults := fs\<rparr>) \<and> I (f (w\<lparr>xw_faults := fs\<rparr>))) \<Longrightarrow> keeps I (stmt f)"
  unfolding keeps_def by (metis snd_conv stmt_cases)

lemma keeps_query: "(\<And>w fs. I w \<Longrightarrow> I (w\<lparr>xw_faults := fs\<rparr>)) \<Longrightarrow> keeps I (query g)"
  unfolding query_def by (intro keeps_seq keeps_get keeps_stmt) simp

lemma off_path_faults: "off_path p w0 w \<Longrightarrow> off_path p w0 (w\<lparr>xw_faults := fs\<rparr>)"
  by (simp add: off_path_def)

lemma off_path_basic:
  "keeps (off_path p w0) (query g)" "keeps (off_path p w0) fetch_act" "keeps (off_path p w0) open_upload" "keeps (off_path p w0) (write_batch b)"
  by (auto intro!: keeps_query keeps_seq keeps_bind keeps_get keeps_when keeps_stmt keeps_mod
      simp: fetch_act_def open_upload_def write_batch_def off_path_def)

lemma off_path_stream: "keeps (off_path p w0) (stream_rows cursor)"
proof (induction cursor rule: stream_rows.induct)
  case (1 cursor)
  show ?case
  proof (cases "take BATCH_ROWS cursor = []")
    case True
    then show ?thesis
      unfolding stream_rows.simps [of cursor] by (simp add: keeps_seq off_path_basic keeps_ret)
  next
    case False
    with 1 show ?thesis
      unfolding stream_rows.simps [of cursor] by (simp add: keeps_seq off_path_basic keeps_ret keeps_bind)
  qed
qed

lemma off_path_close: "off_path p w0 w \<Longrightarrow> off_path p w0 (snd (close_upload p w)) \<and> xw_upload (snd (close_upload p w)) = None"
  using stmt_cases [of "\<lambda>w. w\<lparr>xw_objects := (xw_objects w)(p \<mapsto> the (xw_upload w))\<rparr>" w]
  by (cases "xw_upload w"; cases "xw_faults w"; cases "hd (xw_faults w)") (auto simp: close_upload_def off_path_def stmt_def)

abbreviation uploaded :: "string \<Rightarrow> int \<Rightarrow> (export_world, nat) act" where
  "uploaded path h \<equiv> finally_act (bind_act (query (hour_rows h)) stream_rows) (close_upload path)"

lemma off_path_upload: "off_path p w0 w \<Longrightarrow> off_path p w0 (snd (uploaded p h w)) \<and> xw_upload (snd (uploaded p h w)) = None"
proof -
  assume w: "off_path p w0 w"
  obtain r w1 where m: "bind_act (query (hour_rows h)) stream_rows w = (r, w1)" by fastforce
  have "keeps (off_path p w0) (bind_act (query (hour_rows h)) stream_rows)"
    by (intro keeps_bind off_path_basic off_path_stream)
  from keepsD [OF this w] have "off_path p w0 w1" by (simp add: m)
  from off_path_close [OF this] show ?thesis
    by (cases "close_upload p w1"; cases "fst (close_upload p w1)") (simp_all add: finally_act_def m)
qed

text \<open>A stream that ends normally has written all rows.\<close>

lemma stmt_normal: "stmt f w = (Inr u, w') \<Longrightarrow> \<exists>fs. w' = f (w\<lparr>xw_faults := fs\<rparr>)"
  using stmt_cases [of f w] by auto

lemma query_normal: "query g w = (Inr x, w') \<Longrightarrow> x = g w' \<and> (\<exists>fs. w' = w\<lparr>xw_faults := fs\<rparr>)"
  by (auto simp: query_def seq_act_def get_act_def split: prod.splits sum.splits dest: stmt_normal)

lemma bind_normal: "bind_act m f w = (Inr y, w') \<Longrightarrow> \<exists>x w1. m w = (Inr x, w1) \<and> f x w1 = (Inr y, w')"
  by (auto simp: bind_act_def split: prod.splits sum.splits)

lemma seq_normal: "seq_act m k w = (Inr y, w') \<Longrightarrow> \<exists>x w1. m w = (Inr x, w1) \<and> k w1 = (Inr y, w')"
  by (auto simp: seq_act_def split: prod.splits sum.splits)

lemma open_write_normal:
  assumes "open_upload w = (Inr u, w1)" "write_batch b w1 = (Inr v, w2)"
  shows "xw_upload w2 = Some (writer_batches w @ [b])"
proof -
  have "xw_upload w1 = Some (writer_batches w)"
    using assms(1) unfolding open_upload_def
    by (auto simp: bind_act_def get_act_def when_act_run seq_act_def mod_act_def writer_batches_def
        split: if_splits prod.splits sum.splits dest!: stmt_normal)
  with assms(2) show ?thesis unfolding write_batch_def by (auto dest!: stmt_normal)
qed

lemma stream_normal:
  "stream_rows cursor w = (Inr n, w') \<Longrightarrow> n = length cursor \<and>
    (if cursor = [] then xw_upload w' = xw_upload w else \<exists>bs. xw_upload w' = Some bs \<and> concat bs = concat (writer_batches w) @ cursor)"
proof (induction "length cursor" arbitrary: cursor w n rule: less_induct)
  case less
  let ?r = "take BATCH_ROWS cursor" and ?rest = "drop BATCH_ROWS cursor"
  obtain u w1 where f: "fetch_act w = (Inr u, w1)"
    and k: "(if ?r = [] then ret 0 else seq_act open_upload (seq_act (write_batch ?r)
        (bind_act (stream_rows ?rest) (\<lambda>n. ret (length ?r + n))))) w1 = (Inr n, w')"
    using less.prems unfolding stream_rows.simps [of cursor] Let_def by (auto dest: seq_normal)
  have w1: "xw_upload w1 = xw_upload w" using f by (auto simp: fetch_act_def seq_act_def mod_act_def dest!: stmt_normal)
  show ?case
  proof (cases "cursor = []")
    case True
    with k w1 show ?thesis by (simp add: ret_def)
  next
    case False
    have pos: "0 < BATCH_ROWS" by (simp add: BATCH_ROWS_def)
    then have "?r \<noteq> []" using False by simp
    with k obtain a w2 b w3 m where o: "open_upload w1 = (Inr a, w2)" and wr: "write_batch ?r w2 = (Inr b, w3)"
      and s: "stream_rows ?rest w3 = (Inr m, w')" and n: "n = length ?r + m"
      by (auto simp: ret_def dest!: seq_normal bind_normal)
    from open_write_normal [OF o wr] w1 have up: "xw_upload w3 = Some (writer_batches w @ [?r])" by (simp add: writer_batches_def)
    have "length ?rest < length cursor" using False pos by simp
    from less.hyps [OF this s] up n False show ?thesis
      by (auto simp: writer_batches_def split: if_splits)
  qed
qed

lemma upload_normal:
  assumes "uploaded path h w = (Inr n, w')" "xw_upload w = None"
  shows "n = length (hour_rows h w') \<and> (n \<noteq> 0 \<longrightarrow> (\<exists>bs. xw_objects w' path = Some bs \<and> concat bs = hour_rows h w'))"
proof -
  obtain u w1 where m: "bind_act (query (hour_rows h)) stream_rows w = (Inr n, w1)" and c: "close_upload path w1 = (Inr u, w')"
    using assms(1) by (auto simp: finally_act_def split: prod.splits sum.splits)
  obtain x w0 where q: "query (hour_rows h) w = (Inr x, w0)" and sx: "stream_rows x w0 = (Inr n, w1)"
    using bind_normal [OF m] by (elim exE conjE)
  from query_normal [OF q] assms(2) have x: "x = hour_rows h w" and w0: "xw_upload w0 = None" by (auto simp: hour_rows_def)
  note s = sx [unfolded x]
  from assms(1) off_path_upload [of path w w h] have t: "xw_telemetry w' = xw_telemetry w" by (simp add: off_path_def)
  then have r: "hour_rows h w' = hour_rows h w" by (simp add: hour_rows_def)
  from stream_normal [OF s] w0 c show ?thesis
    unfolding r by (auto simp: writer_batches_def close_upload_def split: if_splits option.splits dest!: stmt_normal)
qed

subsection \<open>One hour\<close>

text \<open>
  \<open>ready T R L\<close>: during a pass the hot table is \<open>T\<close>, no row is lost, and the ledger has the hours \<open>L\<close>.
\<close>

definition ready :: "string \<Rightarrow> telemetry_row list \<Rightarrow> telemetry_row set \<Rightarrow> int set \<Rightarrow> export_world \<Rightarrow> bool" where
  "ready bucket T R L w \<longleftrightarrow> xw_telemetry w = T \<and> none_lost bucket R w \<and> L \<subseteq> ledger_hours w \<and> xw_upload w = None"

lemma archived_off_path:
  assumes "off_path (hive_path bucket h) w0 w" "h \<notin> ledger_hours w0" "h = time_bucket h"
  shows "archived bucket w r = archived bucket w0 r"
proof (cases "time_bucket (tr_time r) = h")
  case True
  with assms show ?thesis by (simp add: archived_def off_path_def ledger_hours_def)
next
  case False
  then have "hive_path bucket (time_bucket (tr_time r)) \<noteq> hive_path bucket h" using hive_path_bucket assms(3) by metis
  with assms(1) show ?thesis by (simp add: archived_def off_path_def ledger_hours_def)
qed

lemma ready_off_path:
  assumes "ready bucket T R L w0" "off_path (hive_path bucket h) w0 w" "h \<notin> ledger_hours w0" "h = time_bucket h" "xw_upload w = None"
  shows "ready bucket T R L w"
  using assms archived_off_path [OF assms(2-4)]
  by (auto simp: ready_def none_lost_def covered_def off_path_def ledger_hours_def)

text \<open>The object of the hour is complete.\<close>

definition complete :: "string \<Rightarrow> int \<Rightarrow> export_world \<Rightarrow> bool" where
  "complete bucket h w \<longleftrightarrow> (\<forall>r \<in> set (xw_telemetry w). time_bucket (tr_time r) = h \<longrightarrow>
     (case xw_objects w (hive_path bucket h) of None \<Rightarrow> False | Some bs \<Rightarrow> r \<in> set (concat bs)))"

lemma hour_rows_bucket: "r \<in> set (xw_telemetry w) \<Longrightarrow> time_bucket (tr_time r) = h \<Longrightarrow> r \<in> set (hour_rows h w)"
  using time_bucket_bounds [of "tr_time r"] by (auto simp: hour_rows_def)

lemma upload_complete:
  assumes "uploaded (hive_path bucket h) h w = (Inr n, w')" "xw_upload w = None"
  shows "complete bucket h w'"
proof -
  note u = upload_normal [OF assms]
  show ?thesis
  proof (cases "n = 0")
    case True
    with u have "hour_rows h w' = []" by simp
    then show ?thesis unfolding complete_def using hour_rows_bucket by fastforce
  next
    case False
    with u obtain bs where "xw_objects w' (hive_path bucket h) = Some bs" "concat bs = hour_rows h w'" by blast
    then show ?thesis unfolding complete_def using hour_rows_bucket by (metis option.simps(5))
  qed
qed

lemma ready_faults [simp]: "ready bucket T R L (w\<lparr>xw_faults := fs\<rparr>) = ready bucket T R L w"
  by (simp add: ready_def none_lost_def covered_def archived_def ledger_hours_def)

lemma complete_faults [simp]: "complete bucket h (w\<lparr>xw_faults := fs\<rparr>) = complete bucket h w"
  by (simp add: complete_def)

lemma ready_record:
  assumes "ready bucket T R L w" "complete bucket h w" "h \<notin> ledger_hours w"
  shows "ready bucket T R (insert h L) (w\<lparr>xw_ledger := xw_ledger w @ [\<lparr>lg_hour_start = h, lg_s3_path = p, lg_row_count = n, lg_byte_count = b\<rparr>]\<rparr>)"
proof -
  let ?w = "w\<lparr>xw_ledger := xw_ledger w @ [\<lparr>lg_hour_start = h, lg_s3_path = p, lg_row_count = n, lg_byte_count = b\<rparr>]\<rparr>"
  have l: "ledger_hours ?w = insert h (ledger_hours w)" by (auto simp: ledger_hours_def)
  have a: "archived bucket w r \<Longrightarrow> archived bucket ?w r" for r unfolding archived_def l by simp
  have c: "archived bucket ?w r" if "r \<in> set (xw_telemetry w)" "time_bucket (tr_time r) = h" for r
    using assms(2) that unfolding archived_def l complete_def by simp
  have "covered bucket ?w"
    using assms(1) a c unfolding ready_def none_lost_def covered_def l by auto
  then show ?thesis using assms(1) a l by (auto simp: ready_def none_lost_def)
qed

lemma triple_stmt:
  assumes "\<And>w fs. P w \<Longrightarrow> Q () (f (w\<lparr>xw_faults := fs\<rparr>)) \<and> (\<forall>e. E e (f (w\<lparr>xw_faults := fs\<rparr>)) \<and> E e (w\<lparr>xw_faults := fs\<rparr>))"
  shows "triple P (stmt f) Q E"
proof (rule tripleI)
  fix w assume P: "P w"
  obtain fs where c: "stmt f w = (Inr (), f (w\<lparr>xw_faults := fs\<rparr>)) \<or> (\<exists>e. stmt f w = (Inl e, w\<lparr>xw_faults := fs\<rparr>)) \<or>
    (\<exists>e. stmt f w = (Inl e, f (w\<lparr>xw_faults := fs\<rparr>)))"
    using stmt_cases [of f w] by (elim exE)
  from assms [OF P, of fs] c
  show "case stmt f w of (Inr x, s') \<Rightarrow> Q x s' | (Inl e, s') \<Rightarrow> E e s'"
    by (elim disjE exE) simp_all
qed

lemma triple_query:
  assumes "\<And>w fs. P w \<Longrightarrow> Q (g w) (w\<lparr>xw_faults := fs\<rparr>) \<and> (\<forall>e. E e (w\<lparr>xw_faults := fs\<rparr>))" "\<And>w fs. g (w\<lparr>xw_faults := fs\<rparr>) = g w"
  shows "triple P (query g) Q E"
  unfolding query_def
  by (rule triple_seq [where R = "\<lambda>w. \<exists>v fs. P v \<and> w = v\<lparr>xw_faults := fs\<rparr>"], rule triple_stmt, use assms in blast)
    (rule triple_get, use assms in metis)

abbreviation hour_done :: "string \<Rightarrow> telemetry_row list \<Rightarrow> telemetry_row set \<Rightarrow> int set \<Rightarrow> export_world \<Rightarrow> bool" where
  "hour_done bucket T R L w \<equiv> ready bucket T R L w \<and> ledger_hours w = L"

lemma ledger_faults [simp]: "ledger_hours (w\<lparr>xw_faults := fs\<rparr>) = ledger_hours w"
  by (simp add: ledger_hours_def)

lemma upload_safe:
  assumes "h = time_bucket h" "h \<notin> L"
  shows "triple (hour_done bucket T R L) (uploaded (hive_path bucket h) h)
    (\<lambda>_ w. hour_done bucket T R L w \<and> complete bucket h w) (\<lambda>_. ready bucket T R L)"
proof (rule tripleI)
  fix w assume w: "hour_done bucket T R L w"
  have "off_path (hive_path bucket h) w w" by (simp add: off_path_def)
  from off_path_upload [OF this, of h]
  have o: "off_path (hive_path bucket h) w (snd (uploaded (hive_path bucket h) h w))"
    and u: "xw_upload (snd (uploaded (hive_path bucket h) h w)) = None" by blast+
  have r: "ready bucket T R L (snd (uploaded (hive_path bucket h) h w))"
    using ready_off_path [OF _ o _ assms(1) u] w assms(2) by simp
  moreover have "ledger_hours (snd (uploaded (hive_path bucket h) h w)) = L"
    using o w by (simp add: off_path_def ledger_hours_def)
  moreover have "complete bucket h w'" if "uploaded (hive_path bucket h) h w = (Inr n, w')" for n w'
    using upload_complete [OF that] w by (simp add: ready_def)
  ultimately show "case uploaded (hive_path bucket h) h w of
      (Inr x, w) \<Rightarrow> hour_done bucket T R L w \<and> complete bucket h w | (Inl e, w) \<Rightarrow> ready bucket T R L w"
    by (cases "uploaded (hive_path bucket h) h w"; cases "fst (uploaded (hive_path bucket h) h w)") simp_all
qed

lemma record_safe:
  assumes "h \<notin> L"
  shows "triple (\<lambda>w. hour_done bucket T R L w \<and> complete bucket h w) (record_export h p n b)
    (\<lambda>_. hour_done bucket T R (insert h L)) (\<lambda>_. ready bucket T R L)"
  unfolding record_export_def
proof (rule triple_stmt)
  fix w fs assume w: "hour_done bucket T R L w \<and> complete bucket h w"
  let ?w = "w\<lparr>xw_faults := fs\<rparr>"
  let ?w' = "?w\<lparr>xw_ledger := xw_ledger ?w @ [\<lparr>lg_hour_start = h, lg_s3_path = p, lg_row_count = n, lg_byte_count = b\<rparr>]\<rparr>"
  have r: "ready bucket T R (insert h L) ?w'" using ready_record [of bucket T R L ?w h p n b] w assms by simp
  then have "ready bucket T R L ?w'" by (simp add: ready_def)
  moreover have "ledger_hours ?w' = insert h L" using w by (auto simp: ledger_hours_def)
  ultimately show "hour_done bucket T R (insert h L) (if h \<in> ledger_hours ?w then ?w else ?w') \<and>
      (\<forall>e. ready bucket T R L (if h \<in> ledger_hours ?w then ?w else ?w') \<and> ready bucket T R L ?w)"
    using r w assms by simp
qed

lemma export_hour_safe:
  assumes "h = time_bucket h" "h \<notin> L"
  shows "triple (hour_done bucket T R L) (export_hour obj_size bucket h)
    (\<lambda>_. hour_done bucket T R (insert h L)) (\<lambda>_. ready bucket T R L)"
  unfolding export_hour_def Let_def
proof (rule triple_bind [OF upload_safe [OF assms]], rule triple_if)
  fix n :: nat
  show "triple (\<lambda>w. hour_done bucket T R L w \<and> complete bucket h w) (seq_act (record_export h (hive_path bucket h) 0 0) (ret (0, 0)))
      (\<lambda>_. hour_done bucket T R (insert h L)) (\<lambda>_. ready bucket T R L)"
    by (rule triple_seq [OF record_safe [OF assms(2)]], rule triple_ret)
  let ?size = "\<lambda>w. case xw_objects w (hive_path bucket h) of None \<Rightarrow> 0 | Some bs \<Rightarrow> obj_size bs"
  show "triple (\<lambda>w. hour_done bucket T R L w \<and> complete bucket h w)
      (bind_act (query ?size) (\<lambda>b. seq_act (record_export h (hive_path bucket h) n b) (ret (n, b))))
      (\<lambda>_. hour_done bucket T R (insert h L)) (\<lambda>_. ready bucket T R L)"
  proof (rule triple_bind)
    show "triple (\<lambda>w. hour_done bucket T R L w \<and> complete bucket h w) (query ?size)
      (\<lambda>_ w. hour_done bucket T R L w \<and> complete bucket h w) (\<lambda>_. ready bucket T R L)"
      by (rule triple_query) simp_all
    show "triple (\<lambda>w. hour_done bucket T R L w \<and> complete bucket h w)
      (seq_act (record_export h (hive_path bucket h) n b) (ret (n, b))) (\<lambda>_. hour_done bucket T R (insert h L)) (\<lambda>_. ready bucket T R L)" for b
      by (rule triple_seq [OF record_safe [OF assms(2)]], rule triple_ret)
  qed
qed

subsection \<open>A pass\<close>

lemma ready_mono: "ready bucket T R L w \<Longrightarrow> K \<subseteq> L \<Longrightarrow> ready bucket T R K w"
  by (auto simp: ready_def)

lemma export_all_safe:
  assumes "\<forall>h \<in> set hs. h = time_bucket h \<and> h \<notin> L" "distinct hs"
  shows "triple (hour_done bucket T R L) (export_all obj_size bucket hs)
    (\<lambda>x w. ready bucket T R L w \<and> (fst x = length hs \<longrightarrow> ready bucket T R (L \<union> set hs) w) \<and> fst x \<le> length hs) (\<lambda>_. ready bucket T R L)"
  using assms
proof (induction hs arbitrary: L)
  case Nil
  show ?case unfolding export_all.simps by (rule triple_ret) simp
next
  case (Cons h hs)
  have h: "h = time_bucket h" "h \<notin> L" using Cons.prems(1) by simp_all
  have one: "triple (hour_done bucket T R L)
      (catch_act (bind_act (export_hour obj_size bucket h) (\<lambda>x. ret (Some x))) (\<lambda>e. e \<in> {PostgresErr, OSErr}) (\<lambda>_. ret None))
      (\<lambda>r w. case r of None \<Rightarrow> ready bucket T R L w | Some _ \<Rightarrow> hour_done bucket T R (insert h L) w) (\<lambda>_. ready bucket T R L)"
  proof (rule triple_catch)
    show "triple (hour_done bucket T R L) (bind_act (export_hour obj_size bucket h) (\<lambda>x. ret (Some x)))
      (\<lambda>r w. case r of None \<Rightarrow> ready bucket T R L w | Some _ \<Rightarrow> hour_done bucket T R (insert h L) w) (\<lambda>_. ready bucket T R L)"
      by (rule triple_bind [OF export_hour_safe [OF h]], rule triple_ret) simp
    show "triple (ready bucket T R L) (ret None)
      (\<lambda>r w. case r of None \<Rightarrow> ready bucket T R L w | Some _ \<Rightarrow> hour_done bucket T R (insert h L) w) (\<lambda>_. ready bucket T R L)" for e :: exn
      by (rule triple_ret) simp
  qed
  show ?case
    unfolding export_all.simps
  proof (rule triple_bind [OF one])
    fix r :: "(nat \<times> nat) option"
    let ?Q = "\<lambda>x w. ready bucket T R L w \<and> (fst x = length (h # hs) \<longrightarrow> ready bucket T R (L \<union> set (h # hs)) w) \<and> fst x \<le> length (h # hs)"
    show "triple (\<lambda>w. case r of None \<Rightarrow> ready bucket T R L w | Some _ \<Rightarrow> hour_done bucket T R (insert h L) w)
        (case r of None \<Rightarrow> ret (0, 0, 0)
         | Some (rc, bc) \<Rightarrow> bind_act (export_all obj_size bucket hs) (\<lambda>(k, rows, bytes). ret (Suc k, rc + rows, bc + bytes)))
        ?Q (\<lambda>_. ready bucket T R L)"
    proof (cases r)
      case None
      then show ?thesis by (simp, intro triple_ret) simp
    next
      case (Some x)
      obtain rc bc where x: "x = (rc, bc)" by (cases x)
      have "triple (hour_done bucket T R (insert h L)) (bind_act (export_all obj_size bucket hs) (\<lambda>(k, rows, bytes). ret (Suc k, rc + rows, bc + bytes)))
          ?Q (\<lambda>_. ready bucket T R L)"
      proof (rule triple_bind)
        show "triple (hour_done bucket T R (insert h L)) (export_all obj_size bucket hs)
          (\<lambda>x w. ready bucket T R (insert h L) w \<and> (fst x = length hs \<longrightarrow> ready bucket T R (insert h L \<union> set hs) w) \<and> fst x \<le> length hs)
          (\<lambda>_. ready bucket T R L)"
          by (rule triple_conseq [OF Cons.IH [of "insert h L"]]) (use Cons.prems in \<open>auto intro: ready_mono\<close>)
        show "triple (\<lambda>w. ready bucket T R (insert h L) w \<and> (fst y = length hs \<longrightarrow> ready bucket T R (insert h L \<union> set hs) w) \<and> fst y \<le> length hs)
            (case y of (k, rows, bytes) \<Rightarrow> ret (Suc k, rc + rows, bc + bytes)) ?Q (\<lambda>_. ready bucket T R L)" for y
          by (cases y, simp, rule triple_ret) (auto intro: ready_mono)
      qed
      then show ?thesis by (simp add: Some x)
    qed
  qed
qed

definition pending_hours :: "int \<Rightarrow> telemetry_row list \<Rightarrow> int set \<Rightarrow> int list" where
  "pending_hours cutoff T L = sort (remdups (filter (\<lambda>h. h \<notin> L) (map (time_bucket \<circ> tr_time) (filter (\<lambda>r. tr_time r < cutoff) T))))"

lemma pending_safe:
  "triple (hour_done bucket T R L) (find_pending_hours cutoff)
    (\<lambda>p w. p = pending_hours cutoff T L \<and> hour_done bucket T R L w) (\<lambda>_. ready bucket T R L)"
  unfolding find_pending_hours_def
proof (rule triple_query)
  fix w fs assume w: "hour_done bucket T R L w"
  then have "xw_telemetry w = T" by (simp add: ready_def)
  with w show "(sort (remdups (filter (\<lambda>h. h \<notin> ledger_hours w) (map (time_bucket \<circ> tr_time) (filter (\<lambda>r. tr_time r < cutoff) (xw_telemetry w))))) =
      pending_hours cutoff T L \<and> hour_done bucket T R L (w\<lparr>xw_faults := fs\<rparr>)) \<and> (\<forall>e. ready bucket T R L (w\<lparr>xw_faults := fs\<rparr>))"
    by (simp add: pending_hours_def)
qed simp

lemma drop_safe:
  assumes "cutoff = hour_floor x" "\<forall>r \<in> set T. tr_time r < cutoff \<longrightarrow> time_bucket (tr_time r) \<in> L"
  shows "triple (ready bucket T R L) (drop_exported_chunks cutoff) (\<lambda>_. none_lost bucket R) (\<lambda>_. none_lost bucket R)"
  unfolding drop_exported_chunks_def
proof (rule triple_bind [where R = "\<lambda>_. ready bucket T R L"])
  fix n :: nat
  show "triple (ready bucket T R L)
      (seq_act (stmt (\<lambda>w. w\<lparr>xw_telemetry := filter (\<lambda>r. \<not> time_bucket (tr_time r) + HOUR \<le> cutoff) (xw_telemetry w)\<rparr>)) (ret n))
      (\<lambda>_. none_lost bucket R) (\<lambda>_. none_lost bucket R)"
  proof (rule triple_seq [where R = "none_lost bucket R"], rule triple_stmt)
    fix w fs assume w: "ready bucket T R L w"
    let ?w = "w\<lparr>xw_faults := fs\<rparr>"
    let ?w' = "?w\<lparr>xw_telemetry := filter (\<lambda>r. \<not> time_bucket (tr_time r) + HOUR \<le> cutoff) (xw_telemetry ?w)\<rparr>"
    have same: "archived bucket ?w' r = archived bucket w r" "archived bucket ?w r = archived bucket w r" for r
      by (simp_all add: archived_def ledger_hours_def)
    have gone: "archived bucket w r" if "r \<in> set T" "time_bucket (tr_time r) + HOUR \<le> cutoff" for r
      using w assms(2) that bucket_below [OF assms(1)] unfolding ready_def none_lost_def covered_def by blast
    have "none_lost bucket R ?w'"
      using w gone unfolding none_lost_def covered_def ready_def same by (auto simp: ledger_hours_def)
    moreover have "none_lost bucket R ?w" using w by (auto simp: ready_def none_lost_def covered_def same)
    ultimately show "none_lost bucket R ?w' \<and> (\<forall>e. none_lost bucket R ?w' \<and> none_lost bucket R ?w)" by blast
  qed (rule triple_ret)
qed (rule triple_get)

lemma run_once_safe:
  "triple (hour_done bucket T R L) (run_once obj_size bucket now age) (\<lambda>_. none_lost bucket R) (\<lambda>_. none_lost bucket R)"
  unfolding run_once_def Let_def
proof (rule triple_bind)
  let ?cut = "hour_floor (now - int age * HOUR)"
  let ?p = "pending_hours ?cut T L"
  show "triple (hour_done bucket T R L) (find_pending_hours ?cut) (\<lambda>p w. p = ?p \<and> hour_done bucket T R L w) (\<lambda>_. none_lost bucket R)"
    by (rule triple_conseq [OF pending_safe]) (auto simp: ready_def)
  have p: "\<forall>h \<in> set ?p. h = time_bucket h \<and> h \<notin> L" "distinct ?p" by (auto simp: pending_hours_def)
  have cover: "\<forall>r \<in> set T. tr_time r < ?cut \<longrightarrow> time_bucket (tr_time r) \<in> L \<union> set ?p" by (auto simp: pending_hours_def)
  show "triple (\<lambda>w. pending = ?p \<and> hour_done bucket T R L w)
      (bind_act (export_all obj_size bucket pending) (\<lambda>(exported, total_rows, total_bytes).
        bind_act (if exported = length pending \<and> pending \<noteq> [] then drop_exported_chunks ?cut else ret 0) (\<lambda>dropped.
          ret \<lparr>sm_exported_hours = exported, sm_total_rows = total_rows, sm_total_bytes = total_bytes, sm_chunks_dropped = dropped\<rparr>)))
      (\<lambda>_. none_lost bucket R) (\<lambda>_. none_lost bucket R)" for pending
  proof (rule triple_fact)
    assume pe: "pending = ?p"
    show "triple (hour_done bucket T R L)
      (bind_act (export_all obj_size bucket pending) (\<lambda>(exported, total_rows, total_bytes).
        bind_act (if exported = length pending \<and> pending \<noteq> [] then drop_exported_chunks ?cut else ret 0) (\<lambda>dropped.
          ret \<lparr>sm_exported_hours = exported, sm_total_rows = total_rows, sm_total_bytes = total_bytes, sm_chunks_dropped = dropped\<rparr>)))
      (\<lambda>_. none_lost bucket R) (\<lambda>_. none_lost bucket R)"
      unfolding pe
    proof (rule triple_bind)
      show "triple (hour_done bucket T R L) (export_all obj_size bucket ?p)
        (\<lambda>x w. ready bucket T R L w \<and> (fst x = length ?p \<longrightarrow> ready bucket T R (L \<union> set ?p) w) \<and> fst x \<le> length ?p) (\<lambda>_. none_lost bucket R)"
        by (rule triple_conseq [OF export_all_safe [OF p]]) (auto simp: ready_def)
      fix x :: "nat \<times> nat \<times> nat"
      obtain k a b where x: "x = (k, a, b)" by (cases x)
      show "triple (\<lambda>w. ready bucket T R L w \<and> (fst x = length ?p \<longrightarrow> ready bucket T R (L \<union> set ?p) w) \<and> fst x \<le> length ?p)
          (case x of (exported, total_rows, total_bytes) \<Rightarrow>
            bind_act (if exported = length ?p \<and> ?p \<noteq> [] then drop_exported_chunks ?cut else ret 0) (\<lambda>dropped.
              ret \<lparr>sm_exported_hours = exported, sm_total_rows = total_rows, sm_total_bytes = total_bytes, sm_chunks_dropped = dropped\<rparr>))
          (\<lambda>_. none_lost bucket R) (\<lambda>_. none_lost bucket R)"
        unfolding x prod.case fst_conv
      proof (rule triple_bind [where R = "\<lambda>_. none_lost bucket R"], rule triple_if)
        assume k: "k = length ?p \<and> ?p \<noteq> []"
        show "triple (\<lambda>w. ready bucket T R L w \<and> (k = length ?p \<longrightarrow> ready bucket T R (L \<union> set ?p) w) \<and> k \<le> length ?p)
            (drop_exported_chunks ?cut) (\<lambda>_. none_lost bucket R) (\<lambda>_. none_lost bucket R)"
          by (rule triple_pre [OF drop_safe [OF refl cover]]) (use k in simp)
      qed (rule triple_ret, simp add: ready_def, rule triple_ret)
    qed
  qed
qed

subsection \<open>The whole history\<close>

text \<open>No row is copied into an hour that is already recorded.\<close>

fun in_time :: "(batches \<Rightarrow> nat) \<Rightarrow> string \<Rightarrow> export_event list \<Rightarrow> export_world \<Rightarrow> bool" where
  "in_time obj_size bucket [] w = True"
| "in_time obj_size bucket (ev # evs) w =
     ((case ev of Ingest rows \<Rightarrow> \<forall>r \<in> set rows. time_bucket (tr_time r) \<notin> ledger_hours w | _ \<Rightarrow> True) \<and>
      in_time obj_size bucket evs (export_step obj_size bucket ev w))"

fun ingested :: "export_event list \<Rightarrow> telemetry_row set" where
  "ingested [] = {}"
| "ingested (Ingest rows # evs) = set rows \<union> ingested evs"
| "ingested (ExportPass now age # evs) = ingested evs"

lemma export_run_safe:
  "none_lost bucket R w \<Longrightarrow> xw_upload w = None \<Longrightarrow> in_time obj_size bucket evs w \<Longrightarrow>
    none_lost bucket (R \<union> ingested evs) (export_run obj_size bucket evs w)"
proof (induction evs arbitrary: w R)
  case (Cons ev evs)
  show ?case
  proof (cases ev)
    case (Ingest rows)
    let ?w = "export_step obj_size bucket ev w"
    have "archived bucket ?w r = archived bucket w r" for r by (simp add: Ingest archived_def ledger_hours_def)
    moreover have "\<forall>r \<in> set rows. time_bucket (tr_time r) \<notin> ledger_hours w" using Cons.prems(3) Ingest by simp
    ultimately have "none_lost bucket (R \<union> set rows) ?w"
      using Cons.prems(1) Ingest unfolding none_lost_def covered_def by (auto simp: ledger_hours_def)
    from Cons.IH [OF this] Cons.prems Ingest show ?thesis by (simp add: Un_assoc)
  next
    case (ExportPass now age)
    have "hour_done bucket (xw_telemetry w) R (ledger_hours w) w" using Cons.prems by (simp add: ready_def)
    from triple_any [OF run_once_safe this, of obj_size now age]
    have n: "none_lost bucket R (snd (run_once obj_size bucket now age w))" .
    then have "none_lost bucket R (export_step obj_size bucket ev w)"
      by (simp add: ExportPass none_lost_def covered_def archived_def ledger_hours_def)
    from Cons.IH [OF this] Cons.prems(3) ExportPass show ?thesis by simp
  qed
qed simp



text \<open>
  Without the condition: a row that arrives when its hour is recorded is not exported, and the
  next pass that drops chunks drops it. And two exporters on the same hour are not safe: when
  the second one fails after the first has finished, its \<open>finally\<close> closes the stream over the
  complete object.
\<close>

lemma late_row_skipped:
  assumes "xw_faults w = []" "lg_hour_start ` set (xw_ledger w) = L" "time_bucket (tr_time r) \<in> L"
  shows "\<exists>p. find_pending_hours cutoff w = (Inr p, w) \<and> time_bucket (tr_time r) \<notin> set p"
  using assms by (auto simp: find_pending_hours_def query_ok ledger_hours_def)

lemma late_row_dropped:
  assumes "xw_faults w = []" "tr_time r < cutoff" "cutoff = hour_floor x"
  shows "r \<notin> set (xw_telemetry (snd (drop_exported_chunks cutoff w)))"
  using assms bucket_below [OF assms(3), of "tr_time r"]
  by (simp add: drop_exported_chunks_def bind_act_def get_act_def seq_act_def stmt_def ret_def)

lemma overlapping_export_truncates:
  assumes "xw_telemetry w = [demo_row 5]" "0 \<in> ledger_hours w" "xw_upload w = None"
    and "xw_faults w = [Commit, Commit, Commit, Reject OSErr, Commit]"
  shows "\<not> archived bucket (snd (export_hour obj_size bucket 0 w)) (demo_row 5)"
proof -
  have r: "hour_rows 0 w = [demo_row 5]" using assms(1) by (simp add: hour_rows_def demo_row_def HOUR_def)
  have b: "take BATCH_ROWS [demo_row 5] = [demo_row 5]" by (simp add: BATCH_ROWS_def)
  have q: "query (hour_rows 0) w = (Inr [demo_row 5], w\<lparr>xw_faults := [Commit, Commit, Reject OSErr, Commit]\<rparr>)"
    using assms(4) r by (simp add: query_def seq_act_def stmt_def get_act_def hour_rows_def)
  have s: "stream_rows [demo_row 5] (w\<lparr>xw_faults := [Commit, Commit, Reject OSErr, Commit]\<rparr>) =
      (Inl OSErr, w\<lparr>xw_faults := [Commit], xw_fetches := Suc (xw_fetches w), xw_upload := Some []\<rparr>)"
    using assms(3) unfolding stream_rows.simps [of "[demo_row 5]"] b Let_def
    by (simp add: seq_act_def fetch_act_def mod_act_def stmt_def open_upload_def bind_act_def get_act_def when_act_run write_batch_def)
  show ?thesis
    by (simp add: export_hour_def Let_def bind_act_def finally_act_def q s close_upload_def stmt_def archived_def)
      (simp add: demo_row_def time_bucket_def HOUR_def)
qed

end
