(* ===== verification/Parquet_Batch.thy ===== *)
theory Parquet_Batch
  imports Export_Safety F32
begin

section \<open>The columns of a record batch\<close>

text \<open>
  \<open>_records_to_batch\<close> of \<open>parquet_export/export.py\<close>: the records of a fetch are pivoted into one list per
  column of \<open>TELEMETRY_SCHEMA\<close>, and pyarrow makes a record batch of them. pyarrow is a parameter with its
  contract as a locale: values of the type of their column are stored as they are. Shown is that the rows
  can be read back from the batches of an object, and that the schema fits the types of the table, which
  the source asks to keep in sync.
\<close>

datatype arrow_type = Timestamp_us | Int16 | Int32 | Utf8 | Float32

definition TELEMETRY_SCHEMA :: "(string \<times> arrow_type) list" where
  "TELEMETRY_SCHEMA =
     [(''time'', Timestamp_us), (''chassis_id'', Int16), (''channel_idx'', Int16), (''schedule_id'', Utf8),
      (''cycle_index'', Int32), (''step_name'', Utf8), (''voltage_v'', Float32), (''current_a'', Float32),
      (''temperature_c'', Float32), (''soc_est'', Float32)]"

text \<open>A value in a record: \<open>datetime\<close> (microseconds), \<open>int\<close>, \<open>str\<close>, \<open>float\<close> or \<open>None\<close>.\<close>

datatype cell = Datetime int | Integer int | Str string | Float real | Null

definition opt_cell :: "real option \<Rightarrow> cell" where
  "opt_cell v = (case v of None \<Rightarrow> Null | Some x \<Rightarrow> Float x)"

text \<open>\<open>r[k]\<close> on a record of the cursor, whose \<open>SELECT\<close> names ten columns.\<close>

definition record_get :: "telemetry_row \<Rightarrow> string \<Rightarrow> exn + cell" where
  "record_get r k =
     (case map_of
        [(''time'', Datetime (tr_time r)), (''chassis_id'', Integer (tr_chassis_id r)),
         (''channel_idx'', Integer (tr_channel_idx r)), (''schedule_id'', Str (tr_schedule_id r)),
         (''cycle_index'', Integer (tr_cycle_index r)), (''step_name'', Str (tr_step_name r)),
         (''voltage_v'', opt_cell (tr_voltage_v r)), (''current_a'', opt_cell (tr_current_a r)),
         (''temperature_c'', opt_cell (tr_temperature_c r)), (''soc_est'', opt_cell (tr_soc_est r))] k of
        None \<Rightarrow> Inl KeyErr
      | Some v \<Rightarrow> Inr v)"

subsection \<open>The pivot\<close>

type_synonym columns = "(string \<times> cell list) list"

text \<open>The inner loop appends one record to all columns, the outer one runs over the records.\<close>

definition append_record :: "telemetry_row \<Rightarrow> columns \<Rightarrow> exn + columns" where
  "append_record r columns = collect (\<lambda>(k, xs). bind_sum (record_get r k) (\<lambda>v. Inr (k, xs @ [v]))) columns"

fun append_records :: "telemetry_row list \<Rightarrow> columns \<Rightarrow> exn + columns" where
  "append_records [] columns = Inr columns"
| "append_records (r # rs) columns = bind_sum (append_record r columns) (append_records rs)"

definition records_to_batch :: "(columns \<Rightarrow> (string \<times> arrow_type) list \<Rightarrow> exn + 'b) \<Rightarrow> telemetry_row list \<Rightarrow> exn + 'b" where
  "records_to_batch from_pydict records =
     bind_sum (append_records records (map (\<lambda>(name, _). (name, [])) TELEMETRY_SCHEMA))
       (\<lambda>columns. from_pydict columns TELEMETRY_SCHEMA)"

subsection \<open>The contract of pyarrow\<close>

fun fits :: "arrow_type \<Rightarrow> cell \<Rightarrow> bool" where
  "fits Timestamp_us (Datetime t) = True"
| "fits Int16 (Integer i) = (- (2 ^ 15) \<le> i \<and> i < 2 ^ 15)"
| "fits Int32 (Integer i) = (- (2 ^ 31) \<le> i \<and> i < 2 ^ 31)"
| "fits Utf8 (Str s) = True"
| "fits Float32 (Float x) = f32_exact x"
| "fits _ v = (v = Null)"

locale record_batches =
  fixes from_pydict :: "columns \<Rightarrow> (string \<times> arrow_type) list \<Rightarrow> exn + 'b"
    and num_rows :: "'b \<Rightarrow> nat" and to_pydict :: "'b \<Rightarrow> columns"
  assumes accepts: "distinct (map fst schema) \<Longrightarrow>
    list_all2 (\<lambda>(k, xs) (name, ty). k = name \<and> length xs = n \<and> list_all (fits ty) xs) cols schema \<Longrightarrow>
    \<exists>b. from_pydict cols schema = Inr b \<and> to_pydict b = cols \<and> (schema \<noteq> [] \<longrightarrow> num_rows b = n)"

text \<open>A table of columns with a length check and a type check meets it.\<close>

definition table_from_pydict :: "columns \<Rightarrow> (string \<times> arrow_type) list \<Rightarrow> exn + columns" where
  "table_from_pydict cols schema =
     (if list_all2 (\<lambda>(k, xs) (name, ty). k = name \<and> length xs = length (snd (hd cols)) \<and> list_all (fits ty) xs) cols schema
      then Inr cols else Inl ValueErr)"

definition table_rows :: "columns \<Rightarrow> nat" where
  "table_rows cols = (case cols of [] \<Rightarrow> 0 | (_, xs) # _ \<Rightarrow> length xs)"

interpretation table: record_batches table_from_pydict table_rows id
proof
  fix schema :: "(string \<times> arrow_type) list" and cols n
  assume a: "list_all2 (\<lambda>(k, xs) (name, ty). k = name \<and> length xs = n \<and> list_all (fits ty) xs) cols schema"
  show "\<exists>b. table_from_pydict cols schema = Inr b \<and> id b = cols \<and> (schema \<noteq> [] \<longrightarrow> table_rows b = n)"
  proof (cases cols)
    case Nil
    then show ?thesis using a by (simp add: table_from_pydict_def)
  next
    case (Cons c cs)
    then have "length (snd (hd cols)) = n" using a by (cases schema) auto
    with a Cons show ?thesis by (auto simp: table_from_pydict_def table_rows_def split: prod.splits)
  qed
qed

subsection \<open>Reading a batch back\<close>

definition cell_of :: "columns \<Rightarrow> string \<Rightarrow> nat \<Rightarrow> cell" where
  "cell_of cols k i = (case map_of cols k of None \<Rightarrow> Null | Some xs \<Rightarrow> xs ! i)"

fun int_of :: "cell \<Rightarrow> int" where
  "int_of (Datetime t) = t" | "int_of (Integer i) = i" | "int_of _ = 0"

fun str_of :: "cell \<Rightarrow> string" where
  "str_of (Str s) = s" | "str_of _ = []"

fun float_of :: "cell \<Rightarrow> real option" where
  "float_of (Float x) = Some x" | "float_of _ = None"

lemma float_of_opt [simp]: "float_of (opt_cell v) = v"
  by (simp add: opt_cell_def split: option.split)

definition row_of :: "columns \<Rightarrow> nat \<Rightarrow> telemetry_row" where
  "row_of cols i =
     \<lparr>tr_time = int_of (cell_of cols ''time'' i), tr_chassis_id = int_of (cell_of cols ''chassis_id'' i),
      tr_channel_idx = int_of (cell_of cols ''channel_idx'' i), tr_schedule_id = str_of (cell_of cols ''schedule_id'' i),
      tr_cycle_index = int_of (cell_of cols ''cycle_index'' i), tr_step_name = str_of (cell_of cols ''step_name'' i),
      tr_voltage_v = float_of (cell_of cols ''voltage_v'' i), tr_current_a = float_of (cell_of cols ''current_a'' i),
      tr_temperature_c = float_of (cell_of cols ''temperature_c'' i), tr_soc_est = float_of (cell_of cols ''soc_est'' i)\<rparr>"

text \<open>The columns of the table, with their types in the migration.\<close>

definition real_column :: "real option \<Rightarrow> bool" where
  "real_column v \<longleftrightarrow> (\<forall>x. v = Some x \<longrightarrow> f32_exact x)"

definition in_table :: "telemetry_row \<Rightarrow> bool" where
  "in_table r \<longleftrightarrow> - (2 ^ 15) \<le> tr_chassis_id r \<and> tr_chassis_id r < 2 ^ 15 \<and>
     - (2 ^ 15) \<le> tr_channel_idx r \<and> tr_channel_idx r < 2 ^ 15 \<and>
     - (2 ^ 31) \<le> tr_cycle_index r \<and> tr_cycle_index r < 2 ^ 31 \<and>
     real_column (tr_voltage_v r) \<and> real_column (tr_current_a r) \<and> real_column (tr_temperature_c r) \<and> real_column (tr_soc_est r)"

subsection \<open>A batch holds its rows\<close>

definition value_of :: "string \<Rightarrow> telemetry_row \<Rightarrow> cell" where
  "value_of k r = (case record_get r k of Inl _ \<Rightarrow> Null | Inr v \<Rightarrow> v)"

lemma record_get_schema: "k \<in> fst ` set TELEMETRY_SCHEMA \<Longrightarrow> record_get r k = Inr (value_of k r)"
  by (auto simp: TELEMETRY_SCHEMA_def value_of_def record_get_def)

lemma opt_cell_fits: "real_column v \<Longrightarrow> fits Float32 (opt_cell v)"
  by (auto simp: real_column_def opt_cell_def split: option.split)

lemma value_of_simps [simp]:
  "value_of ''time'' r = Datetime (tr_time r)" "value_of ''chassis_id'' r = Integer (tr_chassis_id r)"
  "value_of ''channel_idx'' r = Integer (tr_channel_idx r)" "value_of ''schedule_id'' r = Str (tr_schedule_id r)"
  "value_of ''cycle_index'' r = Integer (tr_cycle_index r)" "value_of ''step_name'' r = Str (tr_step_name r)"
  "value_of ''voltage_v'' r = opt_cell (tr_voltage_v r)" "value_of ''current_a'' r = opt_cell (tr_current_a r)"
  "value_of ''temperature_c'' r = opt_cell (tr_temperature_c r)" "value_of ''soc_est'' r = opt_cell (tr_soc_est r)"
  by (simp_all add: value_of_def record_get_def)

text \<open>The schema has the types of the table.\<close>

lemma in_table_fits: "in_table r \<Longrightarrow> (k, ty) \<in> set TELEMETRY_SCHEMA \<Longrightarrow> fits ty (value_of k r)"
  unfolding in_table_def TELEMETRY_SCHEMA_def set_simps insert_iff prod.inject
  by (elim disjE conjE) (simp_all only: value_of_simps fits.simps opt_cell_fits empty_iff)

lemma schema_distinct: "distinct (map fst TELEMETRY_SCHEMA)"
  by (simp add: TELEMETRY_SCHEMA_def)

lemma append_record_schema:
  "set schema \<subseteq> set TELEMETRY_SCHEMA \<Longrightarrow>
   append_record r (map (\<lambda>(k, ty). (k, f k)) schema) = Inr (map (\<lambda>(k, ty). (k, f k @ [value_of k r])) schema)"
proof (induction schema)
  case (Cons c cs)
  obtain k ty where c: "c = (k, ty)" by (cases c)
  then have "record_get r k = Inr (value_of k r)" using Cons.prems by (intro record_get_schema) force
  with Cons c show ?case by (simp add: append_record_def)
qed (simp add: append_record_def)

lemma append_records_schema:
  "append_records rs (map (\<lambda>(k, ty). (k, f k)) TELEMETRY_SCHEMA) =
   Inr (map (\<lambda>(k, ty). (k, f k @ map (value_of k) rs)) TELEMETRY_SCHEMA)"
proof (induction rs arbitrary: f)
  case (Cons r rs)
  then show ?case using Cons.IH [of "\<lambda>k. f k @ [value_of k r]"] by (simp add: append_record_schema)
qed simp

definition pivoted :: "telemetry_row list \<Rightarrow> columns" where
  "pivoted rs = map (\<lambda>(k, ty). (k, map (value_of k) rs)) TELEMETRY_SCHEMA"

lemma pivot: "append_records rs (map (\<lambda>(name, _). (name, [])) TELEMETRY_SCHEMA) = Inr (pivoted rs)"
  using append_records_schema [of rs "\<lambda>_. []"] by (simp add: pivoted_def)

lemma row_of_pivoted: "i < length rs \<Longrightarrow> row_of (pivoted rs) i = rs ! i"
  by (simp add: row_of_def cell_of_def pivoted_def TELEMETRY_SCHEMA_def)

lemma rows_of_pivoted: "map (row_of (pivoted rs)) [0..<length rs] = rs"
  by (rule nth_equalityI) (simp_all add: row_of_pivoted)

context record_batches
begin

lemma batch_of_rows:
  assumes "\<forall>r \<in> set rs. in_table r"
  shows "\<exists>b. records_to_batch from_pydict rs = Inr b \<and> num_rows b = length rs \<and> to_pydict b = pivoted rs"
proof -
  have "list_all2 (\<lambda>(k, xs) (name, ty). k = name \<and> length xs = length rs \<and> list_all (fits ty) xs) (pivoted rs) TELEMETRY_SCHEMA"
    using assms in_table_fits
    by (auto simp: pivoted_def list_all2_conv_all_nth list_all_iff split: prod.splits) (metis nth_mem)
  from accepts [OF schema_distinct this] show ?thesis
    by (auto simp: records_to_batch_def pivot) (simp add: TELEMETRY_SCHEMA_def)
qed

definition rows_in :: "'b \<Rightarrow> telemetry_row list" where
  "rows_in b = map (row_of (to_pydict b)) [0..<num_rows b]"

lemma groups_of_rows:
  assumes "\<forall>rs \<in> set groups. \<forall>r \<in> set rs. in_table r"
  shows "\<exists>bs. collect (records_to_batch from_pydict) groups = Inr bs \<and> map rows_in bs = groups"
  using assms
proof (induction groups)
  case (Cons rs groups)
  then obtain bs where "collect (records_to_batch from_pydict) groups = Inr bs" "map rows_in bs = groups" by auto
  moreover from Cons.prems batch_of_rows [of rs] obtain b where
    "records_to_batch from_pydict rs = Inr b" "num_rows b = length rs" "to_pydict b = pivoted rs" by auto
  ultimately show ?case using rows_of_pivoted [of rs] by (auto simp: rows_in_def)
qed simp

end

text \<open>
  C38. The object of an exported hour holds the rows of the hour. Without faults, and with rows of the
  table's types, the row groups written for an hour are record batches of ten columns of equal length; read back
  one after another they are the rows of the hour in the order of their times, with nothing lost or changed.
\<close>

theorem object_holds_hour:
  fixes hour :: int and w :: export_world
  assumes "record_batches from_pydict num_rows to_pydict" "xw_faults w = []" "xw_upload w = None"
    and "\<forall>r \<in> set (xw_telemetry w). in_table r" "hour_rows hour w \<noteq> []"
  shows "\<exists>n b w' groups bs. export_hour obj_size bucket hour w = (Inr (n, b), w') \<and>
    xw_objects w' (hive_path bucket hour) = Some groups \<and>
    collect (records_to_batch from_pydict) groups = Inr bs \<and>
    concat (map (\<lambda>b. map (row_of (to_pydict b)) [0..<num_rows b]) bs) = hour_rows hour w \<and>
    sum_list (map num_rows bs) = n"
proof -
  obtain w' b where e: "export_hour obj_size bucket hour w = (Inr (length (hour_rows hour w), b), w')"
    "xw_objects w' = (xw_objects w)(hive_path bucket hour \<mapsto> chunks BATCH_ROWS (hour_rows hour w))"
    using export_hour_result [OF assms(2,3), of obj_size bucket hour] assms(5) by auto
  let ?gs = "chunks BATCH_ROWS (hour_rows hour w)"
  have c: "concat ?gs = hour_rows hour w" using chunks_props [of BATCH_ROWS "hour_rows hour w"] by (simp add: BATCH_ROWS_def)
  have "set (hour_rows hour w) \<subseteq> set (xw_telemetry w)" by (auto simp: hour_rows_def)
  then have "\<forall>rs \<in> set ?gs. \<forall>r \<in> set rs. in_table r"
    using assms(4) by (subst (asm) c [symmetric]) auto
  from record_batches.groups_of_rows [OF assms(1) this] obtain bs where
    bs: "collect (records_to_batch from_pydict) ?gs = Inr bs" "map (record_batches.rows_in num_rows to_pydict) bs = ?gs" by blast
  note rows_in = record_batches.rows_in_def [OF assms(1)]
  have r: "concat (map (\<lambda>b. map (row_of (to_pydict b)) [0..<num_rows b]) bs) = hour_rows hour w"
    using arg_cong [OF bs(2), of concat] c by (simp add: rows_in cong: map_cong)
  moreover have "sum_list (map num_rows bs) = length (hour_rows hour w)"
    unfolding r [symmetric] by (simp add: length_concat comp_def)
  ultimately show ?thesis using e bs(1) by auto
qed

lemma object_holds_hour_witness:
  "\<exists>n b w' groups bs. export_hour (\<lambda>_. 7) ''lab'' 0 ((export_start [])\<lparr>xw_telemetry := [demo_row 5]\<rparr>) = (Inr (n, b), w') \<and>
    xw_objects w' (hive_path ''lab'' 0) = Some groups \<and> collect (records_to_batch table_from_pydict) groups = Inr bs \<and>
    concat (map (\<lambda>b. map (row_of b) [0..<table_rows b]) bs) = [demo_row 5]"
proof -
  let ?w = "(export_start [])\<lparr>xw_telemetry := [demo_row 5]\<rparr>"
  have "hour_rows 0 ?w = [demo_row 5]" by (simp add: hour_rows_def demo_row_def HOUR_def)
  moreover have "in_table (demo_row 5)" by (simp add: in_table_def demo_row_def real_column_def)
  ultimately show ?thesis
    using object_holds_hour [OF table.record_batches_axioms, of ?w 0 "\<lambda>_. 7" "''lab''"] by (auto simp: export_start_def)
qed

end
