(* ===== verification/Models.thy ===== *)
theory Models
  imports Cycler_Client Parquet_Batch
begin

section \<open>The shared carriers\<close>

text \<open>
  The two classes of \<open>lib/models.py\<close> that no service constructs. A command carries the arguments of
  \<open>send_command\<close>, with its defaults; a telemetry row the columns of the table, with the time as epoch
  seconds. The mode, the error codes and \<open>CellState\<close> are in \<open>Modbus_Maps\<close> and \<open>Ecm\<close>.
\<close>

record channel_command =
  cmd_mode :: channel_mode
  cmd_setpoint :: real
  cmd_safety_v_max_mv :: int
  cmd_safety_t_max_dc :: int

definition channel_command_new :: channel_command where
  "channel_command_new = \<lparr>cmd_mode = Idle, cmd_setpoint = 0, cmd_safety_v_max_mv = 4500, cmd_safety_t_max_dc = 600\<rparr>"

record telemetry_carrier =
  tc_time :: real
  tc_chassis_id :: int
  tc_channel_idx :: int
  tc_schedule_id :: string
  tc_cycle_index :: int
  tc_step_name :: string
  tc_voltage_v :: "real option"
  tc_current_a :: "real option"
  tc_temperature_c :: "real option"
  tc_soc_est :: "real option"

subsection \<open>How they relate to what the services do\<close>

definition send :: "'c modbus_port \<Rightarrow> nat \<Rightarrow> channel_command \<Rightarrow> ('c, unit) act" where
  "send P idx c = send_command P idx (cmd_mode c) (cmd_setpoint c) (cmd_safety_v_max_mv c) (cmd_safety_t_max_dc c)"

text \<open>A command with a mode and a setpoint and defaults elsewhere is what the orchestrator sends.\<close>

lemma send_defaults: "send P idx (channel_command_new\<lparr>cmd_mode := m, cmd_setpoint := s\<rparr>) = send_command_default P idx m s"
  by (simp add: send_def channel_command_new_def send_command_default_def)

definition row_of_carrier :: "telemetry_carrier \<Rightarrow> exn + telemetry_row" where
  "row_of_carrier c = bind_sum (epoch_to_ts (tc_time c)) (\<lambda>t.
     Inr \<lparr>tr_time = t, tr_chassis_id = tc_chassis_id c, tr_channel_idx = tc_channel_idx c, tr_schedule_id = tc_schedule_id c,
       tr_cycle_index = tc_cycle_index c, tr_step_name = tc_step_name c, tr_voltage_v = tc_voltage_v c,
       tr_current_a = tc_current_a c, tr_temperature_c = tc_temperature_c c, tr_soc_est = tc_soc_est c\<rparr>)"

text \<open>
  The carrier and the table match one to one, as its docstring says, but only through the conversion of the time:
  a carrier that can be converted is determined by its row up to the rounding of the time to microseconds.
\<close>

lemma row_of_carrier_inj:
  assumes "row_of_carrier a = Inr r" "row_of_carrier b = Inr r" "tc_time a = tc_time b"
  shows "a = b"
  using assms by (cases a; cases b) (auto simp: row_of_carrier_def)

lemma row_of_carrier_time:
  assumes "row_of_carrier c = Inr r"
  shows "\<bar>real_of_int (tr_time r) - tc_time c * 1000000\<bar> \<le> 1 / 2"
proof -
  from assms obtain t where "epoch_to_ts (tc_time c) = Inr t" "tr_time r = t" by (auto simp: row_of_carrier_def)
  then have "tr_time r = round_half_even (tc_time c * 1000000)"
    by (auto simp: epoch_to_ts_def Let_def split: if_splits)
  then show ?thesis using round_half_even_error by simp
qed

end
