(* ===== verification/Features.thy ===== *)
theory Features
  imports Prelude
begin

section \<open>Feature engineering\<close>

text \<open>
  \<open>analytics/features.py\<close>: pure functions on arrays. A numpy array is a list of reals; the arrays of
  one call have the same length, as every caller selects them with one mask. A float result
  that may be a NaN is a \<open>num\<close>; infinities do not arise, as reals do not overflow and the divisions
  are guarded. \<open>scipy.signal.find_peaks\<close> is a parameter with its documented behaviour as a locale.
\<close>

datatype num = NaN | Fin real

fun isfinite :: "num \<Rightarrow> bool" where
  "isfinite NaN = False"
| "isfinite (Fin r) = True"

fun num_abs :: "num \<Rightarrow> num" where
  "num_abs NaN = NaN"
| "num_abs (Fin r) = Fin \<bar>r\<bar>"

record dqdv_peak =
  pk_voltage_v :: real
  pk_dq_dv :: real
  pk_prominence :: real

text \<open>\<open>np.diff\<close>, and the mean of neighbouring samples.\<close>

definition diffs :: "real list \<Rightarrow> real list" where
  "diffs xs = map2 (\<lambda>a b. b - a) xs (tl xs)"

definition mids :: "real list \<Rightarrow> real list" where
  "mids xs = map2 (\<lambda>a b. (a + b) / 2) xs (tl xs)"

definition coulomb_count_ah :: "real list \<Rightarrow> real list \<Rightarrow> real" where
  "coulomb_count_ah current_a time_s =
     (if length current_a < 2 then 0
      else sum_list (map2 (*) (mids current_a) (diffs time_s)) / 3600)"

definition coulombic_efficiency :: "real list \<Rightarrow> real list \<Rightarrow> real list \<Rightarrow> real list \<Rightarrow> num" where
  "coulombic_efficiency dis_current dis_time chg_current chg_time =
     (let q_dis = \<bar>coulomb_count_ah dis_current dis_time\<bar>;
          q_chg = \<bar>coulomb_count_ah chg_current chg_time\<bar>
      in if q_chg \<le> 0 then NaN else Fin (q_dis / q_chg))"

definition estimate_r0_ohm :: "real \<Rightarrow> real \<Rightarrow> real \<Rightarrow> real \<Rightarrow> num" where
  "estimate_r0_ohm v_pre v_post i_pre i_post =
     (let di = i_post - i_pre in
      if \<bar>di\<bar> < 0.001 then NaN
      else let dv = v_post - v_pre in Fin \<bar>dv / di\<bar>)"

fun r0_jump_pct :: "num \<Rightarrow> num \<Rightarrow> num" where
  "r0_jump_pct (Fin r0_now) (Fin r0_prev) = (if r0_prev \<le> 0 then NaN else Fin ((r0_now - r0_prev) / r0_prev * 100))"
| "r0_jump_pct _ _ = NaN"

subsection \<open>dQ/dV\<close>

text \<open>\<open>np.arange(start, stop, step)\<close> for a positive step.\<close>

definition arange :: "real \<Rightarrow> real \<Rightarrow> real \<Rightarrow> real list" where
  "arange start stop step = map (\<lambda>i. start + real i * step) [0..<nat \<lceil>(stop - start) / step\<rceil>]"

text \<open>\<open>np.digitize(v, bins)\<close> for ascending bins, and the clipped bin index of a sample.\<close>

definition digitize :: "real list \<Rightarrow> real \<Rightarrow> int" where
  "digitize bins v = int (length (filter (\<lambda>b. b \<le> v) bins))"

definition bin_index :: "real list \<Rightarrow> real \<Rightarrow> nat" where
  "bin_index bins v = nat (clamp 0 (int (length bins) - 2) (digitize bins v - 1))"

text \<open>The charge of each sample, up to the next one; the last one has none (\<open>append=time_s[-1]\<close>).\<close>

definition sample_dq :: "real list \<Rightarrow> real list \<Rightarrow> real list" where
  "sample_dq current_a time_s = map2 (\<lambda>i dt. i * dt / 3600) current_a (diffs (time_s @ [last time_s]))"

text \<open>\<open>np.add.at\<close> on zeros.\<close>

definition binned_dq :: "real list \<Rightarrow> real list \<Rightarrow> real list \<Rightarrow> real list" where
  "binned_dq bins voltage_v dq =
     fold (\<lambda>(v, q) acc. acc[bin_index bins v := acc ! bin_index bins v + q]) (zip voltage_v dq) (replicate (length bins - 1) 0)"

type_synonym find_peaks = "real list \<Rightarrow> real \<Rightarrow> real \<Rightarrow> (nat \<times> real) list"

definition dq_dv_peaks ::
  "find_peaks \<Rightarrow> real \<Rightarrow> real \<Rightarrow> int \<Rightarrow> real \<Rightarrow> real list \<Rightarrow> real list \<Rightarrow> real list \<Rightarrow> dqdv_peak list" where
  "dq_dv_peaks find_peaks voltage_min voltage_max bin_mv peak_height voltage_v current_a time_s =
     (if length voltage_v < 3 then []
      else
        let bin_v = real_of_int bin_mv / 1000;
            bins = arange voltage_min (voltage_max + bin_v) bin_v
        in if length bins < 3 then []
           else
             let binned = binned_dq bins voltage_v (sample_dq current_a time_s)
             in if length (filter (\<lambda>q. q \<noteq> 0) binned) < 2 then []
                else
                  let dqdv = map (\<lambda>q. q / bin_v) binned;
                      abs_dqdv = map abs dqdv
                  in if Max (set abs_dqdv) < peak_height then []
                     else
                       let peaks = find_peaks abs_dqdv peak_height (peak_height / 2)
                       in map (\<lambda>(i, prom). \<lparr>pk_voltage_v = mids bins ! i, pk_dq_dv = dqdv ! i, pk_prominence = prom\<rparr>) peaks)"

text \<open>What \<open>find_peaks(x, height=h, prominence=p)\<close> documents: the peaks, in ascending order, inside the array.\<close>

locale peak_finder =
  fixes find_peaks :: "real list \<Rightarrow> real \<Rightarrow> real \<Rightarrow> (nat \<times> real) list"
  assumes ascending: "sorted_wrt (<) (map fst (find_peaks xs h p))"
    and inside: "(i, prom) \<in> set (find_peaks xs h p) \<Longrightarrow> 0 < i \<and> Suc i < length xs \<and> h \<le> xs ! i \<and> p \<le> prom"
begin

lemma peaks_at_most: "length (find_peaks xs h p) \<le> length xs"
proof -
  have "distinct (map fst (find_peaks xs h p))" using ascending strict_sorted_iff by blast
  moreover have "set (map fst (find_peaks xs h p)) \<subseteq> {..<length xs}" using inside by fastforce
  ultimately show ?thesis using card_mono [of "{..<length xs}"] distinct_card by (metis card_lessThan finite_lessThan length_map)
qed

end

text \<open>
  A scan for strict local maxima keeps that contract: the prominence of a peak is its height over
  the higher of the two lowest points that lie between it and higher ground.
\<close>

definition low_side :: "real \<Rightarrow> real list \<Rightarrow> real" where
  "low_side x ys = fold min (takeWhile (\<lambda>y. y \<le> x) ys) x"

definition prominence :: "real list \<Rightarrow> nat \<Rightarrow> real" where
  "prominence xs i = xs ! i - max (low_side (xs ! i) (rev (take i xs))) (low_side (xs ! i) (drop (Suc i) xs))"

definition scan_peaks :: "real list \<Rightarrow> real \<Rightarrow> real \<Rightarrow> (nat \<times> real) list" where
  "scan_peaks xs h p =
     map (\<lambda>i. (i, prominence xs i))
       (filter (\<lambda>i. xs ! (i - 1) < xs ! i \<and> xs ! Suc i < xs ! i \<and> h \<le> xs ! i \<and> p \<le> prominence xs i) [1..<length xs - 1])"

interpretation scan: peak_finder scan_peaks
proof unfold_locales
  fix xs :: "real list" and h p prom and i :: nat
  show "sorted_wrt (<) (map fst (scan_peaks xs h p))"
    by (simp add: scan_peaks_def o_def sorted_wrt_filter strict_sorted_iff)
  show "(i, prom) \<in> set (scan_peaks xs h p) \<Longrightarrow> 0 < i \<and> Suc i < length xs \<and> h \<le> xs ! i \<and> p \<le> prom"
    by (auto simp: scan_peaks_def)
qed

subsection \<open>Counting charge\<close>

lemma coulomb_Cons2:
  "coulomb_count_ah (a # b # xs) (s # t # ts) = (a + b) / 2 * (t - s) / 3600 + coulomb_count_ah (b # xs) (t # ts)"
  by (simp add: coulomb_count_ah_def mids_def diffs_def add_divide_distrib)

text \<open>
  Two blocks of samples: the charges of the two add up, with one more trapezoid across the gap
  between the last sample of the first and the first sample of the second.
\<close>

lemma coulomb_append:
  assumes "length xs = length ts" "length ys = length us" "xs \<noteq> []" "ys \<noteq> []"
  shows "coulomb_count_ah (xs @ ys) (ts @ us) = coulomb_count_ah xs ts + coulomb_count_ah ys us +
    (last xs + hd ys) / 2 * (hd us - last ts) / 3600"
  using assms
proof (induction xs ts rule: list_induct2)
  case (Cons x xs t ts)
  obtain y ys' u us' where y: "ys = y # ys'" "us = u # us'" using Cons.prems by (metis Suc_length_conv length_0_conv list.exhaust)
  show ?case
  proof (cases "xs = []")
    case True
    with Cons.hyps y show ?thesis by (simp add: coulomb_Cons2) (simp add: coulomb_count_ah_def)
  next
    case False
    then obtain x' xs' where x: "xs = x' # xs'" by (cases xs) auto
    with Cons.hyps obtain t' ts' where t: "ts = t' # ts'" by (cases ts) auto
    from Cons.IH [OF Cons.prems(1) False Cons.prems(3)] show ?thesis
      by (simp add: x t coulomb_Cons2)
  qed
qed simp

lemma coulomb_constant:
  "length ts = n \<Longrightarrow> 0 < n \<Longrightarrow> coulomb_count_ah (replicate n c) ts = c * (last ts - hd ts) / 3600"
proof (induction n arbitrary: ts)
  case (Suc n)
  show ?case
  proof (cases n)
    case 0
    with Suc.prems obtain t where "ts = [t]" by (cases ts) auto
    with 0 show ?thesis by (simp add: coulomb_count_ah_def)
  next
    case (Suc m)
    then obtain s t us where t: "ts = s # t # us" using Suc.prems by (cases ts; cases "tl ts") auto
    with Suc Suc.IH [of "t # us"] Suc.prems have "coulomb_count_ah (c # replicate m c) (t # us) = c * (last (t # us) - t) / 3600" by simp
    with t Suc show ?thesis by (simp add: coulomb_Cons2 field_simps del: last.simps) (simp add: algebra_simps)
  qed
qed simp

subsection \<open>Charge per voltage bin\<close>

lemma sum_list_add_at: "i < length acc \<Longrightarrow> sum_list (acc[i := acc ! i + q]) = sum_list acc + (q :: real)"
  by (induction acc arbitrary: i) (auto split: nat.split)

lemma sum_list_zeros: "sum_list (replicate n 0) = (0 :: real)"
  by (induction n) simp_all

lemma bin_index_bound: "3 \<le> length bins \<Longrightarrow> bin_index bins v < length bins - 1"
  by (simp add: bin_index_def clamp_def)

lemma binned_sum:
  fixes acc :: "real list"
  assumes "3 \<le> length bins"
  shows "length (fold (\<lambda>(v, q) acc. acc[bin_index bins v := acc ! bin_index bins v + q]) vqs acc) = length acc \<and>
    (length acc = length bins - 1 \<longrightarrow>
      sum_list (fold (\<lambda>(v, q) acc. acc[bin_index bins v := acc ! bin_index bins v + q]) vqs acc) = sum_list acc + sum_list (map snd vqs))"
proof (induction vqs arbitrary: acc)
  case (Cons vq vqs)
  obtain v q where vq: "vq = (v, q)" by (cases vq)
  let ?acc = "acc[bin_index bins v := acc ! bin_index bins v + q]"
  have "length acc = length bins - 1 \<Longrightarrow> sum_list ?acc = sum_list acc + q"
    using bin_index_bound [OF assms, of v] by (intro sum_list_add_at) simp
  with Cons.IH [of ?acc] show ?case by (simp add: vq)
qed simp

lemma length_sample_dq: "length c = length t \<Longrightarrow> length (sample_dq c t) = length c"
  by (cases t) (simp_all add: sample_dq_def diffs_def)

lemma arange_nth: "i < length (arange a b st) \<Longrightarrow> arange a b st ! i = a + real i * st"
  by (simp add: arange_def)

lemma arange_below: "0 < st \<Longrightarrow> i < length (arange a b st) \<Longrightarrow> a + real i * st < b"
proof -
  assume st: "0 < st" and "i < length (arange a b st)"
  then have "int i < \<lceil>(b - a) / st\<rceil>" by (simp add: arange_def)
  then have "real i < (b - a) / st" by (simp add: less_ceiling_iff)
  with st show ?thesis by (simp add: field_simps)
qed

lemma mids_nth: "Suc i < length xs \<Longrightarrow> mids xs ! i = (xs ! i + xs ! Suc i) / 2"
  by (simp add: mids_def nth_tl)

text \<open>The centre of the \<open>i\<close>-th bin.\<close>

lemma bin_centre:
  assumes "0 < st" "Suc i < length (arange a b st)"
  shows "mids (arange a b st) ! i = a + (real i + 1 / 2) * st" "a < mids (arange a b st) ! i" "mids (arange a b st) ! i < b"
proof -
  show c: "mids (arange a b st) ! i = a + (real i + 1 / 2) * st"
    using assms(2) by (simp add: mids_nth arange_nth field_simps)
  show "a < mids (arange a b st) ! i" unfolding c using assms(1) by simp
  have "a + (real i + 1 / 2) * st < a + real (Suc i) * st" using assms(1) by simp
  also have "\<dots> < b" using arange_below [OF assms] .
  finally show "mids (arange a b st) ! i < b" unfolding c .
qed

lemma sample_dq_sum:
  "length c = length t \<Longrightarrow> t \<noteq> [] \<Longrightarrow> \<forall>x \<in> set c. x = i \<Longrightarrow> sum_list (sample_dq c t) = i * (last t - hd t) / 3600"
proof (induction c t rule: list_induct2)
  case (Cons x xs y ys)
  show ?case
  proof (cases ys)
    case Nil
    with Cons.hyps show ?thesis by (simp add: sample_dq_def diffs_def)
  next
    case c: (Cons z zs)
    then have "sum_list (sample_dq xs ys) = i * (last ys - hd ys) / 3600" using Cons by simp
    moreover have "sample_dq (x # xs) (y # ys) = x * (z - y) / 3600 # sample_dq xs ys" by (simp add: c sample_dq_def diffs_def)
    ultimately show ?thesis using c Cons.prems by (simp add: field_simps)
  qed
qed simp

text \<open>
  C34. Charge and voltage bins. Binning loses no charge: whatever the voltages, the bins sum up to the
  charge of the samples, which for a constant current is current times duration, as the
  coulomb counter says. The peaks come in strictly ascending voltage inside the window, at
  most one per bin, each at least \<open>peak_height\<close> high and half as prominent.
\<close>

theorem charge_per_bin:
  fixes voltage_v current_a time_s :: "real list" and vmin vmax h c :: real
  assumes "peak_finder find_peaks" and "0 < bin_mv" and "length voltage_v = length time_s" "length current_a = length time_s"
  defines "bins \<equiv> arange vmin (vmax + real_of_int bin_mv / 1000) (real_of_int bin_mv / 1000)"
    and "peaks \<equiv> dq_dv_peaks find_peaks vmin vmax bin_mv h voltage_v current_a time_s"
  shows "(3 \<le> length bins \<longrightarrow> sum_list (binned_dq bins voltage_v (sample_dq current_a time_s)) = sum_list (sample_dq current_a time_s)) \<and>
    (time_s \<noteq> [] \<and> current_a = replicate (length time_s) c \<longrightarrow> sum_list (sample_dq current_a time_s) = coulomb_count_ah current_a time_s) \<and>
    sorted_wrt (<) (map pk_voltage_v peaks) \<and> length peaks \<le> length bins - 1 \<and>
    (\<forall>p \<in> set peaks. vmin < pk_voltage_v p \<and> pk_voltage_v p < vmax + real_of_int bin_mv / 1000 \<and> h \<le> \<bar>pk_dq_dv p\<bar> \<and> h / 2 \<le> pk_prominence p)"
proof -
  let ?st = "real_of_int bin_mv / 1000" and ?dq = "sample_dq current_a time_s"
  have st: "0 < ?st" using assms(2) by simp
  have sum: "sum_list (binned_dq bins voltage_v ?dq) = sum_list ?dq" if "3 \<le> length bins"
    using binned_sum [OF that, of "zip voltage_v ?dq" "replicate (length bins - 1) 0"] length_sample_dq [OF assms(4)] assms(3, 4)
    by (simp add: binned_dq_def sum_list_zeros)
  have const: "sum_list ?dq = coulomb_count_ah current_a time_s" if "time_s \<noteq> []" "current_a = replicate (length time_s) c"
  proof -
    have "sum_list ?dq = c * (last time_s - hd time_s) / 3600"
      using that(2) by (intro sample_dq_sum that(1) assms(4)) (metis in_set_replicate)
    also have "\<dots> = coulomb_count_ah current_a time_s"
      unfolding that(2) using that(1) by (simp add: coulomb_constant)
    finally show ?thesis .
  qed
  have peaks: "sorted_wrt (<) (map pk_voltage_v peaks) \<and> length peaks \<le> length bins - 1 \<and>
    (\<forall>p \<in> set peaks. vmin < pk_voltage_v p \<and> pk_voltage_v p < vmax + ?st \<and> h \<le> \<bar>pk_dq_dv p\<bar> \<and> h / 2 \<le> pk_prominence p)"
  proof (cases "peaks = []")
    case False
    let ?b = "binned_dq bins voltage_v ?dq"
    let ?d = "map (\<lambda>q. q / ?st) ?b"
    let ?p = "find_peaks (map abs ?d) h (h / 2)"
    have p: "peaks = map (\<lambda>(i, prom). \<lparr>pk_voltage_v = mids bins ! i, pk_dq_dv = ?d ! i, pk_prominence = prom\<rparr>) ?p"
      and l: "3 \<le> length bins"
      using False unfolding peaks_def dq_dv_peaks_def Let_def bins_def by (auto split: if_splits)
    have lb: "length ?b = length bins - 1"
      using binned_sum [OF l, of "zip voltage_v ?dq" "replicate (length bins - 1) 0"] by (simp add: binned_dq_def)
    have inside: "0 < i \<and> Suc i < length bins - 1 \<and> h \<le> \<bar>?d ! i\<bar> \<and> h / 2 \<le> prom" if "(i, prom) \<in> set ?p" for i prom
      using peak_finder.inside [OF assms(1) that] lb by auto
    have centre: "mids bins ! i = vmin + (real i + 1 / 2) * ?st" "vmin < mids bins ! i" "mids bins ! i < vmax + ?st"
      if "(i, prom) \<in> set ?p" for i prom
    proof -
      have "Suc i < length (arange vmin (vmax + ?st) ?st)" using inside [OF that] unfolding bins_def by linarith
      from bin_centre [OF st this] show "mids bins ! i = vmin + (real i + 1 / 2) * ?st" "vmin < mids bins ! i" "mids bins ! i < vmax + ?st"
        unfolding bins_def by simp_all
    qed
    have asc: "sorted_wrt (<) (map fst ?p)" by (rule peak_finder.ascending [OF assms(1)])
    have "sorted_wrt (<) (map pk_voltage_v peaks)"
      unfolding p sorted_wrt_map
    proof (rule sorted_wrt_mono_rel [OF _ asc [unfolded sorted_wrt_map]])
      fix x y assume "x \<in> set ?p" "y \<in> set ?p" "fst x < fst y"
      then show "pk_voltage_v (case x of (i, prom) \<Rightarrow> \<lparr>pk_voltage_v = mids bins ! i, pk_dq_dv = ?d ! i, pk_prominence = prom\<rparr>)
        < pk_voltage_v (case y of (i, prom) \<Rightarrow> \<lparr>pk_voltage_v = mids bins ! i, pk_dq_dv = ?d ! i, pk_prominence = prom\<rparr>)"
        using centre(1) [of "fst x" "snd x"] centre(1) [of "fst y" "snd y"] st by (simp add: split_beta)
    qed
    moreover have "length peaks \<le> length bins - 1"
      unfolding p using peak_finder.peaks_at_most [OF assms(1), of "map abs ?d" h "h / 2"] lb by simp
    moreover have "vmin < pk_voltage_v x \<and> pk_voltage_v x < vmax + ?st \<and> h \<le> \<bar>pk_dq_dv x\<bar> \<and> h / 2 \<le> pk_prominence x" if "x \<in> set peaks" for x
    proof -
      obtain y where y: "y \<in> set ?p" "x = (case y of (i, prom) \<Rightarrow> \<lparr>pk_voltage_v = mids bins ! i, pk_dq_dv = ?d ! i, pk_prominence = prom\<rparr>)"
        using \<open>x \<in> set peaks\<close> unfolding p set_map by (rule imageE)
      obtain i prom where "y = (i, prom)" by (cases y)
      with y have "(i, prom) \<in> set ?p" "x = \<lparr>pk_voltage_v = mids bins ! i, pk_dq_dv = ?d ! i, pk_prominence = prom\<rparr>" by simp_all
      then show ?thesis using centre [of i prom] inside [of i prom] by simp
    qed
    ultimately show ?thesis by blast
  qed simp
  from sum const peaks show ?thesis by blast
qed

lemma charge_per_bin_witness:
  "sum_list (sample_dq (replicate 3 (- 2)) [0, 10, 30]) = coulomb_count_ah (replicate 3 (- 2)) [0, 10, 30]"
proof -
  have t: "[0, 10, 30 :: real] \<noteq> [] \<and> replicate 3 (- 2) = replicate (length [0, 10, 30 :: real]) (- 2 :: real)"
    by (simp add: eval_nat_numeral)
  have l: "0 < (10 :: int)" "length [3.1, 3.2, 3.3 :: real] = length [0, 10, 30 :: real]" "length (replicate 3 (- 2 :: real)) = length [0, 10, 30 :: real]"
    by simp_all
  from charge_per_bin [OF scan.peak_finder_axioms l, of 3 "4.5" "- 2" "0.1"] t show ?thesis by blast
qed

end
