(* ===== verification/Pipeline.thy ===== *)
theory Pipeline
  imports Features Ingester
begin

section \<open>The analytics pipeline\<close>

text \<open>
  \<open>analytics/pipeline.py\<close> and the event handler of \<open>analytics/main.py\<close>: one call per completed cycle
  fetches the telemetry of the cycle, computes its features, writes them and raises an alert
  when the internal resistance jumps. Each statement asks the fault oracle, as in the
  orchestrator; the formatting of floats (\<open>fmt\<close>, with the number of decimals) and \<open>json.loads\<close> are
  parameters. Times are in seconds. The column \<open>computed_at\<close> is left out.
\<close>

definition CHARGE_STEPS :: "string list" where "CHARGE_STEPS = [''cc_charge'', ''cv_charge'']"
definition DISCHARGE_STEPS :: "string list" where "DISCHARGE_STEPS = [''cc_discharge'']"
definition CC_STEP :: string where "CC_STEP = ''cc_charge''"
definition CV_STEP :: string where "CV_STEP = ''cv_charge''"

record cycle_features =
  cf_experiment_id :: string
  cf_cycle_index :: int
  cf_capacity_ah :: "num option"
  cf_coulombic_eff :: "num option"
  cf_peak_temp_c :: "num option"
  cf_r0_ohm :: "num option"
  cf_r0_jump_pct :: "num option"
  cf_dq_dv_peaks :: "dqdv_peak list"

type_synonym interval = "real \<times> real \<times> string"

subsection \<open>Features of one cycle\<close>

definition row_time :: "telemetry_row \<Rightarrow> real" where
  "row_time r = real_of_int (tr_time r) / 1000000"

definition label_of :: "interval list \<Rightarrow> real \<Rightarrow> string" where
  "label_of intervals t =
     (case List.find (\<lambda>(start, end_at, name). start \<le> t \<and> t \<le> end_at) intervals of None \<Rightarrow> [] | Some (_, _, name) \<Rightarrow> name)"

definition label_steps :: "real list \<Rightarrow> interval list \<Rightarrow> string list" where
  "label_steps ts intervals = map (label_of intervals) ts"

text \<open>Selecting with a boolean mask, and \<open>np.where(mask)[0]\<close>.\<close>

definition select :: "bool list \<Rightarrow> 'a list \<Rightarrow> 'a list" where
  "select flags xs = map snd (filter fst (zip flags xs))"

definition where_true :: "bool list \<Rightarrow> nat list" where
  "where_true flags = filter (\<lambda>i. flags ! i) [0..<length flags]"

text \<open>\<open>x or 0.0\<close>.\<close>

definition or_zero :: "real option \<Rightarrow> real" where
  "or_zero x = (case x of None \<Rightarrow> 0 | Some r \<Rightarrow> r)"

definition clean :: "num option \<Rightarrow> num option" where
  "clean x = (case x of None \<Rightarrow> None | Some v \<Rightarrow> if isfinite v then Some v else None)"

definition transition_r0 :: "string list \<Rightarrow> real list \<Rightarrow> real list \<Rightarrow> num option" where
  "transition_r0 step_names voltage current =
     (let cc = where_true (map (\<lambda>s. s = CC_STEP) step_names);
          cv = where_true (map (\<lambda>s. s = CV_STEP) step_names)
      in if cc \<noteq> [] \<and> cv \<noteq> [] \<and> last cc < hd cv
         then Some (estimate_r0_ohm (voltage ! last cc) (voltage ! hd cv) (current ! last cc) (current ! hd cv))
         else None)"

definition compute_features ::
  "find_peaks \<Rightarrow> telemetry_row list \<Rightarrow> string \<Rightarrow> int \<Rightarrow> num option \<Rightarrow> int \<Rightarrow> real \<Rightarrow> interval list \<Rightarrow> cycle_features option" where
  "compute_features find_peaks rows experiment_id cycle_index prev_r0 bin_mv peak_height step_intervals =
     (if length rows < 10 then None
      else
        let ts = map row_time rows;
            voltage = map (or_zero \<circ> tr_voltage_v) rows;
            current = map (or_zero \<circ> tr_current_a) rows;
            temperature = map (or_zero \<circ> tr_temperature_c) rows;
            step_names = (if step_intervals \<noteq> [] then label_steps ts step_intervals else map tr_step_name rows);
            discharge_mask = map (\<lambda>s. s \<in> set DISCHARGE_STEPS) step_names;
            charge_mask = map (\<lambda>s. s \<in> set CHARGE_STEPS) step_names;
            capacity_ah = (if True \<in> set discharge_mask
              then Some (Fin \<bar>coulomb_count_ah (select discharge_mask current) (select discharge_mask ts)\<bar>) else None);
            ce = (if True \<in> set discharge_mask \<and> True \<in> set charge_mask
              then Some (coulombic_efficiency (select discharge_mask current) (select discharge_mask ts)
                (select charge_mask current) (select charge_mask ts)) else None);
            peak_temp = Some (Fin (Max (set temperature)));
            r0 = transition_r0 step_names voltage current;
            peaks = (if True \<in> set charge_mask
              then dq_dv_peaks find_peaks 3 4.5 bin_mv peak_height (select charge_mask voltage) (select charge_mask current) (select charge_mask ts)
              else []);
            jump_pct = (case (r0, prev_r0) of (Some r, Some p) \<Rightarrow> Some (r0_jump_pct r p) | _ \<Rightarrow> None)
        in Some \<lparr>cf_experiment_id = experiment_id, cf_cycle_index = cycle_index, cf_capacity_ah = clean capacity_ah,
             cf_coulombic_eff = clean ce, cf_peak_temp_c = clean peak_temp, cf_r0_ohm = clean r0,
             cf_r0_jump_pct = clean jump_pct, cf_dq_dv_peaks = peaks\<rparr>)"

subsection \<open>Statements\<close>

record analytics_db =
  an_telemetry :: "telemetry_row list"
  an_steps :: "step_row list"
  an_features :: "cycle_features list"
  an_alerts :: "alert_row list"
  an_faults :: "fault list"

definition an_execute :: "(analytics_db \<Rightarrow> analytics_db) \<Rightarrow> (analytics_db, unit) act" where
  "an_execute f w =
     (case an_faults w of
        [] \<Rightarrow> (Inr (), f w)
      | Commit # fs \<Rightarrow> (Inr (), f (w\<lparr>an_faults := fs\<rparr>))
      | Reject e # fs \<Rightarrow> (Inl e, w\<lparr>an_faults := fs\<rparr>)
      | Lost e # fs \<Rightarrow> (Inl e, f (w\<lparr>an_faults := fs\<rparr>)))"

definition an_fetch :: "(analytics_db \<Rightarrow> 'a) \<Rightarrow> (analytics_db, 'a) act" where
  "an_fetch g = seq_act (an_execute (\<lambda>w. w)) (get_act g)"

text \<open>
  Binding the parameters of a statement: the driver raises \<open>DataError\<close>, a \<open>PostgresError\<close>, for a value that
  does not fit its column, here \<open>INTEGER\<close> and \<open>SMALLINT\<close>.
\<close>

definition fits_column :: "nat \<Rightarrow> int \<Rightarrow> bool" where
  "fits_column w v \<longleftrightarrow> - (2 ^ (w - 1)) \<le> v \<and> v < 2 ^ (w - 1)"

definition bind_params :: "bool \<Rightarrow> (analytics_db, unit) act" where
  "bind_params fits = lift_sum (if fits then Inr () else Inl PostgresErr)"

definition step_intervals_of :: "string \<Rightarrow> int \<Rightarrow> step_row list \<Rightarrow> interval list" where
  "step_intervals_of experiment_id cycle_index rows =
     map (\<lambda>r. (sr_started_at r, the (sr_ended_at r), sr_step_name r))
       (sort_key sr_step_index (filter (\<lambda>r. sr_experiment_id r = experiment_id \<and> int (sr_cycle_index r) = cycle_index
          \<and> sr_ended_at r \<noteq> None) rows))"

definition fetch_step_intervals :: "string \<Rightarrow> int \<Rightarrow> (analytics_db, interval list) act" where
  "fetch_step_intervals experiment_id cycle_index =
     seq_act (bind_params (fits_column 32 cycle_index))
       (an_fetch (\<lambda>w. step_intervals_of experiment_id cycle_index (an_steps w)))"

definition cycle_telemetry :: "int \<Rightarrow> int \<Rightarrow> int \<Rightarrow> (real \<times> real) option \<Rightarrow> telemetry_row list \<Rightarrow> telemetry_row list" where
  "cycle_telemetry chassis_id channel_idx cycle_index time_window rows =
     sort_key tr_time (filter (\<lambda>r. tr_chassis_id r = chassis_id \<and> tr_channel_idx r = channel_idx \<and>
       (case time_window of Some (start, end_at) \<Rightarrow> start \<le> row_time r \<and> row_time r \<le> end_at
        | None \<Rightarrow> tr_cycle_index r = cycle_index)) rows)"

definition fetch_cycle_telemetry :: "int \<Rightarrow> int \<Rightarrow> int \<Rightarrow> (real \<times> real) option \<Rightarrow> (analytics_db, telemetry_row list) act" where
  "fetch_cycle_telemetry chassis_id channel_idx cycle_index time_window =
     seq_act (bind_params (fits_column 16 chassis_id \<and> fits_column 16 channel_idx))
       (an_fetch (\<lambda>w. cycle_telemetry chassis_id channel_idx cycle_index time_window (an_telemetry w)))"

text \<open>\<open>ORDER BY cycle_index DESC LIMIT 1\<close>.\<close>

definition r0_before :: "string \<Rightarrow> int \<Rightarrow> cycle_features list \<Rightarrow> num option" where
  "r0_before experiment_id cycle_index fs =
     (let earlier = filter (\<lambda>f. cf_experiment_id f = experiment_id \<and> cf_cycle_index f < cycle_index) fs
      in if earlier = [] then None else cf_r0_ohm (last (sort_key cf_cycle_index earlier)))"

definition previous_r0 :: "string \<Rightarrow> int \<Rightarrow> (analytics_db, num option) act" where
  "previous_r0 experiment_id cycle_index = an_fetch (\<lambda>w. r0_before experiment_id cycle_index (an_features w))"

definition same_cycle :: "cycle_features \<Rightarrow> cycle_features \<Rightarrow> bool" where
  "same_cycle f g \<longleftrightarrow> cf_experiment_id f = cf_experiment_id g \<and> cf_cycle_index f = cf_cycle_index g"

text \<open>\<open>INSERT ... ON CONFLICT (experiment_id, cycle_index) DO UPDATE\<close>.\<close>

definition put_features :: "cycle_features \<Rightarrow> cycle_features list \<Rightarrow> cycle_features list" where
  "put_features f fs = (if list_ex (same_cycle f) fs then map (\<lambda>g. if same_cycle f g then f else g) fs else fs @ [f])"

definition upsert_features :: "cycle_features \<Rightarrow> (analytics_db, unit) act" where
  "upsert_features f = an_execute (\<lambda>w. w\<lparr>an_features := put_features f (an_features w)\<rparr>)"

definition anomaly_message :: "(nat \<Rightarrow> num \<Rightarrow> string) \<Rightarrow> num \<Rightarrow> num \<Rightarrow> num \<Rightarrow> string" where
  "anomaly_message fmt jump_pct r0_now r0_prev =
     ''r0_jump:cycle_over_cycle:'' @ fmt 1 jump_pct @ ''%_r0_prev='' @ fmt 4 r0_prev @ ''ohm_r0_now='' @ fmt 4 r0_now @ ''ohm''"

definition anomaly_alert :: "(nat \<Rightarrow> num \<Rightarrow> string) \<Rightarrow> int \<Rightarrow> int \<Rightarrow> num \<Rightarrow> num \<Rightarrow> num \<Rightarrow> alert_row" where
  "anomaly_alert fmt chassis_id channel_idx jump_pct r0_now r0_prev =
     \<lparr>al_severity = ''warning'', al_source = ''analytics.anomaly'', al_message = anomaly_message fmt jump_pct r0_now r0_prev,
       al_chassis_id = Some chassis_id, al_channel_idx = Some channel_idx\<rparr>"

definition emit_anomaly_alert :: "(nat \<Rightarrow> num \<Rightarrow> string) \<Rightarrow> int \<Rightarrow> int \<Rightarrow> num \<Rightarrow> num \<Rightarrow> num \<Rightarrow> (analytics_db, unit) act" where
  "emit_anomaly_alert fmt chassis_id channel_idx jump_pct r0_now r0_prev =
     an_execute (\<lambda>w. w\<lparr>an_alerts := an_alerts w @ [anomaly_alert fmt chassis_id channel_idx jump_pct r0_now r0_prev]\<rparr>)"

subsection \<open>One event\<close>

record settings =
  set_bin_mv :: int
  set_peak_height :: real
  set_r0_jump_threshold_pct :: real

definition num_above :: "num \<Rightarrow> real \<Rightarrow> bool" where
  "num_above v t = (case v of NaN \<Rightarrow> False | Fin r \<Rightarrow> t < r)"

definition alert_if_jump :: "(nat \<Rightarrow> num \<Rightarrow> string) \<Rightarrow> settings \<Rightarrow> int \<Rightarrow> int \<Rightarrow> cycle_features \<Rightarrow> num option \<Rightarrow> (analytics_db, unit) act" where
  "alert_if_jump fmt cfg chassis_id channel_idx f prev =
     (case (cf_r0_jump_pct f, cf_r0_ohm f, prev) of
        (Some jump, Some r, Some p) \<Rightarrow>
          if num_above jump (set_r0_jump_threshold_pct cfg) then emit_anomaly_alert fmt chassis_id channel_idx jump r p else ret ()
      | _ \<Rightarrow> ret ())"

definition process_cycle_of ::
  "find_peaks \<Rightarrow> (nat \<Rightarrow> num \<Rightarrow> string) \<Rightarrow> settings \<Rightarrow> string \<Rightarrow> int \<Rightarrow> int \<Rightarrow> int \<Rightarrow> (analytics_db, cycle_features option) act" where
  "process_cycle_of find_peaks fmt cfg experiment_id chassis_id channel_idx cycle_index =
     bind_act (fetch_step_intervals experiment_id cycle_index) (\<lambda>step_intervals.
     let time_window = (if step_intervals \<noteq> [] then Some (fst (hd step_intervals), fst (snd (last step_intervals))) else None) in
     bind_act (fetch_cycle_telemetry chassis_id channel_idx cycle_index time_window) (\<lambda>rows.
     bind_act (previous_r0 experiment_id cycle_index) (\<lambda>prev.
       case compute_features find_peaks rows experiment_id cycle_index prev (set_bin_mv cfg) (set_peak_height cfg) step_intervals of
         None \<Rightarrow> ret None
       | Some f \<Rightarrow>
           seq_act (upsert_features f)
             (seq_act (alert_if_jump fmt cfg chassis_id channel_idx f prev) (ret (Some f))))))"

text \<open>
  The fields of the event. The first statement binds the experiment id and accepts only a text; a null
  finds no step and is refused by the insert at the latest, without any effect before.
\<close>

fun text_param :: "json \<Rightarrow> exn + string" where
  "text_param (JStr s) = Inr s"
| "text_param _ = Inl PostgresErr"

definition event_fields :: "json \<Rightarrow> exn + string \<times> int \<times> int \<times> int" where
  "event_fields event =
     bind_sum (index event ''experiment_id'') (\<lambda>e.
     bind_sum (bind_sum (index event ''chassis_id'') to_int) (\<lambda>chassis_id.
     bind_sum (bind_sum (index event ''channel_idx'') to_int) (\<lambda>channel_idx.
     bind_sum (bind_sum (index event ''cycle_index'') to_int) (\<lambda>cycle_index.
     bind_sum (text_param e) (\<lambda>experiment_id. Inr (experiment_id, chassis_id, channel_idx, cycle_index))))))"

definition process_cycle ::
  "find_peaks \<Rightarrow> (nat \<Rightarrow> num \<Rightarrow> string) \<Rightarrow> settings \<Rightarrow> json \<Rightarrow> (analytics_db, cycle_features option) act" where
  "process_cycle find_peaks fmt cfg event =
     bind_act (lift_sum (event_fields event)) (\<lambda>(experiment_id, chassis_id, channel_idx, cycle_index).
       process_cycle_of find_peaks fmt cfg experiment_id chassis_id channel_idx cycle_index)"

definition required_fields :: "string list" where
  "required_fields = [''experiment_id'', ''chassis_id'', ''channel_idx'', ''cycle_index'']"

definition process_event ::
  "('p \<Rightarrow> exn + json) \<Rightarrow> find_peaks \<Rightarrow> (nat \<Rightarrow> num \<Rightarrow> string) \<Rightarrow> settings \<Rightarrow> 'p payload \<Rightarrow> (analytics_db, unit) act" where
  "process_event loads find_peaks fmt cfg payload =
     (case load loads payload of
        Inl e \<Rightarrow> if e = JSONDecodeErr then ret () else raise e
      | Inr event \<Rightarrow>
          (case event of
             JObj kvs \<Rightarrow>
               if list_all (\<lambda>k. k \<in> set (map fst kvs)) required_fields
               then catch_act (seq_act (process_cycle find_peaks fmt cfg event) (ret ())) (\<lambda>e. e \<in> {PostgresErr, OSErr}) (\<lambda>_. ret ())
               else ret ()
           | _ \<Rightarrow> raise AttributeErr))"

text \<open>The consumer: a broker error (\<open>None\<close>) ends the session, and the next one goes on with the next event.\<close>

definition analytics_loop ::
  "('p \<Rightarrow> exn + json) \<Rightarrow> find_peaks \<Rightarrow> (nat \<Rightarrow> num \<Rightarrow> string) \<Rightarrow> settings \<Rightarrow> 'p payload option list \<Rightarrow> (analytics_db, unit) act" where
  "analytics_loop loads find_peaks fmt cfg msgs =
     for_act (\<lambda>m. case m of None \<Rightarrow> ret () | Some p \<Rightarrow> process_event loads find_peaks fmt cfg p) msgs"

subsection \<open>Running the statements\<close>

lemma an_execute_ok [run_simps]: "an_faults w = [] \<Longrightarrow> an_execute f w = (Inr (), f w)"
  by (simp add: an_execute_def)

lemma an_fetch_ok [run_simps]: "an_faults w = [] \<Longrightarrow> an_fetch g w = (Inr (g w), w)"
  by (simp add: an_fetch_def run_simps)

lemma bind_params_run [run_simps]: "bind_params b w = (if b then Inr () else Inl PostgresErr, w)"
  by (simp add: bind_params_def run_simps)

text \<open>What one event stands for in a database: the intervals, the rows and the features.\<close>

definition window_of :: "interval list \<Rightarrow> (real \<times> real) option" where
  "window_of ivs = (if ivs \<noteq> [] then Some (fst (hd ivs), fst (snd (last ivs))) else None)"

definition cycle_result :: "find_peaks \<Rightarrow> settings \<Rightarrow> string \<Rightarrow> int \<Rightarrow> int \<Rightarrow> int \<Rightarrow> analytics_db \<Rightarrow> cycle_features option" where
  "cycle_result find_peaks cfg e chassis_id channel_idx k w =
     (let ivs = step_intervals_of e k (an_steps w)
      in compute_features find_peaks (cycle_telemetry chassis_id channel_idx k (window_of ivs) (an_telemetry w))
           e k (r0_before e k (an_features w)) (set_bin_mv cfg) (set_peak_height cfg) ivs)"

text \<open>The rows that \<open>alert_if_jump\<close> appends.\<close>

definition jump_alerts :: "(nat \<Rightarrow> num \<Rightarrow> string) \<Rightarrow> settings \<Rightarrow> int \<Rightarrow> int \<Rightarrow> cycle_features \<Rightarrow> num option \<Rightarrow> alert_row list" where
  "jump_alerts fmt cfg chassis_id channel_idx f prev =
     (case (cf_r0_jump_pct f, cf_r0_ohm f, prev) of
        (Some jump, Some r, Some p) \<Rightarrow>
          if num_above jump (set_r0_jump_threshold_pct cfg) then [anomaly_alert fmt chassis_id channel_idx jump r p] else []
      | _ \<Rightarrow> [])"

definition put_result :: "cycle_features option \<Rightarrow> cycle_features list \<Rightarrow> cycle_features list" where
  "put_result c fs = (case c of None \<Rightarrow> fs | Some f \<Rightarrow> put_features f fs)"

definition result_alerts ::
  "(nat \<Rightarrow> num \<Rightarrow> string) \<Rightarrow> settings \<Rightarrow> string \<Rightarrow> int \<Rightarrow> int \<Rightarrow> int \<Rightarrow> cycle_features option \<Rightarrow> cycle_features list \<Rightarrow> alert_row list" where
  "result_alerts fmt cfg e chassis_id channel_idx k c fs =
     (case c of None \<Rightarrow> [] | Some f \<Rightarrow> jump_alerts fmt cfg chassis_id channel_idx f (r0_before e k fs))"

lemma alert_if_jump_ok [run_simps]:
  "an_faults w = [] \<Longrightarrow> alert_if_jump fmt cfg chassis_id channel_idx f prev w =
    (Inr (), w\<lparr>an_alerts := an_alerts w @ jump_alerts fmt cfg chassis_id channel_idx f prev\<rparr>)"
  by (auto simp: alert_if_jump_def jump_alerts_def emit_anomaly_alert_def run_simps split: option.splits)

lemma process_cycle_ok:
  fixes find_peaks :: find_peaks and cfg :: settings and e :: string
  assumes "an_faults w = []" "fits_column 32 k" "fits_column 16 chassis_id" "fits_column 16 channel_idx"
  defines "c \<equiv> cycle_result find_peaks cfg e chassis_id channel_idx k w"
  shows "process_cycle_of find_peaks fmt cfg e chassis_id channel_idx k w =
    (Inr c, w\<lparr>an_features := put_result c (an_features w),
       an_alerts := an_alerts w @ result_alerts fmt cfg e chassis_id channel_idx k c (an_features w)\<rparr>)"
  using assms(1-4) unfolding c_def
  by (simp add: process_cycle_of_def fetch_step_intervals_def fetch_cycle_telemetry_def previous_r0_def upsert_features_def
      cycle_result_def window_of_def put_result_def result_alerts_def Let_def run_simps split: option.split)

lemma process_cycle_misfit:
  "an_faults w = [] \<Longrightarrow> \<not> (fits_column 32 k \<and> fits_column 16 chassis_id \<and> fits_column 16 channel_idx) \<Longrightarrow>
    process_cycle_of find_peaks fmt cfg e chassis_id channel_idx k w = (Inl PostgresErr, w)"
  by (cases "fits_column 32 k"; cases "fits_column 16 chassis_id \<and> fits_column 16 channel_idx")
    (simp_all add: process_cycle_of_def fetch_step_intervals_def fetch_cycle_telemetry_def Let_def run_simps)

subsection \<open>Any faults\<close>

lemma triple_an_execute [triple_intros]:
  "(\<And>w fs. P w \<Longrightarrow> Q () (f (w\<lparr>an_faults := fs\<rparr>)) \<and> (\<forall>e. E e (f (w\<lparr>an_faults := fs\<rparr>))) \<and> (\<forall>e. E e (w\<lparr>an_faults := fs\<rparr>))) \<Longrightarrow>
    triple P (an_execute f) Q E"
proof (rule tripleI)
  fix w assume *: "\<And>w fs. P w \<Longrightarrow> Q () (f (w\<lparr>an_faults := fs\<rparr>)) \<and> (\<forall>e. E e (f (w\<lparr>an_faults := fs\<rparr>))) \<and> (\<forall>e. E e (w\<lparr>an_faults := fs\<rparr>))"
    and P: "P w"
  from * [OF P, of "an_faults w"] * [OF P]
  show "case an_execute f w of (Inr x, s') \<Rightarrow> Q x s' | (Inl e, s') \<Rightarrow> E e s'"
    by (simp add: an_execute_def split: list.split fault.split)
qed

text \<open>A world apart from its fault oracle.\<close>

definition stored :: "analytics_db \<Rightarrow> telemetry_row list \<times> step_row list \<times> cycle_features list \<times> alert_row list" where
  "stored w = (an_telemetry w, an_steps w, an_features w, an_alerts w)"

lemma stored_faults [simp]: "stored (w\<lparr>an_faults := fs\<rparr>) = stored w"
  by (simp add: stored_def)

lemma triple_an_fetch:
  "(\<And>w. stored w = d \<Longrightarrow> g w = v) \<Longrightarrow> triple (\<lambda>w. stored w = d) (an_fetch g) (\<lambda>x w. x = v \<and> stored w = d) (\<lambda>_ w. stored w = d)"
  unfolding an_fetch_def
  by (rule triple_seq [where R = "\<lambda>w. stored w = d"], rule triple_an_execute, simp, rule triple_get, simp)

lemma triple_bind_params: "triple (\<lambda>w. stored w = d) (bind_params b) (\<lambda>_ w. stored w = d) (\<lambda>_ w. stored w = d)"
  unfolding bind_params_def by (rule triple_lift) simp_all

text \<open>
  However the processing of a cycle ends, it has left the database alone, or written the features, or
  written them and the alert; the result it returns is that of the database it found.
\<close>

definition stages ::
  "(nat \<Rightarrow> num \<Rightarrow> string) \<Rightarrow> settings \<Rightarrow> string \<Rightarrow> int \<Rightarrow> int \<Rightarrow> int \<Rightarrow> cycle_features option \<Rightarrow> analytics_db \<Rightarrow> analytics_db \<Rightarrow> bool" where
  "stages fmt cfg e chassis_id channel_idx k c w w' \<longleftrightarrow>
     (let F = put_result c (an_features w); A = an_alerts w @ result_alerts fmt cfg e chassis_id channel_idx k c (an_features w)
      in stored w' = stored w \<or> stored w' = (an_telemetry w, an_steps w, F, an_alerts w) \<or>
         stored w' = (an_telemetry w, an_steps w, F, A))"

lemma process_cycle_stages:
  fixes find_peaks :: find_peaks and cfg :: settings and e :: string and chassis_id channel_idx k :: int and w :: analytics_db
  defines "c \<equiv> cycle_result find_peaks cfg e chassis_id channel_idx k w"
  shows "triple (\<lambda>s. stored s = stored w) (process_cycle_of find_peaks fmt cfg e chassis_id channel_idx k)
    (\<lambda>r s. r = c \<and> stages fmt cfg e chassis_id channel_idx k c w s) (\<lambda>_ s. stages fmt cfg e chassis_id channel_idx k c w s)"
proof -
  let ?S = "\<lambda>s. stored s = stored w" and ?G = "stages fmt cfg e chassis_id channel_idx k c w"
  let ?ivs = "step_intervals_of e k (an_steps w)"
  let ?rows = "cycle_telemetry chassis_id channel_idx k (window_of ?ivs) (an_telemetry w)"
  let ?prev = "r0_before e k (an_features w)"
  have G: "?S s \<Longrightarrow> ?G s" for s by (simp add: stages_def)
  have ivs: "triple ?S (fetch_step_intervals e k) (\<lambda>x s. x = ?ivs \<and> ?S s) (\<lambda>_. ?S)"
    unfolding fetch_step_intervals_def by (rule triple_seq [OF triple_bind_params], rule triple_an_fetch) (simp add: stored_def)
  have rows: "triple ?S (fetch_cycle_telemetry chassis_id channel_idx k (window_of ?ivs)) (\<lambda>x s. x = ?rows \<and> ?S s) (\<lambda>_. ?S)"
    unfolding fetch_cycle_telemetry_def by (rule triple_seq [OF triple_bind_params], rule triple_an_fetch) (simp add: stored_def)
  have prev: "triple ?S (previous_r0 e k) (\<lambda>x s. x = ?prev \<and> ?S s) (\<lambda>_. ?S)"
    unfolding previous_r0_def by (rule triple_an_fetch) (simp add: stored_def)
  have put: "triple ?S (seq_act (upsert_features f) (seq_act (alert_if_jump fmt cfg chassis_id channel_idx f ?prev) (ret (Some f))))
      (\<lambda>r s. r = c \<and> ?G s) (\<lambda>_. ?G)" if c: "c = Some f" for f
  proof -
    let ?W = "\<lambda>s. stored s = (an_telemetry w, an_steps w, put_features f (an_features w), an_alerts w)"
    have up: "triple ?S (upsert_features f) (\<lambda>_. ?W) (\<lambda>_. ?G)"
      unfolding upsert_features_def by (rule triple_an_execute) (simp add: stages_def stored_def c put_result_def Let_def)
    have al: "triple ?W (alert_if_jump fmt cfg chassis_id channel_idx f ?prev) (\<lambda>_. ?G) (\<lambda>_. ?G)"
      unfolding alert_if_jump_def emit_anomaly_alert_def
      by (auto simp: stages_def stored_def c put_result_def result_alerts_def jump_alerts_def Let_def
          intro!: triple_an_execute triple_ret split: option.splits)
    show ?thesis
      by (rule triple_seq [OF up], rule triple_seq [OF al], rule triple_ret) (simp add: c)
  qed
  have tail: "triple ?S (case compute_features find_peaks ?rows e k ?prev (set_bin_mv cfg) (set_peak_height cfg) ?ivs of
        None \<Rightarrow> ret None
      | Some f \<Rightarrow> seq_act (upsert_features f) (seq_act (alert_if_jump fmt cfg chassis_id channel_idx f ?prev) (ret (Some f))))
      (\<lambda>r s. r = c \<and> ?G s) (\<lambda>_. ?G)"
  proof (cases c)
    case None
    then have "compute_features find_peaks ?rows e k ?prev (set_bin_mv cfg) (set_peak_height cfg) ?ivs = None"
      by (simp add: c_def cycle_result_def Let_def)
    then show ?thesis by (simp add: None) (rule triple_ret, simp add: stages_def)
  next
    case (Some f)
    then have "compute_features find_peaks ?rows e k ?prev (set_bin_mv cfg) (set_peak_height cfg) ?ivs = Some f"
      by (simp add: c_def cycle_result_def Let_def)
    with put [OF Some] show ?thesis by simp
  qed
  show ?thesis
    unfolding process_cycle_of_def Let_def window_of_def [symmetric]
    by (rule triple_bind [OF triple_conseq [OF ivs]], assumption, assumption, erule G,
        rule triple_fact, simp only:,
        rule triple_bind [OF triple_conseq [OF rows]], assumption, assumption, erule G,
        rule triple_fact, simp only:,
        rule triple_bind [OF triple_conseq [OF prev]], assumption, assumption, erule G,
        rule triple_fact, simp only:, rule tail)
qed

subsection \<open>Processing a cycle again\<close>

lemma same_cycle_refl [simp]: "same_cycle f f"
  by (simp add: same_cycle_def)

lemma put_features_twice [simp]: "put_features f (put_features f fs) = put_features f fs"
proof -
  let ?u = "\<lambda>g. if same_cycle f g then f else g"
  have "list_ex (same_cycle f) (map ?u fs) = list_ex (same_cycle f) fs" by (induction fs) auto
  moreover have "map ?u (map ?u fs) = map ?u fs" by (induction fs) auto
  moreover have "\<not> list_ex (same_cycle f) fs \<Longrightarrow> map ?u fs = fs" by (induction fs) auto
  ultimately show ?thesis by (cases "list_ex (same_cycle f) fs") (simp_all add: put_features_def)
qed

lemma put_result_twice [simp]: "put_result c (put_result c fs) = put_result c fs"
  by (simp add: put_result_def split: option.split)

lemma r0_before_put:
  assumes "cf_cycle_index f = k"
  shows "r0_before e k (put_features f fs) = r0_before e k fs"
proof -
  let ?P = "\<lambda>g. cf_experiment_id g = e \<and> cf_cycle_index g < k"
  have "filter ?P (map (\<lambda>g. if same_cycle f g then f else g) fs) = filter ?P fs"
    by (induction fs) (auto simp: same_cycle_def assms)
  then have "filter ?P (put_features f fs) = filter ?P fs" using assms by (simp add: put_features_def)
  then show ?thesis by (simp add: r0_before_def)
qed

lemma compute_features_ids:
  "compute_features find_peaks rows e k prev bin h ivs = Some f \<Longrightarrow> cf_experiment_id f = e \<and> cf_cycle_index f = k \<and> 10 \<le> length rows"
proof -
  assume *: "compute_features find_peaks rows e k prev bin h ivs = Some f"
  have n: "\<not> length rows < 10"
  proof
    assume l: "length rows < 10"
    from * show False unfolding compute_features_def if_P [OF l] by simp
  qed
  note f = * [unfolded compute_features_def if_not_P [OF n] Let_def option.inject, symmetric]
  show ?thesis using n unfolding f by (simp only: cycle_features.select_convs simp_thms not_less)
qed

lemma cycle_result_ids: "cycle_result find_peaks cfg e chassis_id channel_idx k w = Some f \<Longrightarrow> cf_experiment_id f = e \<and> cf_cycle_index f = k"
  unfolding cycle_result_def Let_def using compute_features_ids by blast

lemma r0_before_put_result:
  "c = cycle_result find_peaks cfg e chassis_id channel_idx k w \<Longrightarrow> r0_before e k (put_result c fs) = r0_before e k fs"
proof (cases c)
  case (Some f)
  assume "c = cycle_result find_peaks cfg e chassis_id channel_idx k w"
  with Some have "cf_cycle_index f = k" using cycle_result_ids by (metis (full_types))
  from r0_before_put [OF this] show ?thesis by (simp add: Some put_result_def)
qed (simp add: put_result_def)

lemma cycle_result_cong:
  "an_telemetry w' = an_telemetry w \<Longrightarrow> an_steps w' = an_steps w \<Longrightarrow> r0_before e k (an_features w') = r0_before e k (an_features w) \<Longrightarrow>
    cycle_result find_peaks cfg e chassis_id channel_idx k w' = cycle_result find_peaks cfg e chassis_id channel_idx k w"
  by (simp add: cycle_result_def)

lemma process_cycle_after:
  "stages fmt cfg e chassis_id channel_idx k (cycle_result find_peaks cfg e chassis_id channel_idx k w) w
     (snd (process_cycle_of find_peaks fmt cfg e chassis_id channel_idx k w))"
  by (rule triple_any [where P = "\<lambda>s. stored s = stored w", OF triple_conseq [OF process_cycle_stages [where w = w]]]) simp_all

lemma misfit_keeps:
  assumes "\<not> (fits_column 32 k \<and> fits_column 16 chassis_id \<and> fits_column 16 channel_idx)"
  shows "triple (\<lambda>s. stored s = d) (process_cycle_of find_peaks fmt cfg e chassis_id channel_idx k) (\<lambda>_ s. stored s = d) (\<lambda>_ s. stored s = d)"
proof -
  let ?S = "\<lambda>s. stored s = d"
  have stop: "triple ?S (bind_params b) (\<lambda>_ s. b \<and> ?S s) (\<lambda>_. ?S)" for b
    unfolding bind_params_def by (rule triple_lift) (simp_all split: if_splits)
  have ivs: "triple ?S (fetch_step_intervals e k) (\<lambda>_ s. fits_column 32 k \<and> ?S s) (\<lambda>_. ?S)"
    unfolding fetch_step_intervals_def
    by (rule triple_seq [OF stop], rule triple_fact, rule triple_conseq [OF triple_an_fetch [of d _ "step_intervals_of e k (fst (snd d))"]])
      (auto simp: stored_def)
  have rows: "triple ?S (fetch_cycle_telemetry chassis_id channel_idx k tw)
      (\<lambda>_ s. (fits_column 16 chassis_id \<and> fits_column 16 channel_idx) \<and> ?S s) (\<lambda>_. ?S)" for tw
    unfolding fetch_cycle_telemetry_def
    by (rule triple_seq [OF stop], rule triple_fact,
        rule triple_conseq [OF triple_an_fetch [of d _ "cycle_telemetry chassis_id channel_idx k tw (fst d)"]])
      (auto simp: stored_def)
  show ?thesis
    unfolding process_cycle_of_def Let_def
    by (rule triple_bind [OF ivs], rule triple_fact, rule triple_bind [OF rows], rule triple_fact, insert assms, blast)
qed

lemma retried_cycle:
  fixes find_peaks :: find_peaks and fmt :: "nat \<Rightarrow> num \<Rightarrow> string" and cfg :: settings and e :: string
    and chassis_id channel_idx k :: int and w :: analytics_db
  defines "run \<equiv> process_cycle_of find_peaks fmt cfg e chassis_id channel_idx k"
  defines "w1 \<equiv> snd (run w)" and "retry \<equiv> run (snd (run w)\<lparr>an_faults := []\<rparr>)" and "direct \<equiv> run (w\<lparr>an_faults := []\<rparr>)"
  shows "fst retry = fst direct \<and> an_features (snd retry) = an_features (snd direct) \<and>
    (\<exists>new. an_alerts (snd direct) = an_alerts w @ new \<and> an_alerts w1 \<in> {an_alerts w, an_alerts w @ new} \<and>
      an_alerts (snd retry) = an_alerts w1 @ new \<and> length new \<le> 1)"
proof (cases "fits_column 32 k \<and> fits_column 16 chassis_id \<and> fits_column 16 channel_idx")
  case True
  let ?c = "cycle_result find_peaks cfg e chassis_id channel_idx k w"
  let ?new = "result_alerts fmt cfg e chassis_id channel_idx k ?c (an_features w)"
  from process_cycle_after [of fmt cfg e chassis_id channel_idx k find_peaks w]
  have st: "an_telemetry w1 = an_telemetry w \<and> an_steps w1 = an_steps w \<and> an_features w1 \<in> {an_features w, put_result ?c (an_features w)} \<and>
    an_alerts w1 \<in> {an_alerts w, an_alerts w @ ?new}"
    unfolding w1_def run_def stages_def Let_def stored_def by auto
  have r: "r0_before e k (an_features w1) = r0_before e k (an_features w)"
    using st r0_before_put_result [OF refl] by auto
  have c: "cycle_result find_peaks cfg e chassis_id channel_idx k (w1\<lparr>an_faults := []\<rparr>) = ?c"
    using st r by (intro cycle_result_cong) simp_all
  have new: "result_alerts fmt cfg e chassis_id channel_idx k ?c (an_features w1) = ?new"
    unfolding result_alerts_def r ..
  have put: "put_result ?c (an_features w1) = put_result ?c (an_features w)" using st by auto
  have fits: "fits_column 32 k" "fits_column 16 chassis_id" "fits_column 16 channel_idx" using True by simp_all
  have "direct = (Inr ?c, w\<lparr>an_features := put_result ?c (an_features w), an_alerts := an_alerts w @ ?new, an_faults := []\<rparr>)"
    unfolding direct_def run_def by (subst process_cycle_ok) (simp_all add: fits cycle_result_def)
  moreover have "retry = (Inr ?c, w1\<lparr>an_features := put_result ?c (an_features w), an_alerts := an_alerts w1 @ ?new, an_faults := []\<rparr>)"
    unfolding retry_def run_def w1_def [unfolded run_def, symmetric]
    by (subst process_cycle_ok) (simp_all add: fits c new put)
  moreover have "length ?new \<le> 1"
    by (simp add: result_alerts_def jump_alerts_def split: option.split)
  ultimately show ?thesis using st by (intro conjI exI [of _ ?new]) simp_all
next
  case False
  have "direct = (Inl PostgresErr, w\<lparr>an_faults := []\<rparr>)"
    unfolding direct_def run_def by (rule process_cycle_misfit [OF _ False]) simp
  moreover have "retry = (Inl PostgresErr, w1\<lparr>an_faults := []\<rparr>)"
    unfolding retry_def run_def w1_def by (rule process_cycle_misfit [OF _ False]) simp
  moreover have "stored w1 = stored w"
    unfolding w1_def run_def by (rule triple_any [OF misfit_keeps [OF False]]) simp
  ultimately show ?thesis by (intro conjI exI [of _ "[]"]) (simp_all add: stored_def)
qed

subsection \<open>Well-typed features\<close>

text \<open>
  What the columns of \<open>cycle_features\<close> hold: a number, never a NaN, and where it is a magnitude
  none below zero; an efficiency needs a capacity and a jump a resistance.
\<close>

definition finite_value :: "num option \<Rightarrow> bool" where
  "finite_value v = (case v of Some NaN \<Rightarrow> False | _ \<Rightarrow> True)"

definition nonneg_value :: "num option \<Rightarrow> bool" where
  "nonneg_value v = (case v of Some NaN \<Rightarrow> False | Some (Fin r) \<Rightarrow> 0 \<le> r | None \<Rightarrow> True)"

definition row_typed :: "cycle_features \<Rightarrow> bool" where
  "row_typed f \<longleftrightarrow> nonneg_value (cf_capacity_ah f) \<and> nonneg_value (cf_coulombic_eff f) \<and> finite_value (cf_peak_temp_c f) \<and>
     nonneg_value (cf_r0_ohm f) \<and> finite_value (cf_r0_jump_pct f) \<and>
     (cf_coulombic_eff f \<noteq> None \<longrightarrow> cf_capacity_ah f \<noteq> None) \<and> (cf_r0_jump_pct f \<noteq> None \<longrightarrow> cf_r0_ohm f \<noteq> None)"

definition table_typed :: "cycle_features list \<Rightarrow> bool" where
  "table_typed fs \<longleftrightarrow> (\<forall>f \<in> set fs. row_typed f) \<and> distinct (map (\<lambda>f. (cf_experiment_id f, cf_cycle_index f)) fs)"

lemma clean_finite: "finite_value (clean v)"
  by (cases v; cases "the v") (simp_all add: clean_def finite_value_def)

lemma clean_nonneg: "(\<And>r. v = Some (Fin r) \<Longrightarrow> 0 \<le> r) \<Longrightarrow> nonneg_value (clean v)"
  by (cases v; cases "the v") (simp_all add: clean_def nonneg_value_def)

lemma clean_Some: "clean v = Some x \<longleftrightarrow> v = Some x \<and> isfinite x"
  by (cases v) (auto simp: clean_def)

lemma efficiency_nonneg: "coulombic_efficiency dc dt cc ct = Fin r \<Longrightarrow> 0 \<le> r"
  by (auto simp: coulombic_efficiency_def Let_def split: if_splits)

lemma resistance_nonneg: "estimate_r0_ohm v v' i i' = Fin r \<Longrightarrow> 0 \<le> r"
  by (auto simp: estimate_r0_ohm_def Let_def split: if_splits)

lemma transition_nonneg: "transition_r0 names v i = Some (Fin r) \<Longrightarrow> 0 \<le> r"
  by (auto simp: transition_r0_def Let_def split: if_splits dest: resistance_nonneg)

lemma r0_jump_finite: "r0_jump_pct x y = Fin j \<Longrightarrow> isfinite x"
  by (cases x) simp_all

lemma where_true_set: "i \<in> set (where_true flags) \<longleftrightarrow> i < length flags \<and> flags ! i"
  by (auto simp: where_true_def)

lemma where_true_sorted: "sorted_wrt (<) (where_true flags)"
  by (simp add: where_true_def sorted_wrt_filter)

lemma sorted_hd_last:
  "sorted_wrt (<) (xs :: nat list) \<Longrightarrow> x \<in> set xs \<Longrightarrow> hd xs \<le> x \<and> x \<le> last xs"
  by (induction xs) (auto simp: less_imp_le)

text \<open>Where the resistance comes from: the last sample of the constant-current step and the first of the constant-voltage step.\<close>

lemma transition_meaning:
  assumes "transition_r0 names v i = Some (Fin r)"
  shows "\<exists>a b. a < b \<and> b < length names \<and> names ! a = CC_STEP \<and> names ! b = CV_STEP \<and>
    (\<forall>j. a < j \<and> j < length names \<longrightarrow> names ! j \<noteq> CC_STEP) \<and> (\<forall>j < b. names ! j \<noteq> CV_STEP) \<and>
    0.001 \<le> \<bar>i ! b - i ! a\<bar> \<and> r = \<bar>(v ! b - v ! a) / (i ! b - i ! a)\<bar>"
proof -
  let ?cc = "where_true (map (\<lambda>s. s = CC_STEP) names)" and ?cv = "where_true (map (\<lambda>s. s = CV_STEP) names)"
  let ?a = "last ?cc" and ?b = "hd ?cv"
  have ne: "?cc \<noteq> []" "?cv \<noteq> []" "?a < ?b" and r: "estimate_r0_ohm (v ! ?a) (v ! ?b) (i ! ?a) (i ! ?b) = Fin r"
    using assms by (simp_all add: transition_r0_def Let_def split: if_splits)
  have a: "?a < length names" "names ! ?a = CC_STEP" using last_in_set [OF ne(1)] by (auto simp: where_true_set)
  have b: "?b < length names" "names ! ?b = CV_STEP" using hd_in_set [OF ne(2)] by (auto simp: where_true_set)
  have "names ! j \<noteq> CC_STEP" if "?a < j" "j < length names" for j
    using sorted_hd_last [OF where_true_sorted, of j "map (\<lambda>s. s = CC_STEP) names"] that by (auto simp: where_true_set)
  moreover have "names ! j \<noteq> CV_STEP" if "j < ?b" for j
    using sorted_hd_last [OF where_true_sorted, of j "map (\<lambda>s. s = CV_STEP) names"] that b(1) by (auto simp: where_true_set)
  moreover have "0.001 \<le> \<bar>i ! ?b - i ! ?a\<bar>" "r = \<bar>(v ! ?b - v ! ?a) / (i ! ?b - i ! ?a)\<bar>"
    using r by (simp_all add: estimate_r0_ohm_def Let_def split: if_splits)
  ultimately show ?thesis using ne(3) a b by (intro exI [of _ ?a] exI [of _ ?b]) simp
qed

lemma clean_charge: "nonneg_value (clean (if b then Some (Fin \<bar>q\<bar>) else None))"
  by (rule clean_nonneg) (auto split: if_splits)

lemma clean_efficiency: "nonneg_value (clean (if b then Some (coulombic_efficiency dc dt cc ct) else None))"
  by (rule clean_nonneg) (auto split: if_splits dest: efficiency_nonneg)

lemma clean_resistance: "nonneg_value (clean (transition_r0 names v i))"
  by (rule clean_nonneg) (rule transition_nonneg)

lemma clean_efficiency_charge: "clean (if b \<and> b' then Some x else None) \<noteq> None \<longrightarrow> clean (if b then Some (Fin q) else None) \<noteq> None"
  by (simp add: clean_def)

lemma clean_jump:
  "clean (case (r, prev) of (Some x, Some y) \<Rightarrow> Some (r0_jump_pct x y) | _ \<Rightarrow> None) \<noteq> None \<longrightarrow> clean r \<noteq> None"
proof
  assume "clean (case (r, prev) of (Some x, Some y) \<Rightarrow> Some (r0_jump_pct x y) | _ \<Rightarrow> None) \<noteq> None"
  then obtain x y z where "r = Some x" "prev = Some y" "r0_jump_pct x y = Fin z"
    by (cases r; cases prev; cases "r0_jump_pct (the r) (the prev)") (simp_all add: clean_def)
  then show "clean r \<noteq> None" using r0_jump_finite by (simp add: clean_def)
qed

lemma compute_features_typed:
  assumes "compute_features find_peaks rows e k prev bin h ivs = Some f"
  shows "row_typed f" "cf_peak_temp_c f = Some (Fin (Max (set (map (or_zero \<circ> tr_temperature_c) rows))))"
    "cf_r0_ohm f = clean (transition_r0 (if ivs \<noteq> [] then label_steps (map row_time rows) ivs else map tr_step_name rows)
       (map (or_zero \<circ> tr_voltage_v) rows) (map (or_zero \<circ> tr_current_a) rows))"
proof -
  have n: "\<not> length rows < 10" using compute_features_ids [OF assms] by simp
  note f = assms [unfolded compute_features_def if_not_P [OF n] Let_def option.inject, symmetric]
  show "cf_peak_temp_c f = Some (Fin (Max (set (map (or_zero \<circ> tr_temperature_c) rows))))"
    unfolding f cycle_features.select_convs by (simp add: clean_def)
  show "cf_r0_ohm f = clean (transition_r0 (if ivs \<noteq> [] then label_steps (map row_time rows) ivs else map tr_step_name rows)
      (map (or_zero \<circ> tr_voltage_v) rows) (map (or_zero \<circ> tr_current_a) rows))"
    unfolding f cycle_features.select_convs ..
  show "row_typed f"
    unfolding row_typed_def f cycle_features.select_convs
    by (intro conjI clean_charge clean_efficiency clean_finite clean_resistance clean_efficiency_charge clean_jump)
qed

lemma put_features_keys:
  "map (\<lambda>f. (cf_experiment_id f, cf_cycle_index f)) (put_features f fs) =
    (if list_ex (same_cycle f) fs then map (\<lambda>f. (cf_experiment_id f, cf_cycle_index f)) fs
     else map (\<lambda>f. (cf_experiment_id f, cf_cycle_index f)) fs @ [(cf_experiment_id f, cf_cycle_index f)])"
  by (auto simp: put_features_def same_cycle_def)

lemma put_features_typed:
  assumes "table_typed fs" "row_typed f"
  shows "table_typed (put_features f fs)"
proof -
  have "set (put_features f fs) \<subseteq> insert f (set fs)" by (auto simp: put_features_def split: if_splits)
  then have "\<forall>g \<in> set (put_features f fs). row_typed g" using assms by (auto simp: table_typed_def)
  moreover have "\<not> list_ex (same_cycle f) fs \<Longrightarrow> (cf_experiment_id f, cf_cycle_index f) \<notin> set (map (\<lambda>f. (cf_experiment_id f, cf_cycle_index f)) fs)"
    by (induction fs) (auto simp: same_cycle_def)
  ultimately show ?thesis using assms(1) by (simp add: table_typed_def put_features_keys)
qed

lemma put_result_typed:
  "table_typed fs \<Longrightarrow> table_typed (put_result (cycle_result find_peaks cfg e chassis_id channel_idx k w) fs)"
  unfolding put_result_def cycle_result_def Let_def
  by (auto split: option.split intro: put_features_typed compute_features_typed(1))

text \<open>An alert of this service: a jump above the threshold.\<close>

definition anomaly_row :: "(nat \<Rightarrow> num \<Rightarrow> string) \<Rightarrow> settings \<Rightarrow> alert_row \<Rightarrow> bool" where
  "anomaly_row fmt cfg a \<longleftrightarrow>
     (\<exists>chassis_id channel_idx jump r p. a = anomaly_alert fmt chassis_id channel_idx (Fin jump) r p \<and> set_r0_jump_threshold_pct cfg < jump)"

lemma anomaly_rowI: "set_r0_jump_threshold_pct cfg < j \<Longrightarrow> anomaly_row fmt cfg (anomaly_alert fmt chassis_id channel_idx (Fin j) r p)"
  unfolding anomaly_row_def by (intro exI conjI) (rule refl)

lemma num_above_Fin: "num_above v t \<longleftrightarrow> (\<exists>r. v = Fin r \<and> t < r)"
  by (cases v) (simp_all add: num_above_def)

lemma result_alerts_anomaly: "a \<in> set (result_alerts fmt cfg e chassis_id channel_idx k c fs) \<Longrightarrow> anomaly_row fmt cfg a"
  by (auto simp: result_alerts_def jump_alerts_def num_above_Fin intro: anomaly_rowI split: option.splits if_splits)

definition pipeline_inv ::
  "(nat \<Rightarrow> num \<Rightarrow> string) \<Rightarrow> settings \<Rightarrow> telemetry_row list \<Rightarrow> step_row list \<Rightarrow> alert_row list \<Rightarrow> analytics_db \<Rightarrow> bool" where
  "pipeline_inv fmt cfg T S A w \<longleftrightarrow> an_telemetry w = T \<and> an_steps w = S \<and> table_typed (an_features w) \<and>
     (\<exists>new. an_alerts w = A @ new \<and> (\<forall>a \<in> set new. anomaly_row fmt cfg a))"

lemma process_cycle_keeps: "keeps (pipeline_inv fmt cfg T S A) (process_cycle_of find_peaks fmt cfg e chassis_id channel_idx k)"
  unfolding keeps_def
proof (intro allI impI)
  fix w assume I: "pipeline_inv fmt cfg T S A w"
  let ?c = "cycle_result find_peaks cfg e chassis_id channel_idx k w"
  let ?new = "result_alerts fmt cfg e chassis_id channel_idx k ?c (an_features w)"
  let ?w = "snd (process_cycle_of find_peaks fmt cfg e chassis_id channel_idx k w)"
  from I obtain new where A: "an_alerts w = A @ new" "\<forall>a \<in> set new. anomaly_row fmt cfg a" unfolding pipeline_inv_def by blast
  from process_cycle_after [of fmt cfg e chassis_id channel_idx k find_peaks w]
  have w: "an_telemetry ?w = T \<and> an_steps ?w = S" "an_features ?w \<in> {an_features w, put_result ?c (an_features w)}"
    "an_alerts ?w \<in> {an_alerts w, an_alerts w @ ?new}"
    using I unfolding stages_def Let_def stored_def pipeline_inv_def by auto
  have "an_alerts ?w = A @ new \<or> an_alerts ?w = A @ (new @ ?new)" using w(3) A(1) by auto
  moreover have "\<forall>a \<in> set (new @ ?new). anomaly_row fmt cfg a" using A(2) result_alerts_anomaly by auto
  ultimately have "\<exists>new. an_alerts ?w = A @ new \<and> (\<forall>a \<in> set new. anomaly_row fmt cfg a)" using A(2) by metis
  moreover have "table_typed (an_features w)" using I by (simp add: pipeline_inv_def)
  then have "table_typed (an_features ?w)" using w(2) put_result_typed by (elim insertE emptyE) simp_all
  ultimately show "pipeline_inv fmt cfg T S A ?w" using w(1) by (simp add: pipeline_inv_def)
qed

lemma process_event_keeps [keeps_intros]: "keeps (pipeline_inv fmt cfg T S A) (process_event loads find_peaks fmt cfg payload)"
  unfolding process_event_def process_cycle_def
  by (auto intro!: keeps_intros process_cycle_keeps split: sum.split json.split)

lemma analytics_loop_keeps: "keeps (pipeline_inv fmt cfg T S A) (analytics_loop loads find_peaks fmt cfg msgs)"
  unfolding analytics_loop_def by (rule keeps_for) (auto intro: keeps_intros split: option.split)

text \<open>A resistance read at the change from the constant-current to the constant-voltage samples.\<close>

definition resistance_step :: "interval list \<Rightarrow> telemetry_row list \<Rightarrow> real \<Rightarrow> bool" where
  "resistance_step ivs rows r \<longleftrightarrow>
     (\<exists>a b. a < b \<and> b < length rows \<and> label_of ivs (row_time (rows ! a)) = CC_STEP \<and> label_of ivs (row_time (rows ! b)) = CV_STEP \<and>
       (\<forall>j. a < j \<and> j < length rows \<longrightarrow> label_of ivs (row_time (rows ! j)) \<noteq> CC_STEP) \<and>
       (\<forall>j < b. label_of ivs (row_time (rows ! j)) \<noteq> CV_STEP) \<and>
       r = \<bar>(or_zero (tr_voltage_v (rows ! b)) - or_zero (tr_voltage_v (rows ! a))) /
            (or_zero (tr_current_a (rows ! b)) - or_zero (tr_current_a (rows ! a)))\<bar>)"

lemma compute_features_resistance:
  assumes f: "compute_features find_peaks rows e k prev bin h ivs = Some f" and r: "ivs \<noteq> []" "cf_r0_ohm f = Some (Fin r)"
  shows "resistance_step ivs rows r"
proof -
  let ?L = "label_steps (map row_time rows) ivs" and ?v = "map (or_zero \<circ> tr_voltage_v) rows" and ?i = "map (or_zero \<circ> tr_current_a) rows"
  have "clean (transition_r0 ?L ?v ?i) = Some (Fin r)"
    using compute_features_typed(3) [OF f, unfolded if_P [OF r(1)]] r(2) by metis
  then have "transition_r0 ?L ?v ?i = Some (Fin r)" unfolding clean_Some ..
  from transition_meaning [OF this] show ?thesis
    unfolding resistance_step_def
  proof (elim exE conjE)
    fix a b
    assume "a < b" "b < length ?L" "?L ! a = CC_STEP" "?L ! b = CV_STEP" "\<forall>j. a < j \<and> j < length ?L \<longrightarrow> ?L ! j \<noteq> CC_STEP"
      "\<forall>j < b. ?L ! j \<noteq> CV_STEP" "r = \<bar>(?v ! b - ?v ! a) / (?i ! b - ?i ! a)\<bar>"
    then show "\<exists>a b. a < b \<and> b < length rows \<and> label_of ivs (row_time (rows ! a)) = CC_STEP \<and> label_of ivs (row_time (rows ! b)) = CV_STEP \<and>
       (\<forall>j. a < j \<and> j < length rows \<longrightarrow> label_of ivs (row_time (rows ! j)) \<noteq> CC_STEP) \<and>
       (\<forall>j < b. label_of ivs (row_time (rows ! j)) \<noteq> CV_STEP) \<and>
       r = \<bar>(or_zero (tr_voltage_v (rows ! b)) - or_zero (tr_voltage_v (rows ! a))) /
            (or_zero (tr_current_a (rows ! b)) - or_zero (tr_current_a (rows ! a)))\<bar>"
      by (intro exI [of _ a] exI [of _ b]) (simp add: label_steps_def)
  qed
qed

text \<open>
  C32. The features are well typed. Computed features are numbers, never NaN; capacity, efficiency and
  resistance are not negative; the peak temperature is the highest one; the resistance is the
  voltage step over the current step between the last constant-current sample and the first
  constant-voltage one. Whatever events arrive and whatever fails, the table keeps these types and
  one row per cycle, telemetry and steps are only read, and every alert added reports a jump
  above the threshold.
\<close>

theorem features_well_typed:
  fixes loads :: "'p \<Rightarrow> exn + json" and find_peaks :: find_peaks and fmt :: "nat \<Rightarrow> num \<Rightarrow> string" and cfg :: settings
    and msgs :: "'p payload option list" and w :: analytics_db
  assumes "table_typed (an_features w)"
  defines "w' \<equiv> snd (analytics_loop loads find_peaks fmt cfg msgs w)"
  shows "table_typed (an_features w') \<and> an_telemetry w' = an_telemetry w \<and> an_steps w' = an_steps w \<and>
    (\<exists>new. an_alerts w' = an_alerts w @ new \<and> (\<forall>a \<in> set new. anomaly_row fmt cfg a)) \<and>
    (\<forall>rows e k prev bin h ivs f. compute_features find_peaks rows e k prev bin h ivs = Some f \<longrightarrow>
      row_typed f \<and> 10 \<le> length rows \<and> cf_peak_temp_c f = Some (Fin (Max (set (map (or_zero \<circ> tr_temperature_c) rows)))) \<and>
      (\<forall>r. ivs \<noteq> [] \<and> cf_r0_ohm f = Some (Fin r) \<longrightarrow> resistance_step ivs rows r))"
proof -
  have "pipeline_inv fmt cfg (an_telemetry w) (an_steps w) (an_alerts w) w"
    using assms(1) by (simp add: pipeline_inv_def)
  from keepsD [OF analytics_loop_keeps this]
  have run: "pipeline_inv fmt cfg (an_telemetry w) (an_steps w) (an_alerts w) w'" unfolding w'_def .
  show ?thesis
  proof (intro conjI allI impI)
    fix rows e k prev bin h ivs f assume f: "compute_features find_peaks rows e k prev bin h ivs = Some f"
    show "row_typed f" "cf_peak_temp_c f = Some (Fin (Max (set (map (or_zero \<circ> tr_temperature_c) rows))))" "10 \<le> length rows"
      using compute_features_typed [OF f] compute_features_ids [OF f] by simp_all
    fix r assume "ivs \<noteq> [] \<and> cf_r0_ohm f = Some (Fin r)"
    then show "resistance_step ivs rows r" using compute_features_resistance [OF f] by simp
  qed (use run in \<open>simp_all add: pipeline_inv_def\<close>)
qed

lemma features_well_typed_witness:
  "table_typed (an_features (snd (analytics_loop Inr scan_peaks (\<lambda>_ _. [])
     \<lparr>set_bin_mv = 10, set_peak_height = 0.1, set_r0_jump_threshold_pct = 20\<rparr>
     [None, Some Empty, Some (Body (JObj [(''experiment_id'', JStr ''e''), (''chassis_id'', JInt 1), (''channel_idx'', JInt 0), (''cycle_index'', JInt 1)]))]
     \<lparr>an_telemetry = [], an_steps = [],
       an_features = [\<lparr>cf_experiment_id = ''e'', cf_cycle_index = 0, cf_capacity_ah = Some (Fin 2), cf_coulombic_eff = None, cf_peak_temp_c = Some (Fin 30),
         cf_r0_ohm = Some (Fin 0.02), cf_r0_jump_pct = None, cf_dq_dv_peaks = []\<rparr>],
       an_alerts = [], an_faults = [Commit, Lost OSErr]\<rparr>)))"
  by (rule conjunct1 [OF features_well_typed]) (simp add: table_typed_def row_typed_def nonneg_value_def finite_value_def)

text \<open>
  C16. Processing a cycle again. Whatever failed while a \<open>cycle_complete\<close> event was processed,
  processing the same event once more without faults returns the same result and leaves the same
  features table as if the first attempt had never been, while an alert it raises is
  appended each time.
\<close>

theorem process_cycle_idempotent:
  fixes find_peaks :: find_peaks and fmt :: "nat \<Rightarrow> num \<Rightarrow> string" and cfg :: settings and event :: json and w :: analytics_db
  defines "first \<equiv> process_cycle find_peaks fmt cfg event w"
  defines "retry \<equiv> process_cycle find_peaks fmt cfg event (snd first\<lparr>an_faults := []\<rparr>)"
    and "direct \<equiv> process_cycle find_peaks fmt cfg event (w\<lparr>an_faults := []\<rparr>)"
  shows "fst retry = fst direct \<and> an_features (snd retry) = an_features (snd direct) \<and>
    (\<exists>new. an_alerts (snd direct) = an_alerts w @ new \<and> an_alerts (snd first) \<in> {an_alerts w, an_alerts w @ new} \<and>
      an_alerts (snd retry) = an_alerts (snd first) @ new \<and> length new \<le> 1)"
proof (cases "event_fields event")
  case (Inl e)
  then have "process_cycle find_peaks fmt cfg event w' = (Inl e, w')" for w'
    by (simp add: process_cycle_def run_simps)
  then show ?thesis unfolding retry_def direct_def first_def by (intro conjI exI [of _ "[]"]) simp_all
next
  case (Inr x)
  obtain experiment_id chassis_id channel_idx cycle_index where "x = (experiment_id, chassis_id, channel_idx, cycle_index)"
    by (metis prod_cases4)
  with Inr have run: "process_cycle find_peaks fmt cfg event w' =
      process_cycle_of find_peaks fmt cfg experiment_id chassis_id channel_idx cycle_index w'" for w'
    by (simp add: process_cycle_def run_simps)
  show ?thesis unfolding retry_def direct_def first_def run by (rule retried_cycle)
qed

subsection \<open>Bad events\<close>

text \<open>The exception an event ends the consumer with, when no statement fails.\<close>

definition caught :: "exn \<Rightarrow> bool" where "caught e \<longleftrightarrow> e \<in> {PostgresErr, OSErr}"

definition fatal :: "('p \<Rightarrow> exn + json) \<Rightarrow> 'p payload option \<Rightarrow> exn option" where
  "fatal loads msg =
     (case msg of None \<Rightarrow> None
      | Some payload \<Rightarrow>
          (case load loads payload of
             Inl e \<Rightarrow> if e = JSONDecodeErr then None else Some e
           | Inr (JObj kvs) \<Rightarrow>
               if list_all (\<lambda>k. k \<in> set (map fst kvs)) required_fields
               then (case event_fields (JObj kvs) of Inl e \<Rightarrow> if caught e then None else Some e | Inr _ \<Rightarrow> None)
               else None
           | Inr _ \<Rightarrow> Some AttributeErr))"

definition benign :: "fault \<Rightarrow> bool" where
  "benign f = (case f of Commit \<Rightarrow> True | Reject e \<Rightarrow> caught e | Lost e \<Rightarrow> caught e)"

definition faults_benign :: "analytics_db \<Rightarrow> bool" where
  "faults_benign w \<longleftrightarrow> (\<forall>f \<in> set (an_faults w). benign f)"

text \<open>An action that raises only what the handler catches.\<close>

definition benign_act :: "(analytics_db, 'a) act \<Rightarrow> bool" where
  "benign_act m \<longleftrightarrow> triple faults_benign m (\<lambda>_. faults_benign) (\<lambda>e w. caught e \<and> faults_benign w)"

named_theorems benign_intros \<open>actions that raise only caught exceptions\<close>

lemma benign_execute [benign_intros]: "(\<And>w. an_faults (f w) = an_faults w) \<Longrightarrow> benign_act (an_execute f)"
  unfolding benign_act_def
  by (rule tripleI) (auto simp: an_execute_def faults_benign_def benign_def split: list.split fault.splits)

lemma benign_get [benign_intros]: "benign_act (get_act g)"
  unfolding benign_act_def by (rule triple_get)

lemma benign_ret [benign_intros]: "benign_act (ret x)"
  unfolding benign_act_def by (rule triple_ret)

lemma benign_params [benign_intros]: "benign_act (bind_params b)"
  unfolding bind_params_def benign_act_def by (rule triple_lift) (simp_all add: caught_def split: if_splits)

lemma benign_seq [benign_intros]: "benign_act m \<Longrightarrow> benign_act k \<Longrightarrow> benign_act (seq_act m k)"
  unfolding benign_act_def by (rule triple_seq)

lemma benign_bind [benign_intros]: "benign_act m \<Longrightarrow> (\<And>x. benign_act (f x)) \<Longrightarrow> benign_act (bind_act m f)"
  unfolding benign_act_def by (rule triple_bind)

lemma benign_cycle: "benign_act (process_cycle_of find_peaks fmt cfg e chassis_id channel_idx k)"
  unfolding process_cycle_of_def Let_def fetch_step_intervals_def fetch_cycle_telemetry_def previous_r0_def upsert_features_def
    alert_if_jump_def emit_anomaly_alert_def an_fetch_def
  by (auto intro!: benign_intros split: option.split)

lemma handled_cycle:
  assumes "faults_benign w"
  shows "\<exists>w'. catch_act (seq_act (process_cycle_of find_peaks fmt cfg e chassis_id channel_idx k) (ret ())) (\<lambda>e. e \<in> {PostgresErr, OSErr}) (\<lambda>_. ret ()) w = (Inr (), w') \<and>
    faults_benign w'"
proof -
  have b: "benign_act (seq_act (process_cycle_of find_peaks fmt cfg e chassis_id channel_idx k) (ret ()))"
    by (rule benign_seq [OF benign_cycle benign_ret])
  have "triple faults_benign (catch_act (seq_act (process_cycle_of find_peaks fmt cfg e chassis_id channel_idx k) (ret ()))
      (\<lambda>e. e \<in> {PostgresErr, OSErr}) (\<lambda>_. ret ())) (\<lambda>_. faults_benign) (\<lambda>_ _. False)"
    by (rule triple_catch [OF b [unfolded benign_act_def]], rule triple_ret) (simp_all add: caught_def)
  from tripleD [OF this assms] show ?thesis by (auto split: prod.splits sum.splits)
qed

text \<open>One event: it ends the consumer exactly when it is fatal, and then has touched nothing.\<close>

lemma process_event_outcome:
  assumes "faults_benign w"
  shows "case fatal loads (Some payload) of
      Some e \<Rightarrow> process_event loads find_peaks fmt cfg payload w = (Inl e, w)
    | None \<Rightarrow> \<exists>w'. process_event loads find_peaks fmt cfg payload w = (Inr (), w') \<and> faults_benign w'"
proof (cases "load loads payload")
  case (Inl e)
  then show ?thesis using assms by (simp add: fatal_def process_event_def run_simps)
next
  case (Inr event)
  show ?thesis
  proof (cases event)
    case (JObj kvs)
    show ?thesis
    proof (cases "list_all (\<lambda>k. k \<in> set (map fst kvs)) required_fields")
      case False
      then show ?thesis using assms Inr JObj by (simp add: fatal_def process_event_def run_simps)
    next
      case True
      show ?thesis
      proof (cases "event_fields (JObj kvs)")
        case (Inl e)
        then have "process_cycle find_peaks fmt cfg (JObj kvs) w = (Inl e, w)" by (simp add: process_cycle_def run_simps)
        then show ?thesis using assms Inr JObj True Inl
          by (simp add: fatal_def process_event_def run_simps caught_def)
      next
        case (Inr x)
        obtain e chassis_id channel_idx k where "x = (e, chassis_id, channel_idx, k)" by (metis prod_cases4)
        with Inr have "process_cycle find_peaks fmt cfg (JObj kvs) = process_cycle_of find_peaks fmt cfg e chassis_id channel_idx k"
          by (simp add: process_cycle_def run_simps fun_eq_iff)
        then show ?thesis using handled_cycle [OF assms] \<open>load loads payload = Inr event\<close> JObj True Inr
          by (simp add: fatal_def process_event_def)
      qed
    qed
  qed (use assms Inr in \<open>simp_all add: fatal_def process_event_def run_simps\<close>)
qed



end
