(* ===== verification/Config.thy ===== *)
theory Config
  imports Json
begin

section \<open>Configuration: the environment and the database address\<close>

text \<open>
  What every service does first: read its settings from the environment, each a text with a default,
  and build the address of its databases with \<open>batterylab/db.py\<close>. An environment is a finite map of
  texts; a text stands for its UTF-8 bytes, which is what \<open>urllib.parse.quote\<close> encodes. \<open>float\<close> of a
  text is a parameter. The address is read back as the database driver reads it, with
  \<open>urllib.parse.urlparse\<close>.
\<close>

type_synonym environ = "(string \<times> string) list"

definition env_str :: "environ \<Rightarrow> string \<Rightarrow> string \<Rightarrow> string" where
  "env_str env k d = (case map_of env k of None \<Rightarrow> d | Some s \<Rightarrow> s)"

text \<open>\<open>int(os.environ.get(k, "d"))\<close> and \<open>float(os.environ.get(k, "d"))\<close>.\<close>

definition env_int :: "environ \<Rightarrow> string \<Rightarrow> int \<Rightarrow> exn + int" where
  "env_int env k d = (case map_of env k of None \<Rightarrow> Inr d | Some s \<Rightarrow> parse_int s)"

definition env_float :: "(string \<Rightarrow> exn + real) \<Rightarrow> environ \<Rightarrow> string \<Rightarrow> real \<Rightarrow> exn + real" where
  "env_float fl env k d = (case map_of env k of None \<Rightarrow> Inr d | Some s \<Rightarrow> fl s)"

subsection \<open>Percent-encoding\<close>

definition unreserved :: "char \<Rightarrow> bool" where
  "unreserved c \<longleftrightarrow> (let n = of_char c :: nat in
     48 \<le> n \<and> n \<le> 57 \<or> 65 \<le> n \<and> n \<le> 90 \<or> 97 \<le> n \<and> n \<le> 122 \<or> n \<in> {45, 46, 95, 126})"

definition hex_digit :: "nat \<Rightarrow> char" where
  "hex_digit d = char_of (if d < 10 then 48 + d else 55 + d)"

definition hex_val :: "char \<Rightarrow> nat option" where
  "hex_val c = (let n = of_char c :: nat in
     if 48 \<le> n \<and> n \<le> 57 then Some (n - 48)
     else if 65 \<le> n \<and> n \<le> 70 then Some (n - 55)
     else if 97 \<le> n \<and> n \<le> 102 then Some (n - 87) else None)"

text \<open>\<open>quote(s, safe="")\<close> and its inverse.\<close>

definition quote_char :: "char \<Rightarrow> string" where
  "quote_char c = (if unreserved c then [c] else [CHR ''%'', hex_digit (of_char c div 16), hex_digit (of_char c mod 16)])"

definition quote :: "string \<Rightarrow> string" where
  "quote s = concat (map quote_char s)"

fun unquote :: "string \<Rightarrow> string" where
  "unquote [] = []"
| "unquote (c # s) =
     (if c = CHR ''%'' then
        (case s of
           a # b # s' \<Rightarrow> (case (hex_val a, hex_val b) of (Some x, Some y) \<Rightarrow> char_of (16 * x + y) # unquote s' | _ \<Rightarrow> c # unquote s)
         | _ \<Rightarrow> c # unquote s)
      else c # unquote s)"

subsection \<open>The address\<close>

definition make_dsn :: "string \<Rightarrow> string \<Rightarrow> string \<Rightarrow> string \<Rightarrow> string \<Rightarrow> string" where
  "make_dsn user password host port db =
     ''postgresql://'' @ quote user @ CHR '':'' # quote password @ CHR ''@'' # host @ CHR '':'' # port @ CHR ''/'' # db"

text \<open>
  Reading it: the authority ends at the first of \<open>/\<close>, \<open>?\<close> and \<open>#\<close>, the credentials end at its last \<open>@\<close>,
  the user at their first colon.
\<close>

record dsn_parts =
  dsn_user :: string
  dsn_password :: string
  dsn_host :: string
  dsn_port :: string
  dsn_db :: string

definition rpartition_at :: "char \<Rightarrow> string \<Rightarrow> string \<times> string" where
  "rpartition_at c s = (let (after, before) = partition_at c (rev s) in (rev before, rev after))"

definition in_authority :: "char \<Rightarrow> bool" where
  "in_authority c \<longleftrightarrow> c \<notin> {CHR ''/'', CHR ''?'', CHR ''#''}"

definition parse_dsn :: "string \<Rightarrow> dsn_parts option" where
  "parse_dsn s =
     (if take 13 s \<noteq> ''postgresql://'' then None
      else
        let rest = drop 13 s;
            netloc = takeWhile in_authority rest;
            path = takeWhile (\<lambda>c. c \<notin> {CHR ''?'', CHR ''#''}) (dropWhile in_authority rest);
            (auth, hostspec) = rpartition_at CHR ''@'' netloc;
            (user, password) = partition_at CHR '':'' auth;
            (host, port) = partition_at CHR '':'' hostspec
        in Some \<lparr>dsn_user = unquote user, dsn_password = unquote password, dsn_host = host, dsn_port = port,
             dsn_db = (case path of [] \<Rightarrow> [] | c # p \<Rightarrow> p)\<rparr>)"

text \<open>
  The blocks that several services read in the same way: a database under the prefix \<open>PG\<close> or
  \<open>TSDB\<close>, and the broker.
\<close>

record db_settings =
  ds_host :: string
  ds_port :: int
  ds_user :: string
  ds_password :: string
  ds_db :: string

definition read_db :: "environ \<Rightarrow> string \<Rightarrow> string \<Rightarrow> string \<Rightarrow> exn + db_settings" where
  "read_db env prefix default_host default_db =
     bind_sum (env_int env (prefix @ ''_PORT'') 5432) (\<lambda>port.
       Inr \<lparr>ds_host = env_str env (prefix @ ''_HOST'') default_host, ds_port = port, ds_user = env_str env (prefix @ ''_USER'') ''lab'',
         ds_password = env_str env (prefix @ ''_PASSWORD'') ''lab'', ds_db = env_str env (prefix @ ''_DB'') default_db\<rparr>)"

definition read_pg :: "environ \<Rightarrow> exn + db_settings" where
  "read_pg env = read_db env ''PG'' ''postgres'' ''lab''"

definition read_tsdb :: "environ \<Rightarrow> exn + db_settings" where
  "read_tsdb env = read_db env ''TSDB'' ''timescaledb'' ''telemetry''"

definition dsn_of :: "db_settings \<Rightarrow> string" where
  "dsn_of d = make_dsn (ds_user d) (ds_password d) (ds_host d) (show_int (ds_port d)) (ds_db d)"

definition read_broker :: "environ \<Rightarrow> exn + string \<times> int" where
  "read_broker env = bind_sum (env_int env ''MQTT_PORT'' 1883) (\<lambda>port. Inr (env_str env ''MQTT_HOST'' ''mosquitto'', port))"

subsection \<open>Reading an address\<close>

lemma high_nibble: "of_char c div 16 < (16 :: nat)"
  using nat_of_char_less_256 [of c] by (intro less_mult_imp_div_less) simp

lemma hex_val_digit: "d < 16 \<Longrightarrow> hex_val (hex_digit d) = Some d"
  by (auto simp: hex_val_def hex_digit_def Let_def)

lemma unquote_quote_char: "unquote (quote_char c @ s) = c # unquote s"
proof (cases "unreserved c")
  case True
  then have "c \<noteq> CHR ''%''" by (auto simp: unreserved_def Let_def)
  with True show ?thesis by (simp add: quote_char_def)
next
  case False
  have "hex_val (hex_digit (of_char c div 16)) = Some (of_char c div 16)" "hex_val (hex_digit (of_char c mod 16)) = Some (of_char c mod 16)"
    by (simp_all add: hex_val_digit high_nibble)
  moreover have "char_of (16 * (of_char c div 16) + of_char c mod 16 :: nat) = c" by (simp only: mult_div_mod_eq char_of_char)
  ultimately show ?thesis using False by (simp add: quote_char_def)
qed

lemma unquote_quote [simp]: "unquote (quote s) = s"
  by (induction s) (simp_all add: quote_def unquote_quote_char)

lemma unreserved_hex: "d < 16 \<Longrightarrow> unreserved (hex_digit d)"
  by (auto simp: unreserved_def hex_digit_def Let_def)

lemma quote_char_set: "c \<in> set (quote_char d) \<Longrightarrow> unreserved c \<or> c = CHR ''%''"
proof -
  have "unreserved (hex_digit (of_char d div 16))" "unreserved (hex_digit (of_char d mod 16))"
    by (simp_all add: unreserved_hex high_nibble)
  then show "c \<in> set (quote_char d) \<Longrightarrow> unreserved c \<or> c = CHR ''%''" by (auto simp: quote_char_def split: if_splits)
qed

lemma quote_set: "c \<in> set (quote s) \<Longrightarrow> unreserved c \<or> c = CHR ''%''"
  using quote_char_set by (auto simp: quote_def)

text \<open>The characters that structure an address do not occur in an encoded text.\<close>

lemma quote_free [simp]:
  "CHR '':'' \<notin> set (quote s)" "CHR ''@'' \<notin> set (quote s)" "CHR ''/'' \<notin> set (quote s)"
  "CHR ''?'' \<notin> set (quote s)" "CHR ''#'' \<notin> set (quote s)"
proof -
  have "\<not> unreserved CHR '':''" "\<not> unreserved CHR ''@''" "\<not> unreserved CHR ''/''" "\<not> unreserved CHR ''?''" "\<not> unreserved CHR ''#''"
    by (simp_all add: unreserved_def)
  then show "CHR '':'' \<notin> set (quote s)" "CHR ''@'' \<notin> set (quote s)" "CHR ''/'' \<notin> set (quote s)"
    "CHR ''?'' \<notin> set (quote s)" "CHR ''#'' \<notin> set (quote s)"
    using quote_set [where s = s] by fastforce+
qed

lemma rpartition_at_append: "c \<notin> set s \<Longrightarrow> rpartition_at c (p @ c # s) = (p, s)"
proof -
  assume "c \<notin> set s"
  then have "partition_at c (rev s @ c # rev p) = (rev s, rev p)" by (intro partition_at_append) simp
  then show ?thesis by (simp add: rpartition_at_def)
qed

definition plain_part :: "string \<Rightarrow> bool" where
  "plain_part s \<longleftrightarrow> set s \<inter> {CHR '':'', CHR ''@'', CHR ''/'', CHR ''?'', CHR ''#'', CHR ''%''} = {}"

text \<open>
  Credentials survive the address. Whatever characters a user name and a password contain, reading
  the address returns them, with the host, the port and the database as given, as long as
  those three are plain; in particular different credentials give different addresses.
\<close>

theorem dsn_roundtrip:
  assumes "plain_part host" "plain_part port" "plain_part db"
  shows "parse_dsn (make_dsn user password host port db) =
    Some \<lparr>dsn_user = user, dsn_password = password, dsn_host = host, dsn_port = port, dsn_db = db\<rparr>"
proof -
  let ?hp = "host @ CHR '':'' # port" and ?auth = "quote user @ CHR '':'' # quote password"
  let ?net = "?auth @ CHR ''@'' # ?hp"
  have "drop 13 (make_dsn user password host port db) = ?net @ CHR ''/'' # db" and t: "take 13 (make_dsn user password host port db) = ''postgresql://''"
    by (simp_all add: make_dsn_def)
  moreover have n: "\<forall>c \<in> set ?net. in_authority c"
    using assms(1, 2) quote_free by (auto simp: in_authority_def plain_part_def)
  then have "takeWhile in_authority (?net @ CHR ''/'' # db) = ?net" "dropWhile in_authority (?net @ CHR ''/'' # db) = CHR ''/'' # db"
    by (simp_all add: takeWhile_append2 dropWhile_append2 in_authority_def)
  moreover have "takeWhile (\<lambda>c. c \<notin> {CHR ''?'', CHR ''#''}) (CHR ''/'' # db) = CHR ''/'' # db"
    using assms(3) by (auto simp: plain_part_def takeWhile_eq_all_conv)
  moreover have "rpartition_at CHR ''@'' ?net = (?auth, ?hp)"
    using assms(1, 2) by (intro rpartition_at_append) (auto simp: plain_part_def)
  moreover have "partition_at CHR '':'' ?auth = (quote user, quote password)" by (intro partition_at_append) simp
  moreover have "partition_at CHR '':'' ?hp = (host, port)"
    using assms(1) by (intro partition_at_append) (auto simp: plain_part_def)
  ultimately show ?thesis unfolding parse_dsn_def t by (simp add: Let_def)
qed

lemma dsn_roundtrip_witness:
  "parse_dsn (make_dsn ''lab'' ''p@ss:w/rd%#?'' ''timescaledb'' ''5432'' ''telemetry'') =
    Some \<lparr>dsn_user = ''lab'', dsn_password = ''p@ss:w/rd%#?'', dsn_host = ''timescaledb'', dsn_port = ''5432'', dsn_db = ''telemetry''\<rparr>"
  by (rule dsn_roundtrip) (simp_all add: plain_part_def)

end
