(* ===== verification/Watchdog_Process.thy ===== *)
theory Watchdog_Process
  imports Config Watchdog Orch_Main
begin

section \<open>The watchdog process\<close>

text \<open>
  \<open>watchdog/main.py\<close>: its settings, the probes of the bench, and the broker sessions in which all
  monitors run. A session is a sequence of events, each one pass of a monitor or one message; it
  ends when the broker fails, and the next one starts with fresh monitors, a fresh sink and the
  old edges. Any other exception ends the process. The pass of a monitor is one event: the
  interleaving inside the shared sink is the subject of theory Watchdog.
\<close>

record monitor_tunables =
  mt_heartbeat_threshold_s :: real
  mt_heartbeat_poll_s :: real
  mt_chamber_breach_band_c :: real
  mt_chamber_breach_duration_s :: real
  mt_chamber_startup_grace_s :: real
  mt_chamber_check_period_s :: real
  mt_chassis_poll_sim_s :: real
  mt_chassis_startup_grace_polls :: int
  mt_fleet_threshold :: int
  mt_fleet_window_s :: real
  mt_fleet_poll_s :: real

definition read_tunables :: "(string \<Rightarrow> exn + real) \<Rightarrow> environ \<Rightarrow> exn + monitor_tunables" where
  "read_tunables fl env =
     bind_sum (env_float fl env ''WATCHDOG_HEARTBEAT_THRESHOLD_S'' 10) (\<lambda>heartbeat_threshold_s.
     bind_sum (env_float fl env ''WATCHDOG_HEARTBEAT_POLL_S'' 2) (\<lambda>heartbeat_poll_s.
     bind_sum (env_float fl env ''WATCHDOG_CHAMBER_BREACH_BAND_C'' 5) (\<lambda>chamber_breach_band_c.
     bind_sum (env_float fl env ''WATCHDOG_CHAMBER_BREACH_DURATION_S'' 300) (\<lambda>chamber_breach_duration_s.
     bind_sum (env_float fl env ''WATCHDOG_CHAMBER_STARTUP_GRACE_S'' 60) (\<lambda>chamber_startup_grace_s.
     bind_sum (env_float fl env ''WATCHDOG_CHAMBER_CHECK_PERIOD_S'' 5) (\<lambda>chamber_check_period_s.
     bind_sum (env_float fl env ''WATCHDOG_CHASSIS_POLL_SIM_S'' 5) (\<lambda>chassis_poll_sim_s.
     bind_sum (env_int env ''WATCHDOG_CHASSIS_STARTUP_GRACE_POLLS'' 1) (\<lambda>chassis_startup_grace_polls.
     bind_sum (env_int env ''WATCHDOG_FLEET_FAIL_THRESHOLD'' 8) (\<lambda>fleet_threshold.
     bind_sum (env_float fl env ''WATCHDOG_FLEET_FAIL_WINDOW_S'' 30) (\<lambda>fleet_window_s.
     bind_sum (env_float fl env ''WATCHDOG_FLEET_FAIL_POLL_S'' 10) (\<lambda>fleet_poll_s.
       Inr \<lparr>mt_heartbeat_threshold_s = heartbeat_threshold_s, mt_heartbeat_poll_s = heartbeat_poll_s,
         mt_chamber_breach_band_c = chamber_breach_band_c, mt_chamber_breach_duration_s = chamber_breach_duration_s,
         mt_chamber_startup_grace_s = chamber_startup_grace_s, mt_chamber_check_period_s = chamber_check_period_s,
         mt_chassis_poll_sim_s = chassis_poll_sim_s, mt_chassis_startup_grace_polls = chassis_startup_grace_polls,
         mt_fleet_threshold = fleet_threshold, mt_fleet_window_s = fleet_window_s, mt_fleet_poll_s = fleet_poll_s\<rparr>)))))))))))"

text \<open>
  The list of hosts is parsed by the same code as in the orchestrator; one probe per host, whose chassis id
  is the position in the list, from 1.
\<close>

definition parse_probe_hosts :: "string \<Rightarrow> exn + (string \<times> int) list" where
  "parse_probe_hosts env_value = parse_host_tokens (split_on CHR '','' env_value)"

record chassis_probe_ref =
  cp_host :: string
  cp_port :: int
  cp_chassis_id :: int

definition make_probes :: "(string \<times> int) list \<Rightarrow> chassis_probe_ref list" where
  "make_probes hosts = map (\<lambda>(i, (h, p)). \<lparr>cp_host = h, cp_port = p, cp_chassis_id = int i + 1\<rparr>) (enumerate 0 hosts)"

record watchdog_settings =
  wt_pg :: db_settings
  wt_broker :: "string \<times> int"
  wt_tunables :: monitor_tunables
  wt_probes :: "chassis_probe_ref list"

definition read_watchdog :: "(string \<Rightarrow> exn + real) \<Rightarrow> environ \<Rightarrow> exn + watchdog_settings" where
  "read_watchdog fl env =
     bind_sum (read_pg env) (\<lambda>pg.
     bind_sum (read_broker env) (\<lambda>broker.
     bind_sum (parse_probe_hosts (env_str env ''CYCLER_HOSTS'' ''cycler_01:502'')) (\<lambda>hosts.
     bind_sum (read_tunables fl env) (\<lambda>tunables.
       Inr \<lparr>wt_pg = pg, wt_broker = broker, wt_tunables = tunables, wt_probes = make_probes hosts\<rparr>))))"

subsection \<open>Sessions\<close>

datatype 'p wd_event =
    Received real string 'p
  | HeartbeatPass real
  | ChamberPass real
  | ChassisPass "(int \<times> (exn + int)) list"
  | FleetPass bool real "(string \<times> real option) list"

text \<open>\<open>wr_polls\<close> is the local \<open>poll_count\<close> of the session's chassis loop.\<close>

record watchdog =
  wr_session :: wd_session
  wr_polls :: nat

definition hand_over :: "alert list \<times> edges \<Rightarrow> watchdog \<Rightarrow> alert list \<times> watchdog" where
  "hand_over r w = (fst r, w\<lparr>wr_session := emit_all r (wr_session w)\<rparr>)"

text \<open>One event: the alerts it hands to the sink, and the state afterwards.\<close>

fun wd_exec ::
  "(string \<Rightarrow> string \<Rightarrow> bool) \<Rightarrow> ('p \<Rightarrow> exn + json) \<Rightarrow> (string \<Rightarrow> exn + real) \<Rightarrow> (json \<Rightarrow> string) \<Rightarrow> monitor_tunables \<Rightarrow>
    'p wd_event \<Rightarrow> watchdog \<Rightarrow> exn + alert list \<times> watchdog" where
  "wd_exec matches loads fl py_str mt (Received now topic payload) w =
     bind_sum (dispatch_message matches loads fl py_str (mt_chamber_breach_band_c mt) now topic payload (wr_session w)) (\<lambda>s.
       Inr ([], w\<lparr>wr_session := s\<rparr>))"
| "wd_exec matches loads fl py_str mt (HeartbeatPass now) w =
     (let s = wr_session w
      in Inr (hand_over (heartbeat_check (mt_heartbeat_threshold_s mt) now (ws_last_rx s) (ws_edges s)) w))"
| "wd_exec matches loads fl py_str mt (ChamberPass now) w =
     (let s = wr_session w
      in Inr (hand_over (chamber_check (mt_chamber_startup_grace_s mt) (ws_started s) (mt_chamber_breach_duration_s mt) now
           (ws_chambers s) (ws_edges s)) w))"
| "wd_exec matches loads fl py_str mt (ChassisPass results) w =
     (let w = w\<lparr>wr_polls := Suc (wr_polls w)\<rparr>
      in bind_sum (chassis_poll (int (wr_polls w) \<le> mt_chassis_startup_grace_polls mt) results (ws_edges (wr_session w))) (\<lambda>r.
           Inr (hand_over r w)))"
| "wd_exec matches loads fl py_str mt (FleetPass query_ok now rows) w =
     Inr (hand_over (fleet_monitor_step (nat (mt_fleet_threshold mt))
       (count_recent_failures query_ok now (mt_fleet_window_s mt) rows) (ws_edges (wr_session w))) w)"

fun wd_events ::
  "(string \<Rightarrow> string \<Rightarrow> bool) \<Rightarrow> ('p \<Rightarrow> exn + json) \<Rightarrow> (string \<Rightarrow> exn + real) \<Rightarrow> (json \<Rightarrow> string) \<Rightarrow> monitor_tunables \<Rightarrow>
    'p wd_event list \<Rightarrow> watchdog \<Rightarrow> exn + alert list \<times> watchdog" where
  "wd_events matches loads fl py_str mt [] w = Inr ([], w)"
| "wd_events matches loads fl py_str mt (e # es) w =
     bind_sum (wd_exec matches loads fl py_str mt e w) (\<lambda>(as, w).
     bind_sum (wd_events matches loads fl py_str mt es w) (\<lambda>(bs, w). Inr (as @ bs, w)))"

definition reconnect :: "real \<Rightarrow> watchdog \<Rightarrow> watchdog" where
  "reconnect now w = \<lparr>wr_session = session_start now (ws_edges (wr_session w)) (ws_sink (wr_session w)), wr_polls = 0\<rparr>"

text \<open>The process: a sequence of sessions, each with the clock at its start and its events.\<close>

fun watchdog_run ::
  "(string \<Rightarrow> string \<Rightarrow> bool) \<Rightarrow> ('p \<Rightarrow> exn + json) \<Rightarrow> (string \<Rightarrow> exn + real) \<Rightarrow> (json \<Rightarrow> string) \<Rightarrow> monitor_tunables \<Rightarrow>
    (real \<times> 'p wd_event list) list \<Rightarrow> watchdog \<Rightarrow> exn + alert list \<times> watchdog" where
  "watchdog_run matches loads fl py_str mt [] w = Inr ([], w)"
| "watchdog_run matches loads fl py_str mt ((now, es) # ss) w =
     bind_sum (wd_events matches loads fl py_str mt es (reconnect now w)) (\<lambda>(as, w).
     bind_sum (watchdog_run matches loads fl py_str mt ss w) (\<lambda>(bs, w). Inr (as @ bs, w)))"

subsection \<open>Chassis trips across sessions\<close>

abbreviation trip_alert :: "int \<Rightarrow> alert" where
  "trip_alert cid \<equiv> chassis_alert ''chassis_watchdog_tripped'' cid"

text \<open>What the polls of a session show of a chassis: whether the poll is a grace poll, and the answer.\<close>

fun session_results :: "monitor_tunables \<Rightarrow> int \<Rightarrow> nat \<Rightarrow> 'p wd_event list \<Rightarrow> (bool \<times> (exn + int)) list" where
  "session_results mt cid n [] = []"
| "session_results mt cid n (e # es) =
     (case e of
        ChassisPass results \<Rightarrow>
          (case map_of results cid of None \<Rightarrow> [] | Some r \<Rightarrow> [(int (Suc n) \<le> mt_chassis_startup_grace_polls mt, r)]) @
            session_results mt cid (Suc n) es
      | _ \<Rightarrow> session_results mt cid n es)"

definition run_results :: "monitor_tunables \<Rightarrow> int \<Rightarrow> (real \<times> 'p wd_event list) list \<Rightarrow> (bool \<times> (exn + int)) list" where
  "run_results mt cid ss = concat (map (\<lambda>(_, es). session_results mt cid 0 es) ss)"

text \<open>The number of rising edges outside the grace polls, from a level.\<close>

fun reported :: "bool \<Rightarrow> (bool \<times> (exn + int)) list \<Rightarrow> nat" where
  "reported l [] = 0"
| "reported l ((g, r) # xs) = (if tripped r \<and> \<not> l \<and> \<not> g then 1 else 0) + reported (tripped r) xs"

definition level_after :: "bool \<Rightarrow> (bool \<times> (exn + int)) list \<Rightarrow> bool" where
  "level_after l xs = (if xs = [] then l else tripped (snd (last xs)))"

lemma reported_append: "reported l (xs @ ys) = reported l xs + reported (level_after l xs) ys"
  by (induction xs arbitrary: l) (auto simp: level_after_def)

lemma level_after_append: "level_after l (xs @ ys) = level_after (level_after l xs) ys"
  by (simp add: level_after_def)

lemma chassis_probe_trips:
  assumes "chassis_probe g i r s = Inr (as, s')"
  shows "count_list as (trip_alert cid) = (if i = cid then reported (armed (KTripped cid) s) [(g, r)] else 0) \<and>
    armed (KTripped cid) s' = (if i = cid then tripped r else armed (KTripped cid) s)"
  using assms
  by (cases r) (auto simp: chassis_probe_def edge_update_def armed_def chassis_alert_def Let_def split: if_splits)

lemma chassis_poll_trips:
  assumes "chassis_poll g ps s = Inr (as, s')" "distinct (map fst ps)"
  shows "count_list as (trip_alert cid) = (case map_of ps cid of None \<Rightarrow> 0 | Some r \<Rightarrow> reported (armed (KTripped cid) s) [(g, r)]) \<and>
    armed (KTripped cid) s' = (case map_of ps cid of None \<Rightarrow> armed (KTripped cid) s | Some r \<Rightarrow> tripped r)"
  using assms
proof (induction ps arbitrary: s as s')
  case (Cons p ps)
  obtain i r where p: "p = (i, r)" by (cases p)
  with Cons.prems(1) obtain bs s1 cs where
    1: "chassis_probe g i r s = Inr (bs, s1)" and 2: "chassis_poll g ps s1 = Inr (cs, s')" and as: "as = bs @ cs" by auto
  have d: "distinct (map fst ps)" "i = cid \<Longrightarrow> map_of ps cid = None" using Cons.prems(2) p by (auto simp: map_of_eq_None_iff)
  from chassis_probe_trips [OF 1, of cid] Cons.IH [OF 2 d(1)] d(2) show ?case
    by (auto simp: p as split: option.splits)
qed simp

lemma chamber_sweep_trips:
  "chamber_sweep d now cs s = (as, s') \<Longrightarrow> count_list as (trip_alert cid) = 0 \<and> armed (KTripped cid) s' = armed (KTripped cid) s"
proof (induction cs arbitrary: s as s')
  case (Cons c cs)
  obtain k st where c: "c = (k, st)" by (cases c)
  obtain f s1 where 1: "edge_update (KChamber k) (is_breach_sustained d now st) s = (f, s1)" by (cases "edge_update (KChamber k) (is_breach_sustained d now st) s")
  obtain bs s2 where 2: "chamber_sweep d now cs s1 = (bs, s2)" by (cases "chamber_sweep d now cs s1")
  have "armed (KTripped cid) s1 = armed (KTripped cid) s" using 1 by (auto simp: edge_update_def armed_def)
  with Cons.IH [OF 2] Cons.prems 1 2 show ?case
    by (auto simp: c chassis_alert_def chamber_alert_def split: if_splits)
qed simp

lemma hand_over_trips:
  "hand_over r w = (as, w') \<Longrightarrow> as = fst r \<and> ws_edges (wr_session w') = snd r \<and> wr_polls w' = wr_polls w"
  by (auto simp: hand_over_def emit_all_def)

text \<open>One event: what it hands over and where it leaves the trigger of a chassis.\<close>

definition probes_distinct :: "'p wd_event \<Rightarrow> bool" where
  "probes_distinct e = (case e of ChassisPass results \<Rightarrow> distinct (map fst results) | _ \<Rightarrow> True)"

lemma wd_exec_trips:
  fixes cid :: int
  assumes "wd_exec matches loads fl py_str mt e w = Inr (as, w')" "probes_distinct e"
  defines "l \<equiv> armed (KTripped cid) (ws_edges (wr_session w))"
  shows "count_list as (trip_alert cid) = reported l (session_results mt cid (wr_polls w) [e]) \<and>
    armed (KTripped cid) (ws_edges (wr_session w')) = level_after l (session_results mt cid (wr_polls w) [e]) \<and>
    session_results mt cid (wr_polls w) (e # es) = session_results mt cid (wr_polls w) [e] @ session_results mt cid (wr_polls w') es"
proof (cases e)
  case (Received now topic p)
  then show ?thesis using assms(1)
    by (auto simp: l_def dispatch_message_def level_after_def split: if_splits)
next
  case (HeartbeatPass now)
  then show ?thesis using assms(1)
    by (auto simp: l_def hand_over_def emit_all_def heartbeat_check_def edge_update_def armed_def level_after_def critical_def chassis_alert_def Let_def
        split: if_splits)
next
  case (FleetPass ok now rows)
  then show ?thesis using assms(1)
    by (auto simp: l_def hand_over_def emit_all_def fleet_monitor_step_def edge_update_def armed_def level_after_def critical_def chassis_alert_def Let_def
        split: if_splits)
next
  case (ChamberPass now)
  obtain bs s' where r: "chamber_check (mt_chamber_startup_grace_s mt) (ws_started (wr_session w)) (mt_chamber_breach_duration_s mt) now
      (ws_chambers (wr_session w)) (ws_edges (wr_session w)) = (bs, s')" by fastforce
  then have "count_list bs (trip_alert cid) = 0 \<and> armed (KTripped cid) s' = l"
    using chamber_sweep_trips unfolding chamber_check_def l_def by (auto split: if_splits)
  with ChamberPass r assms(1) show ?thesis by (auto simp: Let_def hand_over_def emit_all_def level_after_def)
next
  case (ChassisPass results)
  with assms(1) obtain r where r: "chassis_poll (int (Suc (wr_polls w)) \<le> mt_chassis_startup_grace_polls mt) results (ws_edges (wr_session w)) = Inr r"
    and h: "hand_over r (w\<lparr>wr_polls := Suc (wr_polls w)\<rparr>) = (as, w')" by (auto simp: Let_def)
  obtain bs s' where b: "r = (bs, s')" by (cases r)
  have d: "distinct (map fst results)" using assms(2) ChassisPass by (simp add: probes_distinct_def)
  from chassis_poll_trips [OF r [unfolded b] d, of cid] hand_over_trips [OF h] show ?thesis
    by (auto simp: ChassisPass l_def b level_after_def split: option.splits)
qed

lemma wd_events_trips:
  assumes "wd_events matches loads fl py_str mt es w = Inr (as, w')" "list_all probes_distinct es"
  shows "count_list as (trip_alert cid) =
      reported (armed (KTripped cid) (ws_edges (wr_session w))) (session_results mt cid (wr_polls w) es) \<and>
    armed (KTripped cid) (ws_edges (wr_session w')) =
      level_after (armed (KTripped cid) (ws_edges (wr_session w))) (session_results mt cid (wr_polls w) es)"
  using assms
proof (induction es arbitrary: w as)
  case (Cons e es)
  then obtain bs w1 cs where 1: "wd_exec matches loads fl py_str mt e w = Inr (bs, w1)"
    and 2: "wd_events matches loads fl py_str mt es w1 = Inr (cs, w')" and as: "as = bs @ cs" by auto
  have d: "probes_distinct e" "list_all probes_distinct es" using Cons.prems(2) by simp_all
  note e = wd_exec_trips [OF 1 d(1), of cid es] and IH = Cons.IH [OF 2 d(2)]
  show ?case unfolding as e [THEN conjunct2, THEN conjunct2] reported_append level_after_append
    using e IH by simp
qed (simp add: level_after_def)

lemma reconnect_trips [simp]: "armed (KTripped cid) (ws_edges (wr_session (reconnect now w))) = armed (KTripped cid) (ws_edges (wr_session w))"
  "wr_polls (reconnect now w) = 0"
  by (simp_all add: reconnect_def session_start_def edge_reset_def armed_def)

lemma watchdog_run_trips:
  assumes "watchdog_run matches loads fl py_str mt ss w = Inr (as, w')" "list_all (\<lambda>(_, es). list_all probes_distinct es) ss"
  shows "count_list as (trip_alert cid) = reported (armed (KTripped cid) (ws_edges (wr_session w))) (run_results mt cid ss)"
  using assms
proof (induction ss arbitrary: w as)
  case (Cons sess ss)
  obtain now es where s: "sess = (now, es)" by (cases sess)
  with Cons.prems(1) obtain bs w1 cs where 1: "wd_events matches loads fl py_str mt es (reconnect now w) = Inr (bs, w1)"
    and 2: "watchdog_run matches loads fl py_str mt ss w1 = Inr (cs, w')" and as: "as = bs @ cs" by auto
  have d: "list_all probes_distinct es" "list_all (\<lambda>(_, es). list_all probes_distinct es) ss" using Cons.prems(2) s by simp_all
  from wd_events_trips [OF 1 d(1), of cid] Cons.IH [OF 2 d(2)] show ?case
    by (simp add: s as run_results_def reported_append)
qed (simp add: run_results_def)

lemma length_probes: "length (make_probes hosts) = length hosts"
  by (simp add: make_probes_def)

lemma make_probes_nth:
  "i < length hosts \<Longrightarrow> make_probes hosts ! i = \<lparr>cp_host = fst (hosts ! i), cp_port = snd (hosts ! i), cp_chassis_id = int i + 1\<rparr>"
  by (simp add: make_probes_def nth_enumerate_eq split_beta)

lemma probe_ids: "map cp_chassis_id (make_probes hosts) = map (\<lambda>i. int i + 1) [0..<length hosts]"
  by (rule nth_equalityI) (simp_all add: make_probes_nth length_probes)

text \<open>Taking a host out of the list renumbers all hosts after it.\<close>

lemma probe_id_shift:
  "cp_chassis_id (make_probes (xs @ x # y # ys) ! Suc (length xs)) = int (length xs) + 2"
  "make_probes (xs @ y # ys) ! length xs = (make_probes (xs @ x # y # ys) ! Suc (length xs))\<lparr>cp_chassis_id := int (length xs) + 1\<rparr>"
  by (simp_all add: make_probes_nth nth_append)

text \<open>A poll goes through the probes of the bench.\<close>

definition polls_bench :: "(string \<times> int) list \<Rightarrow> 'p wd_event \<Rightarrow> bool" where
  "polls_bench hosts e = (case e of ChassisPass results \<Rightarrow> map fst results = map cp_chassis_id (make_probes hosts) | _ \<Rightarrow> True)"

lemma polls_bench_distinct: "polls_bench hosts e \<Longrightarrow> probes_distinct e"
  by (cases e) (simp_all add: polls_bench_def probes_distinct_def probe_ids distinct_map inj_on_def)

definition watchdog_new :: "bool list \<Rightarrow> bool list \<Rightarrow> watchdog" where
  "watchdog_new db_answers mqtt_answers =
     \<lparr>wr_session = session_start 0 Map.empty \<lparr>sk_retry = [], sk_db = [], sk_published = [], sk_db_answers = db_answers, sk_mqtt_answers = mqtt_answers\<rparr>,
      wr_polls = 0\<rparr>"

text \<open>
  C30. Trips across sessions. Through any number of broker sessions, with any messages and monitor passes
  in between, the watchdog raises an alert for a tripped chassis exactly at the polls where the chassis is
  tripped, was not at the poll before (possibly in the session before), and the poll is no grace
  poll of its session. So a trip first seen at a grace poll, at the start or right after any reconnect, is
  never reported as long as it lasts.
\<close>

theorem trips_across_sessions:
  assumes "watchdog_run matches loads fl py_str mt ss (watchdog_new db_answers mqtt_answers) = Inr (as, w')"
    and "list_all (\<lambda>(_, es). list_all (polls_bench hosts) es) ss"
  shows "count_list as (trip_alert cid) = reported False (run_results mt cid ss) \<and>
    (\<forall>xs r zs. run_results mt cid ss = xs @ (True, r) # zs \<and> tripped r \<and> (\<forall>(g, r') \<in> set zs. tripped r') \<longrightarrow>
      count_list as (trip_alert cid) = reported False xs)"
proof -
  have "list_all (\<lambda>(_, es). list_all probes_distinct es) ss"
    using assms(2) polls_bench_distinct by (fastforce simp: list_all_iff)
  moreover have "armed (KTripped cid) (ws_edges (wr_session (watchdog_new db_answers mqtt_answers))) = False"
    by (simp add: watchdog_new_def session_start_def edge_reset_def armed_def)
  ultimately have c: "count_list as (trip_alert cid) = reported False (run_results mt cid ss)"
    using watchdog_run_trips [OF assms(1)] by simp
  have high: "reported True zs = 0" if "\<forall>(g, r') \<in> set zs. tripped r'" for zs
    using that by (induction zs) auto
  have "reported False (xs @ (True, r) # zs) = reported False xs" if "tripped r" "\<forall>(g, r') \<in> set zs. tripped r'" for xs r zs
    using high [OF that(2)] that(1) by (simp add: reported_append)
  with c show ?thesis by simp
qed

lemma trips_across_sessions_witness:
  "\<exists>as w'. watchdog_run (\<lambda>_ _. False) (\<lambda>_ :: unit. Inl ValueErr) (\<lambda>_. Inl ValueErr) (\<lambda>_. [])
      \<lparr>mt_heartbeat_threshold_s = 10, mt_heartbeat_poll_s = 2, mt_chamber_breach_band_c = 5, mt_chamber_breach_duration_s = 300,
        mt_chamber_startup_grace_s = 60, mt_chamber_check_period_s = 5, mt_chassis_poll_sim_s = 5, mt_chassis_startup_grace_polls = 1,
        mt_fleet_threshold = 8, mt_fleet_window_s = 30, mt_fleet_poll_s = 10\<rparr>
      [(0, [ChassisPass [(1, Inr 0)], HeartbeatPass 1, ChassisPass [(1, Inr 0)]]), (9, [ChassisPass [(1, Inr 1)], ChassisPass [(1, Inr 1)]])]
      (watchdog_new [] []) = Inr (as, w') \<and> count_list as (trip_alert 1) = 0"
proof -
  let ?mt = "\<lparr>mt_heartbeat_threshold_s = 10, mt_heartbeat_poll_s = 2, mt_chamber_breach_band_c = 5, mt_chamber_breach_duration_s = 300,
        mt_chamber_startup_grace_s = 60, mt_chamber_check_period_s = 5, mt_chassis_poll_sim_s = 5, mt_chassis_startup_grace_polls = 1,
        mt_fleet_threshold = 8, mt_fleet_window_s = 30, mt_fleet_poll_s = 10\<rparr>"
  let ?ss = "[(0, [ChassisPass [(1, Inr 0)], HeartbeatPass 1, ChassisPass [(1, Inr 0)]]), (9, [ChassisPass [(1, Inr 1)], ChassisPass [(1, Inr 1)]])] ::
    (real \<times> unit wd_event list) list"
  have b: "list_all (\<lambda>(_, es). list_all (polls_bench [(''cycler_01'', 502)]) es) ?ss"
    by (simp add: polls_bench_def probe_ids)
  obtain as w' where r: "watchdog_run (\<lambda>_ _. False) (\<lambda>_ :: unit. Inl ValueErr) (\<lambda>_. Inl ValueErr) (\<lambda>_. []) ?mt ?ss (watchdog_new [] []) = Inr (as, w')"
    by (simp add: chassis_probe_def edge_update_def edge_reset_def armed_def Let_def hand_over_def emit_all_def heartbeat_check_def reconnect_def
        session_start_def watchdog_new_def)
  have "run_results ?mt 1 ?ss = [(True, Inr 0), (False, Inr 0)] @ (True, Inr 1) # [(False, Inr 1)]"
    by (simp add: run_results_def)
  with trips_across_sessions [OF r b, of 1] have "count_list as (trip_alert 1) = reported False [(True, Inr 0), (False, Inr 0)]" by simp
  with r show ?thesis by (intro exI conjI) simp_all
qed

end
