(* ===== verification/Services.thy ===== *)
theory Services
  imports Watchdog_Process Chamber Pipeline Export_Safety Schedule
begin

section \<open>The other processes and the schedule tools\<close>

text \<open>
  How the remaining services start (\<open>_run\<close> of the orchestrator, chamber, analytics, ingester and
  exporter), the exporter's two modes, and the two schedule tools of \<open>scripts/\<close> with
  \<open>load_schedule\<close>. Files, YAML, git and the S3 client are parameters.
\<close>

subsection \<open>The orchestrator\<close>

record orchestrator_settings =
  os_pg :: db_settings
  os_hosts :: "(string \<times> int) list"
  os_broker :: "string \<times> int"

definition read_orchestrator :: "environ \<Rightarrow> exn + orchestrator_settings" where
  "read_orchestrator env =
     bind_sum (read_pg env) (\<lambda>pg.
     bind_sum (parse_cycler_hosts (env_str env ''CYCLER_HOSTS'' ''cycler_01:502'')) (\<lambda>hosts.
     bind_sum (read_broker env) (\<lambda>broker.
       Inr \<lparr>os_pg = pg, os_hosts = hosts, os_broker = broker\<rparr>)))"

text \<open>
  \<open>CyclerClient.connect\<close> for every host, in order; \<open>connects\<close> is the Modbus library's answer. A
  \<open>ConnectionError\<close> is an \<open>OSError\<close>.
\<close>

definition connect_client :: "(string \<times> int \<Rightarrow> bool) \<Rightarrow> string \<times> int \<Rightarrow> exn + string \<times> int" where
  "connect_client connects h = (if connects h then Inr h else Inl OSErr)"

definition connect_all :: "(string \<times> int \<Rightarrow> bool) \<Rightarrow> (string \<times> int) list \<Rightarrow> exn + (string \<times> int) list" where
  "connect_all connects hosts = collect (connect_client connects) hosts"

definition clients_by_id :: "(string \<times> int) list \<Rightarrow> (int \<times> string \<times> int) list" where
  "clients_by_id clients = map (\<lambda>(i, c). (int i + 1, c)) (enumerate 0 clients)"

definition orchestrator_start :: "(string \<times> int \<Rightarrow> bool) \<Rightarrow> environ \<Rightarrow> exn + orchestrator_settings \<times> (int \<times> string \<times> int) list" where
  "orchestrator_start connects env =
     bind_sum (read_orchestrator env) (\<lambda>st.
     bind_sum (connect_all connects (os_hosts st)) (\<lambda>clients. Inr (st, clients_by_id clients)))"

subsection \<open>Chamber, analytics and ingester\<close>

record chamber_settings =
  ch_id :: string
  ch_setpoint :: real
  ch_initial_c :: real
  ch_tau_s :: real
  ch_publish_hz :: real
  ch_modbus :: int
  ch_broker :: "string \<times> int"

definition read_chamber :: "(string \<Rightarrow> exn + real) \<Rightarrow> environ \<Rightarrow> exn + chamber_settings" where
  "read_chamber fl env =
     bind_sum (env_float fl env ''CHAMBER_SETPOINT_C'' 25) (\<lambda>setpoint_c.
     bind_sum (env_float fl env ''CHAMBER_INITIAL_C'' setpoint_c) (\<lambda>initial_c.
     bind_sum (env_float fl env ''CHAMBER_TAU_S'' 600) (\<lambda>tau_s.
     bind_sum (env_float fl env ''CHAMBER_PUBLISH_HZ'' 1) (\<lambda>publish_hz.
     bind_sum (env_int env ''MODBUS_PORT'' 502) (\<lambda>modbus_port.
     bind_sum (read_broker env) (\<lambda>broker.
       Inr \<lparr>ch_id = env_str env ''CHAMBER_ID'' ''A'', ch_setpoint = setpoint_c, ch_initial_c = initial_c, ch_tau_s = tau_s,
         ch_publish_hz = publish_hz, ch_modbus = modbus_port, ch_broker = broker\<rparr>))))))"

definition chamber_start :: "'s sparse_ops \<Rightarrow> (string \<Rightarrow> exn + real) \<Rightarrow> real \<Rightarrow> environ \<Rightarrow> exn + chamber_settings \<times> 's chamber_block" where
  "chamber_start R fl now env =
     bind_sum (read_chamber fl env) (\<lambda>st.
       Inr (st, chamber_block_init R now
         \<lparr>th_measured_c = ch_initial_c st, th_setpoint_c = ch_setpoint st, th_tau_s = ch_tau_s st\<rparr>))"

record analytics_settings =
  as_pg :: db_settings
  as_tsdb :: db_settings
  as_broker :: "string \<times> int"
  as_settings :: settings

definition read_analytics :: "(string \<Rightarrow> exn + real) \<Rightarrow> environ \<Rightarrow> exn + analytics_settings" where
  "read_analytics fl env =
     bind_sum (read_pg env) (\<lambda>pg.
     bind_sum (read_tsdb env) (\<lambda>tsdb.
     bind_sum (read_broker env) (\<lambda>broker.
     bind_sum (env_int env ''ANALYTICS_DQDV_BIN_MV'' 10) (\<lambda>bin_mv.
     bind_sum (env_float fl env ''ANALYTICS_DQDV_PEAK_HEIGHT'' (1 / 10)) (\<lambda>peak_height.
     bind_sum (env_float fl env ''ANALYTICS_R0_JUMP_THRESHOLD_PCT'' 20) (\<lambda>threshold.
       Inr \<lparr>as_pg = pg, as_tsdb = tsdb, as_broker = broker,
         as_settings = \<lparr>set_bin_mv = bin_mv, set_peak_height = peak_height, set_r0_jump_threshold_pct = threshold\<rparr>\<rparr>))))))"

definition read_ingester :: "environ \<Rightarrow> exn + (string \<times> int) \<times> db_settings" where
  "read_ingester env = bind_sum (read_broker env) (\<lambda>broker. bind_sum (read_tsdb env) (\<lambda>tsdb. Inr (broker, tsdb)))"

subsection \<open>The exporter\<close>

record exporter_settings =
  xs_tsdb :: db_settings
  xs_minio_endpoint :: string
  xs_minio_access :: string
  xs_minio_secret :: string
  xs_bucket :: string
  xs_age_hours :: int
  xs_period_s :: real

definition read_exporter :: "(string \<Rightarrow> exn + real) \<Rightarrow> environ \<Rightarrow> exn + exporter_settings" where
  "read_exporter fl env =
     bind_sum (read_tsdb env) (\<lambda>tsdb.
     bind_sum (env_int env ''PARQUET_EXPORT_AGE_HOURS'' 24) (\<lambda>age_hours.
     bind_sum (env_float fl env ''PARQUET_EXPORT_PERIOD_S'' 3600) (\<lambda>period_s.
       Inr \<lparr>xs_tsdb = tsdb, xs_minio_endpoint = env_str env ''MINIO_ENDPOINT'' ''minio:9000'',
         xs_minio_access = env_str env ''MINIO_ACCESS_KEY'' ''admin'', xs_minio_secret = env_str env ''MINIO_SECRET_KEY'' ''admin12345'',
         xs_bucket = env_str env ''PARQUET_BUCKET'' ''lab-archive'', xs_age_hours = age_hours, xs_period_s = period_s\<rparr>)))"

record s3_filesystem =
  fs_endpoint_override :: string
  fs_access_key :: string
  fs_secret_key :: string
  fs_scheme :: string
  fs_region :: string
  fs_background_writes :: bool
  fs_allow_bucket_creation :: bool

definition make_s3_filesystem :: "string \<Rightarrow> string \<Rightarrow> string \<Rightarrow> s3_filesystem" where
  "make_s3_filesystem endpoint access secret =
     \<lparr>fs_endpoint_override = endpoint, fs_access_key = access, fs_secret_key = secret, fs_scheme = ''http'', fs_region = ''us-east-1'',
      fs_background_writes = True, fs_allow_bucket_creation = True\<rparr>"

text \<open>\<open>create_dir\<close> is the client's answer to creating the bucket.\<close>

definition bootstrap_s3 :: "(s3_filesystem \<Rightarrow> string \<Rightarrow> exn + unit) \<Rightarrow> exporter_settings \<Rightarrow> exn + s3_filesystem" where
  "bootstrap_s3 create_dir cfg =
     (let s3 = make_s3_filesystem (xs_minio_endpoint cfg) (xs_minio_access cfg) (xs_minio_secret cfg)
      in case create_dir s3 (xs_bucket cfg) of Inl e \<Rightarrow> if e = OSErr then Inr s3 else Inl e | Inr _ \<Rightarrow> Inr s3)"

text \<open>
  The loop over the times of its passes, for a non-negative age: a \<open>PostgresError\<close> is logged, another
  exception ends the process; either way the upload handle of the pass is gone. \<open>--now\<close> is one pass
  of age 0.
\<close>

definition exporter_pass :: "(batches \<Rightarrow> nat) \<Rightarrow> exporter_settings \<Rightarrow> int \<Rightarrow> (export_world, unit) act" where
  "exporter_pass obj_size cfg now =
     seq_act (catch_act (seq_act (run_once obj_size (xs_bucket cfg) now (nat (xs_age_hours cfg))) (ret ())) (\<lambda>e. e = PostgresErr) (\<lambda>_. ret ()))
       (mod_act (\<lambda>w. w\<lparr>xw_upload := None\<rparr>))"

definition exporter_loop :: "(batches \<Rightarrow> nat) \<Rightarrow> exporter_settings \<Rightarrow> int list \<Rightarrow> (export_world, unit) act" where
  "exporter_loop obj_size cfg nows = for_act (exporter_pass obj_size cfg) nows"

definition run_now :: "(batches \<Rightarrow> nat) \<Rightarrow> exporter_settings \<Rightarrow> int \<Rightarrow> (export_world, summary) act" where
  "run_now obj_size cfg now = run_once obj_size (xs_bucket cfg) now 0"

subsection \<open>Schedule files\<close>

text \<open>
  \<open>read\<close> is the file, \<open>yaml\<close> the YAML parser (\<open>None\<close> for a \<open>YAMLError\<close>), \<open>validate\<close> the schema; only an
  \<open>OSError\<close> of the read becomes a \<open>ScheduleError\<close>, any error of the validation does. \<open>git\<close> is the outcome of the
  \<open>git rev-parse\<close> process, where \<open>OSErr\<close> stands also for its timeout.
\<close>

definition load_schedule ::
  "('f \<Rightarrow> exn + 't) \<Rightarrow> ('t \<Rightarrow> 'y option) \<Rightarrow> ('y \<Rightarrow> exn + schedule) \<Rightarrow> ('f \<Rightarrow> exn + int \<times> string) \<Rightarrow> 'f \<Rightarrow> exn + schedule \<times> string" where
  "load_schedule read yaml validate git p =
     (case read p of
        Inl e \<Rightarrow> Inl (if e = OSErr then ScheduleErr else e)
      | Inr body \<Rightarrow>
          (case yaml body of
             None \<Rightarrow> Inl ScheduleErr
           | Some data \<Rightarrow>
               (case validate data of
                  Inl e \<Rightarrow> Inl ScheduleErr
                | Inr s \<Rightarrow>
                    (case git p of
                       Inl e \<Rightarrow> if e = OSErr then Inr (s, ''uncommitted'') else Inl e
                     | Inr (returncode, stdout) \<Rightarrow>
                         Inr (s, if returncode = 0 \<and> strip stdout \<noteq> [] then strip stdout else ''uncommitted'')))))"

text \<open>\<open>validate_schedules.py\<close>: the exit code, over the results of loading each file.\<close>

fun failures :: "(exn + 'a) list \<Rightarrow> exn + nat" where
  "failures [] = Inr 0"
| "failures (r # rs) =
     (case r of
        Inl e \<Rightarrow> if e = ScheduleErr then bind_sum (failures rs) (\<lambda>n. Inr (Suc n)) else Inl e
      | Inr _ \<Rightarrow> failures rs)"

definition validate_schedules :: "('f \<Rightarrow> exn + schedule \<times> string) \<Rightarrow> 'f list \<Rightarrow> exn + int" where
  "validate_schedules loader yamls =
     (if yamls = [] then Inr 1
      else bind_sum (failures (map loader yamls)) (\<lambda>n. Inr (if n \<noteq> 0 then 1 else 0)))"

text \<open>\<open>schedule_bench.py\<close>: exit code and standard output.\<close>

definition bench_lines :: "schedule \<Rightarrow> string list" where
  "bench_lines s =
     [''CHASSIS_LIST='' @ CHR 0x22 # join_with CHR '' '' (map show_int (sch_chassis s)) @ [CHR 0x22],
      ''CHANNELS='' @ show_int (sch_channels_per_chassis s)]"

definition schedule_bench :: "(string \<Rightarrow> exn + schedule \<times> string) \<Rightarrow> string list \<Rightarrow> exn + int \<times> string list" where
  "schedule_bench loader argv =
     (case argv of
        [_, path] \<Rightarrow>
          (case loader path of
             Inl e \<Rightarrow> if e = ScheduleErr then Inr (1, []) else Inl e
           | Inr (s, _) \<Rightarrow> Inr (0, bench_lines s))
      | _ \<Rightarrow> Inr (2, []))"

lemma failures_none: "failures rs = Inr 0 \<longleftrightarrow> (\<forall>r \<in> set rs. \<exists>x. r = Inr x)"
  by (induction rs) (auto split: sum.split)

text \<open>The gate passes exactly when there are schedules and all of them load.\<close>

lemma validate_schedules_passes: "validate_schedules loader yamls = Inr 0 \<longleftrightarrow> yamls \<noteq> [] \<and> (\<forall>p \<in> set yamls. \<exists>x. loader p = Inr x)"
  using failures_none [of "map loader yamls"] by (auto simp: validate_schedules_def)

text \<open>What the shell reads back: the words between the quotes are the chassis ids.\<close>

lemma bench_lines_read:
  assumes "sch_chassis s \<noteq> []"
  shows "\<exists>ws. bench_lines s ! 0 = ''CHASSIS_LIST='' @ CHR 0x22 # ws @ [CHR 0x22] \<and>
    map parse_int (split_on CHR '' '' ws) = map Inr (sch_chassis s) \<and>
    bench_lines s ! 1 = ''CHANNELS='' @ show_int (sch_channels_per_chassis s)"
proof -
  have "CHR '' '' \<notin> set (show_int i)" for i
    using show_int_chars [of "CHR '' ''" i] by (auto simp: is_digit_def)
  then have "split_on CHR '' '' (join_with CHR '' '' (map show_int (sch_chassis s))) = map show_int (sch_chassis s)"
    using assms by (intro split_on_join) auto
  then show ?thesis
    by (intro exI [of _ "join_with CHR '' '' (map show_int (sch_chassis s))"]) (simp add: bench_lines_def parse_int_show_int)
qed

text \<open>A loop of the exporter is a run of passes of theory Parquet_Export, cut at the pass that ends the process.\<close>

lemma run_once_upload: "snd (exporter_pass obj_size cfg now w) \<lparr>xw_upload := None\<rparr> =
    export_step obj_size (xs_bucket cfg) (ExportPass now (nat (xs_age_hours cfg))) w"
  by (cases "run_once obj_size (xs_bucket cfg) now (nat (xs_age_hours cfg)) w"; cases "fst (run_once obj_size (xs_bucket cfg) now (nat (xs_age_hours cfg)) w)")
    (auto simp: exporter_pass_def seq_act_def catch_act_def ret_def mod_act_def split: sum.split)

lemma exporter_pass_ends: "exporter_pass obj_size cfg now w = (Inr (), w') \<Longrightarrow>
    w' = export_step obj_size (xs_bucket cfg) (ExportPass now (nat (xs_age_hours cfg))) w"
  using run_once_upload [of obj_size cfg now w]
  by (cases "catch_act (seq_act (run_once obj_size (xs_bucket cfg) now (nat (xs_age_hours cfg))) (ret ())) (\<lambda>e. e = PostgresErr) (\<lambda>_. ret ()) w")
    (auto simp: exporter_pass_def seq_act_def mod_act_def split: sum.splits)

lemma exporter_loop_run:
  "\<exists>k \<le> length nows. snd (exporter_loop obj_size cfg nows w) \<lparr>xw_upload := None\<rparr> =
    (export_run obj_size (xs_bucket cfg) (map (\<lambda>now. ExportPass now (nat (xs_age_hours cfg))) (take k nows)) w) \<lparr>xw_upload := None\<rparr>"
proof (induction nows arbitrary: w)
  case Nil
  then show ?case by (simp add: exporter_loop_def ret_def)
next
  case (Cons now nows)
  obtain r w1 where p: "exporter_pass obj_size cfg now w = (r, w1)" by (cases "exporter_pass obj_size cfg now w")
  show ?case
  proof (cases r)
    case (Inl e)
    with p run_once_upload [of obj_size cfg now w] show ?thesis
      by (intro exI [of _ 1]) (simp add: exporter_loop_def seq_act_def)
  next
    case (Inr u)
    with p have w1: "w1 = export_step obj_size (xs_bucket cfg) (ExportPass now (nat (xs_age_hours cfg))) w"
      by (intro exporter_pass_ends) simp
    from Cons.IH [of w1] obtain k where "k \<le> length nows" "snd (exporter_loop obj_size cfg nows w1) \<lparr>xw_upload := None\<rparr> =
      (export_run obj_size (xs_bucket cfg) (map (\<lambda>now. ExportPass now (nat (xs_age_hours cfg))) (take k nows)) w1) \<lparr>xw_upload := None\<rparr>" by blast
    then show ?thesis using p Inr w1
      by (intro exI [of _ "Suc k"]) (simp add: exporter_loop_def seq_act_def)
  qed
qed

subsection \<open>The bench as the two masters see it\<close>

lemma connect_all_ok: "(\<forall>h \<in> set hosts. connects h) \<Longrightarrow> connect_all connects hosts = Inr hosts"
  unfolding connect_all_def by (induction hosts) (simp_all add: connect_client_def)

lemma connect_all_down: "h \<in> set hosts \<Longrightarrow> \<not> connects h \<Longrightarrow> connect_all connects hosts = Inl OSErr"
  unfolding connect_all_def
proof (induction hosts)
  case (Cons g hosts)
  then show ?case by (cases "connects g") (auto simp: connect_client_def)
qed simp

text \<open>
  One bench, two masters. Reading the same environment, the orchestrator's clients and the watchdog's
  probes are the same hosts under the same chassis ids, 1 to n in the order of the list. The
  orchestrator starts exactly when every host accepts its connection: one dead chassis stops the
  start with an \<open>OSError\<close>, before any chassis is kicked or any experiment resumed.
\<close>

theorem bench_start:
  assumes "read_orchestrator env = Inr st" "read_watchdog fl env = Inr wt"
  shows "map (\<lambda>(i, h, p). \<lparr>cp_host = h, cp_port = p, cp_chassis_id = i\<rparr>) (clients_by_id (os_hosts st)) = wt_probes wt \<and>
    map fst (clients_by_id (os_hosts st)) = map int [1..<Suc (length (os_hosts st))] \<and>
    ((\<forall>h \<in> set (os_hosts st). connects h) \<longrightarrow> orchestrator_start connects env = Inr (st, clients_by_id (os_hosts st))) \<and>
    (\<forall>h \<in> set (os_hosts st). \<not> connects h \<longrightarrow> orchestrator_start connects env = Inl OSErr)"
proof -
  have "wt_probes wt = make_probes (os_hosts st)"
    using assms by (auto simp: read_orchestrator_def read_watchdog_def parse_probe_hosts_def parse_cycler_hosts_def)
  moreover have "map (\<lambda>(i, h, p). \<lparr>cp_host = h, cp_port = p, cp_chassis_id = i\<rparr>) (clients_by_id (os_hosts st)) = make_probes (os_hosts st)"
    by (simp add: clients_by_id_def make_probes_def split_beta)
  moreover have "map fst (clients_by_id (os_hosts st)) = map int [1..<Suc (length (os_hosts st))]"
    by (rule nth_equalityI) (simp_all add: clients_by_id_def nth_enumerate_eq split_beta del: upt_Suc)
  ultimately show ?thesis
    using assms(1) connect_all_ok connect_all_down [where connects = connects and hosts = "os_hosts st"]
    by (auto simp: orchestrator_start_def)
qed

lemma bench_start_witness:
  "\<exists>st. read_orchestrator [(''CYCLER_HOSTS'', ''cycler_01,cycler_02,'')] = Inr st \<and> os_hosts st = [(''cycler_01'', 502), (''cycler_02'', 502)] \<and>
    orchestrator_start (\<lambda>h. fst h \<noteq> ''cycler_02'') [(''CYCLER_HOSTS'', ''cycler_01,cycler_02,'')] = Inl OSErr"
proof -
  let ?env = "[(''CYCLER_HOSTS'', ''cycler_01,cycler_02,'')]" and ?fl = "\<lambda>_ :: string. Inl ValueErr :: exn + real"
  have hosts: "parse_cycler_hosts ''cycler_01,cycler_02,'' = Inr [(''cycler_01'', 502), (''cycler_02'', 502)]"
    by (simp add: parse_cycler_hosts_def strip_def is_space_def)
  have probes: "parse_probe_hosts ''cycler_01,cycler_02,'' = Inr [(''cycler_01'', 502), (''cycler_02'', 502)]"
    using hosts unfolding parse_cycler_hosts_def parse_probe_hosts_def .
  obtain st where st: "read_orchestrator ?env = Inr st" "os_hosts st = [(''cycler_01'', 502), (''cycler_02'', 502)]"
    by (simp add: read_orchestrator_def read_pg_def read_db_def read_broker_def env_int_def env_str_def hosts)
  obtain wt where wt: "read_watchdog ?fl ?env = Inr wt"
    by (simp add: read_watchdog_def read_tunables_def read_pg_def read_db_def read_broker_def env_int_def env_float_def env_str_def probes)
  have "(''cycler_02'', 502) \<in> set (os_hosts st)" by (simp add: st)
  from bspec [OF conjunct2 [OF conjunct2 [OF conjunct2 [OF bench_start [OF st(1) wt, of "\<lambda>h. fst h \<noteq> ''cycler_02''"]]]] this]
  have "orchestrator_start (\<lambda>h. fst h \<noteq> ''cycler_02'') ?env = Inl OSErr" by simp
  with st show ?thesis by (intro exI [of _ st]) simp
qed

end
