(* ===== verification/Cycler_Process.thy ===== *)
theory Cycler_Process
  imports Config Cycler_Props Chamber Watchdog Telemetry "HOL-Library.Sublist"
begin

section \<open>The cycler process and its ambient temperature\<close>

text \<open>
  \<open>cycler/main.py\<close> from the environment to the running loops, with the MQTT subscription of
  \<open>cycler/ambient.py\<close>, and the publisher of \<open>chamber/main.py\<close> that feeds it. All tasks of the cycler
  live in one task group, so an exception that leaves the subscriber ends every loop of the
  chassis.
\<close>

subsection \<open>Settings and start\<close>

record cycler_settings =
  cs_channels :: int
  cs_chassis_id :: int
  cs_modbus_port :: int
  cs_mqtt_host :: string
  cs_mqtt_port :: int
  cs_telemetry_hz :: int
  cs_chamber_id :: "string option"
  cs_chemistry :: string
  cs_default_ambient_c :: real
  cs_channel_watchdog_s :: real
  cs_chassis_watchdog_s :: real

definition read_cycler :: "(string \<Rightarrow> exn + real) \<Rightarrow> environ \<Rightarrow> exn + cycler_settings" where
  "read_cycler fl env =
     bind_sum (env_int env ''CHANNELS_PER_CYCLER'' 32) (\<lambda>n.
     bind_sum (env_int env ''CHASSIS_ID'' 1) (\<lambda>chassis_id.
     bind_sum (env_int env ''MODBUS_PORT'' 502) (\<lambda>modbus_port.
     bind_sum (env_int env ''MQTT_PORT'' 1883) (\<lambda>mqtt_port.
     bind_sum (env_int env ''TELEMETRY_HZ'' 10) (\<lambda>telemetry_hz.
     bind_sum (env_float fl env ''DEFAULT_AMBIENT_C'' 25) (\<lambda>default_ambient_c.
     bind_sum (env_float fl env ''CYCLER_CHANNEL_WATCHDOG_THRESHOLD_S'' 5) (\<lambda>channel_watchdog_s.
     bind_sum (env_float fl env ''CYCLER_CHASSIS_WATCHDOG_THRESHOLD_S'' 5) (\<lambda>chassis_watchdog_s.
       Inr \<lparr>cs_channels = n, cs_chassis_id = chassis_id, cs_modbus_port = modbus_port,
         cs_mqtt_host = env_str env ''MQTT_HOST'' ''mosquitto'', cs_mqtt_port = mqtt_port, cs_telemetry_hz = telemetry_hz,
         cs_chamber_id = map_of env ''CHAMBER_ID'', cs_chemistry = env_str env ''CHEMISTRY'' ''NMC'',
         cs_default_ambient_c = default_ambient_c, cs_channel_watchdog_s = channel_watchdog_s,
         cs_chassis_watchdog_s = chassis_watchdog_s\<rparr>))))))))"

text \<open>The loops' parameters; \<open>1.0 / telemetry_hz\<close> is for a positive rate.\<close>

definition cycler_cfg :: "cycler_settings \<Rightarrow> chassis_cfg" where
  "cycler_cfg cs =
     \<lparr>cfg_dt_sim = 1 / real_of_int (cs_telemetry_hz cs), cfg_channel_threshold_s = cs_channel_watchdog_s cs,
      cfg_chassis_threshold_s = cs_chassis_watchdog_s cs\<rparr>"

definition cycler_start ::
  "'s sparse_ops \<Rightarrow> (string \<Rightarrow> exn + real) \<Rightarrow> real \<Rightarrow> environ \<Rightarrow> exn + cycler_settings \<times> 's chassis_sys" where
  "cycler_start R fl now env =
     bind_sum (read_cycler fl env) (\<lambda>cs.
     bind_sum (chassis_boot R now (nat (cs_channels cs)) (cs_chemistry cs) (cs_chassis_id cs) (cs_default_ambient_c cs)) (\<lambda>sys.
       Inr (cs, sys)))"

subsection \<open>The ambient subscription\<close>

definition parse_ambient :: "('p \<Rightarrow> exn + json) \<Rightarrow> (string \<Rightarrow> exn + real) \<Rightarrow> 'p payload \<Rightarrow> exn + real" where
  "parse_ambient loads fl payload = bind_sum (load loads payload) (\<lambda>msg. bind_sum (index msg ''measured_c'') (to_float fl))"

definition ambient_message ::
  "('p \<Rightarrow> exn + json) \<Rightarrow> (string \<Rightarrow> exn + real) \<Rightarrow> 'p payload \<Rightarrow> ambient_state \<Rightarrow> exn + ambient_state" where
  "ambient_message loads fl payload a =
     (case parse_ambient loads fl payload of
        Inl e \<Rightarrow> if e \<in> {KeyErr, ValueErr, JSONDecodeErr} then Inr a else Inl e
      | Inr c \<Rightarrow> Inr (ambient_update c a))"

datatype 'p cycler_event = LoopEvent chassis_event | AmbientPayload "'p payload"

fun cycler_exec ::
  "np_interp \<Rightarrow> 's sparse_ops \<Rightarrow> chassis_cfg \<Rightarrow> ('p \<Rightarrow> exn + json) \<Rightarrow> (string \<Rightarrow> exn + real) \<Rightarrow>
    'p cycler_event \<Rightarrow> 's chassis_sys \<Rightarrow> exn + 's chassis_sys" where
  "cycler_exec np R cfg loads fl (LoopEvent e) sys = chassis_exec np R cfg e sys"
| "cycler_exec np R cfg loads fl (AmbientPayload p) sys =
     bind_sum (ambient_message loads fl p (sys_ambient sys)) (\<lambda>a. Inr (sys\<lparr>sys_ambient := a\<rparr>))"

fun cycler_run ::
  "np_interp \<Rightarrow> 's sparse_ops \<Rightarrow> chassis_cfg \<Rightarrow> ('p \<Rightarrow> exn + json) \<Rightarrow> (string \<Rightarrow> exn + real) \<Rightarrow>
    'p cycler_event list \<Rightarrow> 's chassis_sys \<Rightarrow> exn + 's chassis_sys" where
  "cycler_run np R cfg loads fl [] sys = Inr sys"
| "cycler_run np R cfg loads fl (e # es) sys = bind_sum (cycler_exec np R cfg loads fl e sys) (cycler_run np R cfg loads fl es)"

subsection \<open>The chamber's publisher\<close>

definition ambient_topic :: "string \<Rightarrow> string" where
  "ambient_topic chamber_id = ''chamber/'' @ chamber_id @ ''/ambient''"

definition ambient_payload :: "real \<Rightarrow> string \<Rightarrow> thermal_model \<Rightarrow> json" where
  "ambient_payload now chamber_id m = JObj
     [(''t'', JNum now), (''chamber_id'', JStr chamber_id), (''measured_c'', JNum (py_round 3 (th_measured_c m))),
      (''setpoint_c'', JNum (py_round 3 (th_setpoint_c m)))]"

text \<open>The loop over the readings of the model; a broker error loses the message and starts a new session.\<close>

definition ambient_publisher :: "string \<Rightarrow> (real \<times> thermal_model) list \<Rightarrow> (publisher, unit) act" where
  "ambient_publisher chamber_id readings =
     for_act (\<lambda>(now, m).
       catch_act (mqtt_publish (ambient_topic chamber_id) (ambient_payload now chamber_id m) False) (\<lambda>e. e = MqttErr) (\<lambda>_. ret ()))
     readings"

text \<open>The topic the cycler subscribes to, if any: an empty chamber id means no chamber.\<close>

definition ambient_subscription :: "cycler_settings \<Rightarrow> string option" where
  "ambient_subscription cs =
     (case cs_chamber_id cs of None \<Rightarrow> None | Some c \<Rightarrow> if c = [] then None else Some (ambient_topic c))"

subsection \<open>The process keeps running\<close>

text \<open>The payloads that end the cycler.\<close>

definition ambient_fatal :: "('p \<Rightarrow> exn + json) \<Rightarrow> (string \<Rightarrow> exn + real) \<Rightarrow> 'p payload \<Rightarrow> exn option" where
  "ambient_fatal loads fl p =
     (case parse_ambient loads fl p of Inl e \<Rightarrow> if e \<in> {KeyErr, ValueErr, JSONDecodeErr} then None else Some e | Inr _ \<Rightarrow> None)"

fun event_fine :: "nat \<Rightarrow> ('p \<Rightarrow> exn + json) \<Rightarrow> (string \<Rightarrow> exn + real) \<Rightarrow> 'p cycler_event \<Rightarrow> bool" where
  "event_fine n loads fl (LoopEvent e) \<longleftrightarrow> event_ok n e"
| "event_fine n loads fl (AmbientPayload p) \<longleftrightarrow> ambient_fatal loads fl p = None"

lemma ambient_message_fatal: "ambient_fatal loads fl p = Some e \<Longrightarrow> ambient_message loads fl p a = Inl e"
  by (auto simp: ambient_fatal_def ambient_message_def split: sum.splits if_splits)

lemma ambient_message_fine: "ambient_fatal loads fl p = None \<Longrightarrow> \<exists>a'. ambient_message loads fl p a = Inr a'"
  by (auto simp: ambient_fatal_def ambient_message_def split: sum.splits if_splits)

lemma cycler_exec_ok:
  assumes "sparse_block R has" "0 \<le> cfg_dt_sim cfg" "sys_ok has sys" "event_fine (length (sys_channels sys)) loads fl e"
  shows "\<exists>sys'. cycler_exec np R cfg loads fl e sys = Inr sys' \<and> sys_ok has sys' \<and> length (sys_channels sys') = length (sys_channels sys)"
proof (cases e)
  case (LoopEvent ev)
  with assms(4) have "list_all (event_ok (length (sys_channels sys))) [ev]" by simp
  from chassis_run_ok [OF assms(1-3) this, of np] obtain sys' where
    r: "chassis_run np R cfg [ev] sys = Inr sys'" "sys_ok has sys'" "length (sys_channels sys') = length (sys_channels sys)" by blast
  then have "chassis_exec np R cfg ev sys = Inr sys'" by (auto simp: bind_sum_eq_Inr)
  with r(2, 3) show ?thesis by (simp add: LoopEvent)
next
  case (AmbientPayload p)
  with assms(4) have "ambient_fatal loads fl p = None" by simp
  from ambient_message_fine [OF this] obtain a where "ambient_message loads fl p (sys_ambient sys) = Inr a" ..
  with assms(3) show ?thesis by (simp add: AmbientPayload sys_ok_def)
qed

lemma cycler_run_ok:
  assumes "sparse_block R has" "0 \<le> cfg_dt_sim cfg" "sys_ok has sys" "list_all (event_fine (length (sys_channels sys)) loads fl) es"
  shows "\<exists>sys'. cycler_run np R cfg loads fl es sys = Inr sys' \<and> sys_ok has sys' \<and> length (sys_channels sys') = length (sys_channels sys)"
  using assms(3, 4)
proof (induction es arbitrary: sys)
  case (Cons e es)
  then obtain sys1 where s: "cycler_exec np R cfg loads fl e sys = Inr sys1" "sys_ok has sys1" "length (sys_channels sys1) = length (sys_channels sys)"
    using cycler_exec_ok [OF assms(1, 2) Cons.prems(1), of loads fl e np] by auto
  with Cons.prems(2) have "list_all (event_fine (length (sys_channels sys1)) loads fl) es" by simp
  from Cons.IH [OF s(2) this] s show ?case by simp
qed simp

lemma cycler_run_append:
  "cycler_run np R cfg loads fl (es @ fs) sys = bind_sum (cycler_run np R cfg loads fl es sys) (cycler_run np R cfg loads fl fs)"
proof (induction es arbitrary: sys)
  case (Cons e es)
  then show ?case by (cases "cycler_exec np R cfg loads fl e sys") simp_all
qed simp

lemma read_cycler_ints:
  assumes "read_cycler fl env = Inr cs" "k \<in> {''CHANNELS_PER_CYCLER'', ''CHASSIS_ID'', ''MODBUS_PORT'', ''MQTT_PORT'', ''TELEMETRY_HZ''}" "map_of env k = Some s"
  shows "\<exists>i. parse_int s = Inr i"
  using assms by (auto simp: read_cycler_def env_int_def)



subsection \<open>From the chamber to the cell\<close>

lemma ambient_publisher_all:
  "pub_answers p = [] \<Longrightarrow> \<exists>p'. ambient_publisher chamber_id readings p = (Inr (), p') \<and> pub_answers p' = [] \<and>
    pub_messages p' = pub_messages p @ map (\<lambda>(now, m). (ambient_topic chamber_id, ambient_payload now chamber_id m)) readings"
proof (induction readings arbitrary: p)
  case (Cons r rs)
  obtain now m where r: "r = (now, m)" by (cases r)
  let ?m = "(ambient_topic chamber_id, ambient_payload now chamber_id m)"
  have "mqtt_publish (fst ?m) (snd ?m) False p = (Inr (), p\<lparr>pub_messages := pub_messages p @ [?m]\<rparr>)"
    using Cons.prems by (simp add: mqtt_publish_def)
  with Cons.IH [of "p\<lparr>pub_messages := pub_messages p @ [?m]\<rparr>"] Cons.prems r show ?case
    by (simp add: ambient_publisher_def run_simps)
qed (simp add: ambient_publisher_def run_simps)

text \<open>Whatever the broker answers, the loop goes on and its messages are those of some of the readings, in order.\<close>

lemma ambient_publisher_any:
  "\<exists>p' rs. ambient_publisher chamber_id readings p = (Inr (), p') \<and> subseq rs readings \<and>
    pub_messages p' = pub_messages p @ map (\<lambda>(now, m). (ambient_topic chamber_id, ambient_payload now chamber_id m)) rs"
proof (induction readings arbitrary: p)
  case Nil
  then show ?case by (intro exI [of _ p] exI [of _ "[]"]) (simp add: ambient_publisher_def run_simps)
next
  case (Cons r rs)
  obtain now m where r: "r = (now, m)" by (cases r)
  let ?m = "(ambient_topic chamber_id, ambient_payload now chamber_id m)"
  let ?step = "catch_act (mqtt_publish (fst ?m) (snd ?m) False) (\<lambda>e. e = MqttErr) (\<lambda>_. ret ())"
  have "\<exists>p1. ?step p = (Inr (), p1) \<and> pub_messages p1 \<in> {pub_messages p, pub_messages p @ [?m]}"
    by (auto simp: catch_act_def mqtt_publish_def ret_def split: list.split answer.split)
  then obtain p1 where p1: "?step p = (Inr (), p1)" "pub_messages p1 \<in> {pub_messages p, pub_messages p @ [?m]}" by blast
  from Cons.IH [of p1] obtain p' qs where q: "ambient_publisher chamber_id rs p1 = (Inr (), p')" "subseq qs rs"
    "pub_messages p' = pub_messages p1 @ map (\<lambda>(now, m). (ambient_topic chamber_id, ambient_payload now chamber_id m)) qs" by blast
  have run: "ambient_publisher chamber_id (r # rs) p = (Inr (), p')"
    using p1(1) q(1) by (simp add: ambient_publisher_def r seq_act_def)
  show ?case
  proof (cases "pub_messages p1 = pub_messages p")
    case True
    with run q show ?thesis by (intro exI [of _ p'] exI [of _ qs]) (simp add: list_emb_Cons)
  next
    case False
    with p1(2) q run r show ?thesis by (intro exI [of _ p'] exI [of _ "r # qs"]) simp
  qed
qed

text \<open>
  C35. The ambient temperature reaches the cells. The chamber publishes each reading of its model on the
  topic that the cycler of that chamber subscribes to, at most once and in order; the payload
  gives the cycler and the watchdog the measured temperature to half a thousandth of a degree, and
  the next pass of a cell loop steps the cell in exactly that ambient.
\<close>

theorem ambient_reaches_cells:
  fixes np :: np_interp and R :: "'s sparse_ops" and loads :: "'p \<Rightarrow> exn + json"
  assumes "loads (dumps (ambient_payload now cid m)) = Inr (ambient_payload now cid m)" and "cs_chamber_id cs = Some cid" "cid \<noteq> []"
    and "py_str (JStr cid) = cid"
  defines "c \<equiv> py_round 3 (th_measured_c m)"
  shows "ambient_subscription cs = Some (ambient_topic cid) \<and>
    (\<exists>p' rs. ambient_publisher cid readings p = (Inr (), p') \<and> subseq rs readings \<and>
      pub_messages p' = pub_messages p @ map (\<lambda>(t, m). (ambient_topic cid, ambient_payload t cid m)) rs) \<and>
    \<bar>c - th_measured_c m\<bar> \<le> 1 / 2000 \<and>
    cycler_run np R cfg loads fl [AmbientPayload (Body (dumps (ambient_payload now cid m))), LoopEvent (CellTick i)] sys =
      bind_sum (cell_tick np (cfg_dt_sim cfg) c (sys_channels sys ! i)) (\<lambda>ch.
        Inr (sys\<lparr>sys_block := upd_channel i (\<lambda>_. ch) (sys_block sys), sys_ambient := ambient_update c (sys_ambient sys)\<rparr>)) \<and>
    (\<exists>sp. \<bar>sp - th_setpoint_c m\<bar> \<le> 1 / 2000 \<and>
      update_from_msg loads fl py_str band t (dumps (ambient_payload now cid m)) cs' = Inr (fold_measurement band t cid c sp cs'))"
proof -
  have idx: "index (ambient_payload now cid m) ''measured_c'' = Inr (JNum c)" "index (ambient_payload now cid m) ''chamber_id'' = Inr (JStr cid)"
    "index (ambient_payload now cid m) ''setpoint_c'' = Inr (JNum (py_round 3 (th_setpoint_c m)))"
    by (simp_all add: ambient_payload_def c_def)
  have "ambient_message loads fl (Body (dumps (ambient_payload now cid m))) a = Inr (ambient_update c a)" for a
    by (simp add: ambient_message_def parse_ambient_def assms(1) idx)
  then have run: "cycler_run np R cfg loads fl [AmbientPayload (Body (dumps (ambient_payload now cid m))), LoopEvent (CellTick i)] sys =
      bind_sum (cell_tick np (cfg_dt_sim cfg) c (sys_channels sys ! i)) (\<lambda>ch.
        Inr (sys\<lparr>sys_block := upd_channel i (\<lambda>_. ch) (sys_block sys), sys_ambient := ambient_update c (sys_ambient sys)\<rparr>))"
    by (cases "cell_tick np (cfg_dt_sim cfg) c (sys_channels sys ! i)")
      (simp_all add: on_channel_def ambient_get_def ambient_update_def)
  have "update_from_msg loads fl py_str band t (dumps (ambient_payload now cid m)) cs' =
      Inr (fold_measurement band t cid c (py_round 3 (th_setpoint_c m)) cs')"
    by (simp add: update_from_msg_def parse_chamber_def assms(1, 4) idx)
  moreover have "\<bar>py_round 3 (th_setpoint_c m) - th_setpoint_c m\<bar> \<le> 1 / 2000" "\<bar>c - th_measured_c m\<bar> \<le> 1 / 2000"
    using py_round_error [of 3 "th_setpoint_c m"] py_round_error [of 3 "th_measured_c m"] by (simp_all add: c_def)
  ultimately show ?thesis
    using run ambient_publisher_any assms(2, 3) by (auto simp: ambient_subscription_def)
qed

lemma ambient_reaches_cells_witness:
  "\<forall>sys :: (nat \<Rightarrow> int option) chassis_sys. cycler_run lin_interp dict_ops cfg_default Inr (\<lambda>_. Inl ValueErr)
     [AmbientPayload (Body (ambient_payload 0 ''A'' \<lparr>th_measured_c = 24, th_setpoint_c = 25, th_tau_s = 600\<rparr>)), LoopEvent (CellTick 0)] sys =
   bind_sum (cell_tick lin_interp (1 / 10) (py_round 3 24) (sys_channels sys ! 0)) (\<lambda>ch.
     Inr (sys\<lparr>sys_block := upd_channel 0 (\<lambda>_. ch) (sys_block sys), sys_ambient := ambient_update (py_round 3 24) (sys_ambient sys)\<rparr>))"
proof
  fix sys :: "(nat \<Rightarrow> int option) chassis_sys"
  obtain cs :: cycler_settings where cs: "cs_chamber_id cs = Some ''A''" by (meson cycler_settings.select_convs(7))
  show "cycler_run lin_interp dict_ops cfg_default Inr (\<lambda>_. Inl ValueErr)
     [AmbientPayload (Body (ambient_payload 0 ''A'' \<lparr>th_measured_c = 24, th_setpoint_c = 25, th_tau_s = 600\<rparr>)), LoopEvent (CellTick 0)] sys =
   bind_sum (cell_tick lin_interp (1 / 10) (py_round 3 24) (sys_channels sys ! 0)) (\<lambda>ch.
     Inr (sys\<lparr>sys_block := upd_channel 0 (\<lambda>_. ch) (sys_block sys), sys_ambient := ambient_update (py_round 3 24) (sys_ambient sys)\<rparr>))"
    using ambient_reaches_cells [where loads = Inr and dumps = "\<lambda>v. v" and now = 0 and cid = "''A''" and cs = cs and py_str = "\<lambda>_. ''A''"
      and m = "\<lparr>th_measured_c = 24, th_setpoint_c = 25, th_tau_s = 600\<rparr>" and np = lin_interp and R = dict_ops and cfg = cfg_default
      and fl = "\<lambda>_. Inl ValueErr" and i = 0 and sys = sys] cs
    by (simp add: cfg_default_def)
qed

end
