(* ===== verification/Lifecycle.thy ===== *)
theory Lifecycle
  imports Services Cycler_Process
begin

section \<open>How the processes run, stop and fail\<close>

text \<open>
  The \<open>_run\<close> and \<open>main\<close> of the services, as far as tasks, signals and exit codes go. \<open>SIGTERM\<close> and
  \<open>SIGINT\<close> only set an event; what happens next depends on who looks at it. Cycler, chamber and
  orchestrator run their tasks in an \<open>asyncio.TaskGroup\<close> whose body waits for the event and then raises
  \<open>CancelledError\<close>, which \<open>main\<close> absorbs. Analytics and watchdog look at the event between two
  broker sessions, the exporter between two passes. The task group is that of the standard library:
  the first exception of a task cancels all others and the body; when all have ended, the errors are
  raised together, and only without errors the cancellation goes on.
\<close>

datatype task =
    CellLoop nat | SafetyLoop nat | ChassisWatchdog | TelemetryPublisher | ModbusServer | AmbientSubscriber string
  | AliveWriter | FdPressureMonitor | ThermalLoop | AmbientPublisher
  | HeartbeatLoop | EventPublisher | ContextPublisher | ChannelKeepalive | ExecutorLoop
  | DispatchMessages | HeartbeatCheck | ChamberCheck | ChassisMonitor | FleetMonitor

subsection \<open>The tasks of each service\<close>

definition cycler_tasks :: "cycler_settings \<Rightarrow> task list" where
  "cycler_tasks cs =
     concat (map (\<lambda>i. [CellLoop i, SafetyLoop i]) [0..<nat (cs_channels cs)]) @
     [ChassisWatchdog, TelemetryPublisher, ModbusServer] @
     (case ambient_subscription cs of None \<Rightarrow> [] | Some topic \<Rightarrow> [AmbientSubscriber topic]) @
     [AliveWriter, FdPressureMonitor]"

definition chamber_tasks :: "task list" where
  "chamber_tasks = [ThermalLoop, ModbusServer, AmbientPublisher, AliveWriter, FdPressureMonitor]"

definition orchestrator_tasks :: "task list" where
  "orchestrator_tasks = [HeartbeatLoop, EventPublisher, ContextPublisher, ChannelKeepalive, ExecutorLoop]"

definition session_tasks :: "task list" where
  "session_tasks = [DispatchMessages, HeartbeatCheck, ChamberCheck, ChassisMonitor, FleetMonitor]"

subsection \<open>A task group with a waiting body\<close>

datatype body = Waiting | StoppedBody | CancelledBody

record task_group =
  tg_stop :: bool
  tg_running :: "task list"
  tg_errors :: "exn list"
  tg_aborting :: bool
  tg_body :: body

text \<open>
  \<open>Signal\<close> is the handler; \<open>BodyRuns\<close> a turn of the event loop in which the body gets to run; \<open>TaskEnds\<close>
  a task that has ended, with the exception it raised, or with none when it returned or was cancelled.
\<close>

datatype group_event = Signal | BodyRuns | TaskEnds task "exn option"

definition group_new :: "task list \<Rightarrow> task_group" where
  "group_new ts = \<lparr>tg_stop = False, tg_running = ts, tg_errors = [], tg_aborting = False, tg_body = Waiting\<rparr>"

fun group_exec :: "group_event \<Rightarrow> task_group \<Rightarrow> task_group" where
  "group_exec Signal g = g\<lparr>tg_stop := True\<rparr>"
| "group_exec BodyRuns g =
     (if tg_body g \<noteq> Waiting then g
      else if tg_aborting g then g\<lparr>tg_body := CancelledBody\<rparr>
      else if tg_stop g then g\<lparr>tg_body := StoppedBody, tg_aborting := True\<rparr>
      else g)"
| "group_exec (TaskEnds t r) g =
     (if t \<notin> set (tg_running g) then g
      else
        let g = g\<lparr>tg_running := remove1 t (tg_running g)\<rparr> in
        case r of
          None \<Rightarrow> g
        | Some e \<Rightarrow> g\<lparr>tg_errors := tg_errors g @ [e], tg_aborting := True\<rparr>)"

text \<open>
  The exit code of \<open>main\<close>, once the body has left and every task has ended: the cancellation is absorbed, an
  exception group is not.
\<close>

definition exit_of :: "task_group \<Rightarrow> int option" where
  "exit_of g =
     (if tg_body g = Waiting \<or> tg_running g \<noteq> [] then None
      else if tg_errors g \<noteq> [] then Some 1 else Some 0)"

definition cycler_main :: "cycler_settings \<Rightarrow> group_event list \<Rightarrow> int option" where
  "cycler_main cs evs = exit_of (fold group_exec evs (group_new (cycler_tasks cs)))"

definition chamber_main :: "group_event list \<Rightarrow> int option" where
  "chamber_main evs = exit_of (fold group_exec evs (group_new chamber_tasks))"

definition orchestrator_main :: "group_event list \<Rightarrow> int option" where
  "orchestrator_main evs = exit_of (fold group_exec evs (group_new orchestrator_tasks))"

subsection \<open>Sessions in a loop\<close>

text \<open>Analytics: the consumer of a session ends with an exception; only a broker error is followed by another session.\<close>

datatype loop_phase = InSession | Backoff | Exited int

datatype loop_event = LoopSignal | SessionEnds exn | BackoffOver

fun analytics_exec :: "loop_event \<Rightarrow> bool \<times> loop_phase \<Rightarrow> bool \<times> loop_phase" where
  "analytics_exec LoopSignal (stop, p) = (True, p)"
| "analytics_exec (SessionEnds e) (stop, p) = (stop, if p = InSession then (if e = MqttErr then Backoff else Exited 1) else p)"
| "analytics_exec BackoffOver (stop, p) = (stop, if p = Backoff then (if stop then Exited 0 else InSession) else p)"

definition analytics_main :: "loop_event list \<Rightarrow> loop_phase" where
  "analytics_main evs = snd (fold analytics_exec evs (False, InSession))"

text \<open>
  Watchdog: a session is a connection and then a task group without a waiting body. \<open>except* MqttError\<close> makes
  broker errors one \<open>MqttError\<close>; errors of other kinds remain in a group, which nobody catches.
\<close>

datatype wd_phase = Connecting | Session "task list" "exn list" | WdBackoff | WdExited int

datatype wd_life_event = WdSignal | Connected bool | MonitorEnds task "exn option" | WdBackoffOver

definition session_over :: "bool \<Rightarrow> exn list \<Rightarrow> wd_phase" where
  "session_over stop errors =
     (if errors = [] then (if stop then WdExited 0 else Connecting)
      else if list_all (\<lambda>e. e = MqttErr) errors then WdBackoff
      else WdExited 1)"

fun watchdog_exec :: "wd_life_event \<Rightarrow> bool \<times> wd_phase \<Rightarrow> bool \<times> wd_phase" where
  "watchdog_exec WdSignal (stop, p) = (True, p)"
| "watchdog_exec (Connected ok) (stop, Connecting) = (stop, if ok then Session session_tasks [] else WdBackoff)"
| "watchdog_exec (MonitorEnds t r) (stop, Session ts errors) =
     (if t \<notin> set ts then (stop, Session ts errors)
      else
        let ts = remove1 t ts; errors = (case r of None \<Rightarrow> errors | Some e \<Rightarrow> errors @ [e]) in
        if ts = [] then (stop, session_over stop errors) else (stop, Session ts errors))"
| "watchdog_exec WdBackoffOver (stop, WdBackoff) = (stop, if stop then WdExited 0 else Connecting)"
| "watchdog_exec _ s = s"

definition watchdog_main :: "wd_life_event list \<Rightarrow> wd_phase" where
  "watchdog_main evs = snd (fold watchdog_exec evs (False, Connecting))"

text \<open>Exporter: passes, and a wait that the event cuts short.\<close>

datatype ex_phase = InPass | InWait | ExExited int

datatype ex_event = ExSignal | PassEnds "exn option" | WaitOver

fun exporter_exec :: "ex_event \<Rightarrow> bool \<times> ex_phase \<Rightarrow> bool \<times> ex_phase" where
  "exporter_exec ExSignal (stop, p) = (True, if p = InWait then ExExited 0 else p)"
| "exporter_exec (PassEnds r) (stop, p) =
     (stop, if p \<noteq> InPass then p
        else if r \<noteq> None \<and> r \<noteq> Some PostgresErr then ExExited 1
        else if stop then ExExited 0 else InWait)"
| "exporter_exec WaitOver (stop, p) = (stop, if p = InWait then InPass else p)"

definition exporter_main :: "ex_event list \<Rightarrow> ex_phase" where
  "exporter_main evs = snd (fold exporter_exec evs (False, InPass))"

text \<open>\<open>--now\<close>: the line on standard output and the exit code; an exception is a traceback and 1.\<close>

definition now_line :: "summary \<Rightarrow> string" where
  "now_line s = ''[parquet.export.now] exported_hours='' @ show_nat (sm_exported_hours s) @ '' rows='' @ show_nat (sm_total_rows s) @
     '' bytes='' @ show_nat (sm_total_bytes s) @ '' chunks_dropped='' @ show_nat (sm_chunks_dropped s)"

definition now_main :: "(batches \<Rightarrow> nat) \<Rightarrow> exporter_settings \<Rightarrow> int \<Rightarrow> export_world \<Rightarrow> (int \<times> string list) \<times> export_world" where
  "now_main obj_size cfg now w =
     (case run_now obj_size cfg now w of
        (Inl e, w') \<Rightarrow> ((1, []), w')
      | (Inr s, w') \<Rightarrow> ((0, [now_line s]), w'))"

subsection \<open>Task groups\<close>

definition raises :: "group_event \<Rightarrow> bool" where
  "raises ev \<longleftrightarrow> (\<exists>t e. ev = TaskEnds t (Some e))"

text \<open>What has happened so far, read off the state.\<close>

definition group_inv :: "task list \<Rightarrow> group_event list \<Rightarrow> task_group \<Rightarrow> bool" where
  "group_inv ts evs g \<longleftrightarrow> (tg_stop g \<longleftrightarrow> Signal \<in> set evs) \<and> distinct (tg_running g) \<and>
     set (tg_running g) = {t \<in> set ts. \<forall>r. TaskEnds t r \<notin> set evs} \<and>
     (tg_errors g \<noteq> [] \<longrightarrow> (\<exists>t \<in> set ts. \<exists>e. TaskEnds t (Some e) \<in> set evs)) \<and>
     (tg_aborting g \<longrightarrow> tg_errors g \<noteq> [] \<or> tg_body g \<noteq> Waiting) \<and>
     (tg_errors g \<noteq> [] \<longrightarrow> tg_aborting g) \<and>
     (tg_body g \<noteq> Waiting \<longrightarrow> Signal \<in> set evs \<or> tg_errors g \<noteq> [])"

lemma group_new_inv: "distinct ts \<Longrightarrow> group_inv ts [] (group_new ts)"
  by (simp add: group_inv_def group_new_def)

lemma group_exec_inv: "group_inv ts evs g \<Longrightarrow> group_inv ts (evs @ [ev]) (group_exec ev g)"
  by (cases ev) (auto simp: group_inv_def Let_def split: option.split)

lemma group_run_inv: "distinct ts \<Longrightarrow> group_inv ts evs (fold group_exec evs (group_new ts))"
  by (induction evs rule: rev_induct) (simp_all add: group_new_inv group_exec_inv)

lemma group_errors_stay: "tg_errors g \<noteq> [] \<Longrightarrow> tg_errors (fold group_exec evs g) \<noteq> []"
proof (induction evs arbitrary: g)
  case (Cons ev evs)
  have "tg_errors (group_exec ev g) \<noteq> []" using Cons.prems by (cases ev) (auto simp: Let_def split: option.split)
  with Cons.IH show ?case by simp
qed simp

lemma group_left_stays: "tg_body g \<noteq> Waiting \<Longrightarrow> tg_body (fold group_exec evs g) \<noteq> Waiting"
proof (induction evs arbitrary: g)
  case (Cons ev evs)
  have "tg_body (group_exec ev g) \<noteq> Waiting" using Cons.prems by (cases ev) (auto simp: Let_def split: option.split)
  with Cons.IH show ?case by simp
qed simp

lemma group_body_runs:
  assumes "tg_stop g \<or> tg_aborting g" "BodyRuns \<in> set evs"
  shows "tg_body (fold group_exec evs g) \<noteq> Waiting"
  using assms
proof (induction evs arbitrary: g)
  case (Cons ev evs)
  show ?case
  proof (cases "ev = BodyRuns")
    case True
    with Cons.prems(1) have "tg_body (group_exec ev g) \<noteq> Waiting" by auto
    then show ?thesis using group_left_stays by simp
  next
    case False
    have "tg_stop (group_exec ev g) \<or> tg_aborting (group_exec ev g)"
      using Cons.prems(1) False by (cases ev) (auto simp: Let_def split: option.split)
    with Cons False show ?thesis by simp
  qed
qed simp

lemma tasks_distinct: "distinct (cycler_tasks cs)" "distinct chamber_tasks" "distinct orchestrator_tasks"
proof -
  have "distinct (concat (map (\<lambda>i. [CellLoop i, SafetyLoop i]) [0..<n]))" for n
    by (induction n) auto
  then show "distinct (cycler_tasks cs)"
    by (auto simp: cycler_tasks_def split: option.split)
qed (simp_all add: chamber_tasks_def orchestrator_tasks_def)

text \<open>A group ends on a signal or an error, with the code that says which.\<close>

lemma group_exits:
  assumes "distinct ts"
  defines "g evs \<equiv> fold group_exec evs (group_new ts)"
  shows "exit_of (g evs) = Some c \<Longrightarrow> Signal \<in> set evs \<or> (\<exists>t \<in> set ts. \<exists>e. TaskEnds t (Some e) \<in> set evs)"
    "exit_of (g evs) = Some c \<Longrightarrow> list_all (\<lambda>ev. \<not> raises ev) evs \<Longrightarrow> c = 0"
    "exit_of (g (es @ TaskEnds t (Some e) # es')) = Some c \<Longrightarrow> t \<in> set ts \<Longrightarrow> \<forall>r. TaskEnds t r \<notin> set es \<Longrightarrow> c = 1"
    "(\<exists>es es'. evs = es @ Signal # es' \<and> BodyRuns \<in> set es') \<Longrightarrow> \<forall>t \<in> set ts. \<exists>r. TaskEnds t r \<in> set evs \<Longrightarrow> exit_of (g evs) \<noteq> None"
    "BodyRuns \<in> set es' \<Longrightarrow> t \<in> set ts \<Longrightarrow> \<forall>r. TaskEnds t r \<notin> set es \<Longrightarrow>
      \<forall>t \<in> set ts. \<exists>r. TaskEnds t r \<in> set (es @ TaskEnds t0 (Some e) # es') \<Longrightarrow> t0 = t \<Longrightarrow>
      exit_of (g (es @ TaskEnds t0 (Some e) # es')) = Some 1"
proof -
  note inv = group_run_inv [OF assms(1), folded g_def]
  show "exit_of (g evs) = Some c \<Longrightarrow> Signal \<in> set evs \<or> (\<exists>t \<in> set ts. \<exists>e. TaskEnds t (Some e) \<in> set evs)"
    using inv [of evs] by (auto simp: exit_of_def group_inv_def split: if_splits)
  show "exit_of (g evs) = Some c \<Longrightarrow> list_all (\<lambda>ev. \<not> raises ev) evs \<Longrightarrow> c = 0"
    using inv [of evs] by (auto simp: exit_of_def group_inv_def list_all_iff raises_def split: if_splits)
  have err: "tg_errors (group_exec (TaskEnds t (Some e)) (g es)) \<noteq> []" if "t \<in> set ts" "\<forall>r. TaskEnds t r \<notin> set es" for t
    using inv [of es] that by (auto simp: group_inv_def Let_def)
  have split: "g (es @ ev # es') = fold group_exec es' (group_exec ev (g es))" for ev by (simp add: g_def)
  show c1: "exit_of (g (es @ TaskEnds t (Some e) # es')) = Some c \<Longrightarrow> t \<in> set ts \<Longrightarrow> \<forall>r. TaskEnds t r \<notin> set es \<Longrightarrow> c = 1" for c t
    using group_errors_stay [OF err] unfolding split by (auto simp: exit_of_def split: if_splits)
  have none: "exit_of (g evs) \<noteq> None" if "tg_body (g evs) \<noteq> Waiting" "\<forall>t \<in> set ts. \<exists>r. TaskEnds t r \<in> set evs" for evs
  proof -
    have "set (tg_running (g evs)) = {}" using inv [of evs] that(2) by (auto simp: group_inv_def)
    with that(1) show ?thesis by (simp add: exit_of_def)
  qed
  show "exit_of (g evs) \<noteq> None" if "\<exists>es es'. evs = es @ Signal # es' \<and> BodyRuns \<in> set es'" "\<forall>t \<in> set ts. \<exists>r. TaskEnds t r \<in> set evs"
  proof (rule none [OF _ that(2)])
    from that(1) obtain us vs where "evs = us @ Signal # vs" "BodyRuns \<in> set vs" by blast
    then show "tg_body (g evs) \<noteq> Waiting"
      using group_body_runs [of "group_exec Signal (g us)" vs] by (simp add: g_def)
  qed
  show "exit_of (g (es @ TaskEnds t0 (Some e) # es')) = Some 1" if "BodyRuns \<in> set es'" "t \<in> set ts" "\<forall>r. TaskEnds t r \<notin> set es"
    "\<forall>t \<in> set ts. \<exists>r. TaskEnds t r \<in> set (es @ TaskEnds t0 (Some e) # es')" "t0 = t"
  proof -
    have "tg_aborting (group_exec (TaskEnds t (Some e)) (g es))" using inv [of es] that(2,3) by (auto simp: group_inv_def Let_def)
    then have "tg_body (g (es @ TaskEnds t0 (Some e) # es')) \<noteq> Waiting"
      unfolding split that(5) using group_body_runs that(1) by blast
    from none [OF this that(4)] c1 [of t] that(2,3,5) show ?thesis by auto
  qed
qed

subsection \<open>Processes that wait in a task group\<close>

definition grouped_services :: "cycler_settings \<Rightarrow> ((group_event list \<Rightarrow> int option) \<times> task list) list" where
  "grouped_services cs =
     [(cycler_main cs, cycler_tasks cs), (chamber_main, chamber_tasks), (orchestrator_main, orchestrator_tasks)]"

lemma grouped_main:
  assumes "(main, ts) \<in> set (grouped_services cs)"
  shows "distinct ts" "main evs = exit_of (fold group_exec evs (group_new ts))"
  using assms tasks_distinct
  by (auto simp: grouped_services_def cycler_main_def chamber_main_def orchestrator_main_def)



subsection \<open>Processes that loop over sessions\<close>

definition quiet_loop :: "loop_event \<Rightarrow> bool" where
  "quiet_loop ev \<longleftrightarrow> (\<forall>e. ev \<noteq> SessionEnds e)"

definition quiet_watchdog :: "wd_life_event \<Rightarrow> bool" where
  "quiet_watchdog ev \<longleftrightarrow> (\<forall>t r. ev \<noteq> MonitorEnds t r)"

lemma analytics_quiet:
  "list_all quiet_loop evs \<Longrightarrow> fold analytics_exec evs (stop, InSession) = (stop \<or> LoopSignal \<in> set evs, InSession)"
proof (induction evs arbitrary: stop)
  case (Cons ev evs)
  then show ?case by (cases ev) (auto simp: quiet_loop_def)
qed simp

lemma watchdog_quiet:
  "list_all quiet_watchdog evs \<Longrightarrow>
   fold watchdog_exec evs (stop, Session ts errors) = (stop \<or> WdSignal \<in> set evs, Session ts errors)"
proof (induction evs arbitrary: stop)
  case (Cons ev evs)
  then show ?case by (cases ev) (auto simp: quiet_watchdog_def)
qed simp

text \<open>A session that lost the broker: the consumer fails, the group cancels the monitors.\<close>

definition broker_lost :: "wd_life_event list" where
  "broker_lost = MonitorEnds DispatchMessages (Some MqttErr) #
     map (\<lambda>t. MonitorEnds t None) [HeartbeatCheck, ChamberCheck, ChassisMonitor, FleetMonitor]"

lemma watchdog_broker_lost:
  "fold watchdog_exec broker_lost (stop, Session session_tasks []) = (stop, WdBackoff)"
  by (simp add: broker_lost_def session_tasks_def session_over_def)



end
