(* ===== verification/Schedule_Data.thy ===== *)
theory Schedule_Data
  imports Schedule
begin

section \<open>From parsed YAML to a schedule\<close>

text \<open>
  The models of \<open>batterylab/schedule.py\<close> as \<open>Schedule.model_validate\<close> reads them: which fields each
  class has, which are required, their defaults, \<open>extra="forbid"\<close> and the union of the steps that
  is told apart by \<open>type\<close>. Any failure is the one \<open>ValidationError\<close>. The conversion of scalars belongs
  to pydantic and is a parameter; the locale \<open>scalar_coercions\<close> has the rows of its conversion table
  that say what happens to a value that has the declared type already, and to an integer where a
  float is declared.
\<close>

record coercions =
  co_str :: "yaml_value \<Rightarrow> string option"
  co_int :: "yaml_value \<Rightarrow> int option"
  co_float :: "yaml_value \<Rightarrow> real option"

locale scalar_coercions =
  fixes co :: coercions
  assumes str_str: "co_str co (YStr s) = Some s"
    and int_int: "co_int co (YInt i) = Some i"
    and float_float: "co_float co (YFloat r) = Some r"
    and float_int: "co_float co (YInt i) = Some (real_of_int i)"
    and null_scalar: "co_str co YNull = None" "co_int co YNull = None" "co_float co YNull = None"

subsection \<open>Fields\<close>

definition scalar :: "(yaml_value \<Rightarrow> 'a option) \<Rightarrow> yaml_value \<Rightarrow> exn + 'a" where
  "scalar f v = (case f v of None \<Rightarrow> Inl ValidationErr | Some x \<Rightarrow> Inr x)"

text \<open>\<open>float | None\<close>.\<close>

definition nullable :: "(yaml_value \<Rightarrow> exn + 'a) \<Rightarrow> yaml_value \<Rightarrow> exn + 'a option" where
  "nullable f v = (if v = YNull then Inr None else bind_sum (f v) (\<lambda>x. Inr (Some x)))"

text \<open>The entries of a mapping that has no key but the given ones.\<close>

fun model_fields :: "string list \<Rightarrow> yaml_value \<Rightarrow> exn + (string \<times> yaml_value) list" where
  "model_fields ks (YMap kvs) = (if list_all (\<lambda>(k, _). k \<in> set ks) kvs then Inr kvs else Inl ValidationErr)"
| "model_fields ks _ = Inl ValidationErr"

definition field :: "(string \<times> yaml_value) list \<Rightarrow> string \<Rightarrow> (yaml_value \<Rightarrow> exn + 'a) \<Rightarrow> exn + 'a" where
  "field kvs k f = (case map_of (rev kvs) k of None \<Rightarrow> Inl ValidationErr | Some v \<Rightarrow> f v)"

definition field_or :: "'a \<Rightarrow> (string \<times> yaml_value) list \<Rightarrow> string \<Rightarrow> (yaml_value \<Rightarrow> exn + 'a) \<Rightarrow> exn + 'a" where
  "field_or d kvs k f = (case map_of (rev kvs) k of None \<Rightarrow> Inr d | Some v \<Rightarrow> f v)"

fun list_of :: "(yaml_value \<Rightarrow> exn + 'a) \<Rightarrow> yaml_value \<Rightarrow> exn + 'a list" where
  "list_of f (YList vs) = collect f vs"
| "list_of f _ = Inl ValidationErr"

subsection \<open>The models\<close>

definition read_end_condition :: "coercions \<Rightarrow> yaml_value \<Rightarrow> exn + end_condition" where
  "read_end_condition co v =
     bind_sum (model_fields [''voltage_v_above'', ''voltage_v_below'', ''current_a_below_c_rate'', ''max_duration_s''] v) (\<lambda>kvs.
     bind_sum (field_or None kvs ''voltage_v_above'' (nullable (scalar (co_float co)))) (\<lambda>a.
     bind_sum (field_or None kvs ''voltage_v_below'' (nullable (scalar (co_float co)))) (\<lambda>b.
     bind_sum (field_or None kvs ''current_a_below_c_rate'' (nullable (scalar (co_float co)))) (\<lambda>c.
     bind_sum (field_or None kvs ''max_duration_s'' (nullable (scalar (co_float co)))) (\<lambda>d.
       Inr \<lparr>voltage_v_above = a, voltage_v_below = b, current_a_below_c_rate = c, max_duration_s = d\<rparr>)))))"

definition read_rest :: "coercions \<Rightarrow> yaml_value \<Rightarrow> exn + step" where
  "read_rest co v =
     bind_sum (model_fields [''name'', ''type'', ''duration_s''] v) (\<lambda>kvs.
     bind_sum (field kvs ''name'' (scalar (co_str co))) (\<lambda>nm.
     bind_sum (field kvs ''duration_s'' (scalar (co_float co))) (\<lambda>d. Inr (RestStep nm d))))"

definition read_cc :: "coercions \<Rightarrow> yaml_value \<Rightarrow> exn + step" where
  "read_cc co v =
     bind_sum (model_fields [''name'', ''type'', ''rate_c'', ''end_when''] v) (\<lambda>kvs.
     bind_sum (field kvs ''name'' (scalar (co_str co))) (\<lambda>nm.
     bind_sum (field kvs ''rate_c'' (scalar (co_float co))) (\<lambda>r.
     bind_sum (field kvs ''end_when'' (read_end_condition co)) (\<lambda>c. Inr (CCStep nm r c)))))"

definition read_cv :: "coercions \<Rightarrow> yaml_value \<Rightarrow> exn + step" where
  "read_cv co v =
     bind_sum (model_fields [''name'', ''type'', ''voltage_v'', ''end_when''] v) (\<lambda>kvs.
     bind_sum (field kvs ''name'' (scalar (co_str co))) (\<lambda>nm.
     bind_sum (field kvs ''voltage_v'' (scalar (co_float co))) (\<lambda>u.
     bind_sum (field kvs ''end_when'' (read_end_condition co)) (\<lambda>c. Inr (CVStep nm u c)))))"

text \<open>The discriminated union: the tag must be there, although each class has a default for it.\<close>

fun step_tag :: "yaml_value \<Rightarrow> yaml_value option" where
  "step_tag (YMap kvs) = map_of (rev kvs) ''type''"
| "step_tag _ = None"

definition read_step :: "coercions \<Rightarrow> yaml_value \<Rightarrow> exn + step" where
  "read_step co v =
     (if step_tag v = Some (YStr ''rest'') then read_rest co v
      else if step_tag v = Some (YStr ''cc'') then read_cc co v
      else if step_tag v = Some (YStr ''cv'') then read_cv co v
      else Inl ValidationErr)"

definition read_repeat :: "coercions \<Rightarrow> yaml_value \<Rightarrow> exn + int" where
  "read_repeat co v = bind_sum (model_fields [''repeat''] v) (\<lambda>kvs. field kvs ''repeat'' (scalar (co_int co)))"

text \<open>The chassis validator runs before the field is typed, so it gets the raw value.\<close>

definition read_bench :: "coercions \<Rightarrow> yaml_value \<Rightarrow> exn + yaml_value \<times> int" where
  "read_bench co v =
     bind_sum (model_fields [''chassis'', ''channels_per_chassis''] v) (\<lambda>kvs.
     bind_sum (field kvs ''chassis'' Inr) (\<lambda>ch.
     bind_sum (field kvs ''channels_per_chassis'' (scalar (co_int co))) (\<lambda>n. Inr (ch, n))))"

definition read_chamber_config :: "coercions \<Rightarrow> yaml_value \<Rightarrow> exn + real \<times> real" where
  "read_chamber_config co v =
     bind_sum (model_fields [''setpoint_c'', ''soak_seconds''] v) (\<lambda>kvs.
     bind_sum (field_or 25 kvs ''setpoint_c'' (scalar (co_float co))) (\<lambda>t.
     bind_sum (field_or 0 kvs ''soak_seconds'' (scalar (co_float co))) (\<lambda>s. Inr (t, s))))"

definition schedule_keys :: "string list" where
  "schedule_keys = [''schedule_id'', ''chemistry'', ''bench'', ''chamber'', ''steps'', ''cycle'']"

definition model_validate :: "coercions \<Rightarrow> yaml_value \<Rightarrow> exn + schedule" where
  "model_validate co v =
     bind_sum (model_fields schedule_keys v) (\<lambda>kvs.
     bind_sum (field kvs ''schedule_id'' (scalar (co_str co))) (\<lambda>sid.
     bind_sum (field kvs ''chemistry'' (scalar (co_str co))) (\<lambda>chemistry.
     bind_sum (field kvs ''bench'' (read_bench co)) (\<lambda>(chassis, channels).
     bind_sum (field_or (25, 0) kvs ''chamber'' (read_chamber_config co)) (\<lambda>(setpoint, soak).
     bind_sum (field kvs ''steps'' (list_of (read_step co))) (\<lambda>steps.
     bind_sum (field kvs ''cycle'' (read_repeat co)) (\<lambda>n.
       validate_schedule sid chemistry chassis channels setpoint soak steps n)))))))"

subsection \<open>A schedule as data\<close>

definition opt_data :: "real option \<Rightarrow> yaml_value" where
  "opt_data r = (case r of None \<Rightarrow> YNull | Some x \<Rightarrow> YFloat x)"

definition end_data :: "end_condition \<Rightarrow> yaml_value" where
  "end_data c = YMap [(''voltage_v_above'', opt_data (voltage_v_above c)), (''voltage_v_below'', opt_data (voltage_v_below c)),
     (''current_a_below_c_rate'', opt_data (current_a_below_c_rate c)), (''max_duration_s'', opt_data (max_duration_s c))]"

fun step_data :: "step \<Rightarrow> yaml_value" where
  "step_data (RestStep nm d) = YMap [(''name'', YStr nm), (''type'', YStr ''rest''), (''duration_s'', YFloat d)]"
| "step_data (CCStep nm r c) = YMap [(''name'', YStr nm), (''type'', YStr ''cc''), (''rate_c'', YFloat r), (''end_when'', end_data c)]"
| "step_data (CVStep nm u c) = YMap [(''name'', YStr nm), (''type'', YStr ''cv''), (''voltage_v'', YFloat u), (''end_when'', end_data c)]"

definition schedule_data :: "schedule \<Rightarrow> yaml_value" where
  "schedule_data s = YMap
     [(''schedule_id'', YStr (schedule_id s)), (''chemistry'', YStr (sch_chemistry s)),
      (''bench'', YMap [(''chassis'', YList (map YInt (sch_chassis s))), (''channels_per_chassis'', YInt (sch_channels_per_chassis s))]),
      (''chamber'', YMap [(''setpoint_c'', YFloat (sch_setpoint_c s)), (''soak_seconds'', YFloat (sch_soak_seconds s))]),
      (''steps'', YList (map step_data (sch_steps s))),
      (''cycle'', YMap [(''repeat'', YInt (sch_repeat s))])]"

subsection \<open>Reading back\<close>

lemma field_error: "field kvs k f = Inl e \<Longrightarrow> (\<And>v. f v = Inl e \<Longrightarrow> e = ValidationErr) \<Longrightarrow> e = ValidationErr"
  by (auto simp: field_def split: option.splits)

lemma field_or_error: "field_or d kvs k f = Inl e \<Longrightarrow> (\<And>v. f v = Inl e \<Longrightarrow> e = ValidationErr) \<Longrightarrow> e = ValidationErr"
  by (auto simp: field_or_def split: option.splits)

lemma scalar_error: "scalar f v = Inl e \<Longrightarrow> e = ValidationErr"
  by (auto simp: scalar_def split: option.splits)

lemma nullable_error: "nullable (scalar f) v = Inl e \<Longrightarrow> e = ValidationErr"
  by (auto simp: nullable_def bind_sum_eq_Inl dest: scalar_error split: if_splits)

lemma model_fields_error: "model_fields ks v = Inl e \<Longrightarrow> e = ValidationErr"
  by (cases v) (auto split: if_splits)

lemma collect_error: "collect f xs = Inl e \<Longrightarrow> (\<And>x. f x = Inl e \<Longrightarrow> e = ValidationErr) \<Longrightarrow> e = ValidationErr"
  by (induction xs) (auto simp: bind_sum_eq_Inl)

lemma list_of_error: "list_of f v = Inl e \<Longrightarrow> (\<And>x. f x = Inl e \<Longrightarrow> e = ValidationErr) \<Longrightarrow> e = ValidationErr"
  by (cases v) (auto dest: collect_error)

lemmas data_errors = scalar_error nullable_error model_fields_error

lemma read_end_error: "read_end_condition co v = Inl e \<Longrightarrow> e = ValidationErr"
  unfolding read_end_condition_def by (auto simp: bind_sum_eq_Inl dest: data_errors dest!: field_or_error)

lemma read_step_error: "read_step co v = Inl e \<Longrightarrow> e = ValidationErr"
  unfolding read_step_def read_rest_def read_cc_def read_cv_def
  by (auto simp: bind_sum_eq_Inl dest: data_errors read_end_error dest!: field_error split: if_splits)

lemma read_parts_error:
  "read_repeat co v = Inl e \<Longrightarrow> e = ValidationErr" "read_bench co v = Inl e \<Longrightarrow> e = ValidationErr"
  "read_chamber_config co v = Inl e \<Longrightarrow> e = ValidationErr"
  unfolding read_repeat_def read_bench_def read_chamber_config_def
  by (auto simp: bind_sum_eq_Inl dest: data_errors dest!: field_error field_or_error)

lemma validate_schedule_error: "validate_schedule sid c v n sp sk ss r = Inl e \<Longrightarrow> e = ValidationErr"
  by (auto simp: validate_schedule_def split: sum.splits if_splits)

lemma model_validate_error: "model_validate co v = Inl e \<Longrightarrow> e = ValidationErr"
  unfolding model_validate_def
  by (auto simp: bind_sum_eq_Inl dest: data_errors read_parts_error validate_schedule_error
      dest!: field_error field_or_error list_of_error read_step_error)

lemma model_validate_ok: "model_validate co v = Inr s \<Longrightarrow> schedule_ok s"
  unfolding model_validate_def by (auto dest: schedule_ok_validate)

lemma field_there: "field kvs k f = Inr x \<Longrightarrow> k \<in> fst ` set kvs"
  by (auto simp: field_def split: option.splits dest!: map_of_SomeD intro: rev_image_eqI)

lemma model_validate_fields:
  assumes "model_validate co (YMap kvs) = Inr s"
  shows "fst ` set kvs \<subseteq> set schedule_keys \<and> {''schedule_id'', ''chemistry'', ''bench'', ''steps'', ''cycle''} \<subseteq> fst ` set kvs"
  using assms unfolding model_validate_def by (auto simp: list_all_iff dest: field_there split: if_splits)

context scalar_coercions
begin

lemma scalars [simp]:
  "scalar (co_str co) (YStr s) = Inr s" "scalar (co_int co) (YInt i) = Inr i" "scalar (co_float co) (YFloat r) = Inr r"
  "nullable (scalar (co_float co)) (opt_data x) = Inr x"
  by (simp_all add: scalar_def str_str int_int float_float nullable_def opt_data_def split: option.split)

lemma read_end_data [simp]: "read_end_condition co (end_data c) = Inr c"
  by (simp add: read_end_condition_def end_data_def field_or_def)

lemma read_step_data [simp]: "read_step co (step_data st) = Inr st"
  by (cases st) (simp_all add: read_step_def read_rest_def read_cc_def read_cv_def field_def)

lemma read_steps_data: "collect (read_step co) (map step_data ss) = Inr ss"
  by (induction ss) simp_all

lemma read_schedule_data:
  assumes "schedule_ok s"
  shows "model_validate co (schedule_data s) = Inr s"
proof -
  have "normalize (YList (map YInt (sch_chassis s))) = Inr (sch_chassis s)"
    using assms by (intro normalize_ids) (auto simp: schedule_ok_def)
  moreover have "at_least_one_step (sch_steps s) = Inr (sch_steps s)"
    using assms by (simp add: at_least_one_step_def schedule_ok_def)
  ultimately show ?thesis using assms
    by (simp add: model_validate_def schedule_data_def schedule_keys_def field_def field_or_def read_bench_def
        read_chamber_config_def read_repeat_def read_steps_data validate_schedule_def schedule_ok_def)
qed

end

text \<open>The strict conversions, which accept nothing else, are such coercions.\<close>

definition strict :: coercions where
  "strict = \<lparr>co_str = (\<lambda>v. case v of YStr s \<Rightarrow> Some s | _ \<Rightarrow> None), co_int = (\<lambda>v. case v of YInt i \<Rightarrow> Some i | _ \<Rightarrow> None),
     co_float = (\<lambda>v. case v of YFloat r \<Rightarrow> Some r | YInt i \<Rightarrow> Some (real_of_int i) | _ \<Rightarrow> None)\<rparr>"

interpretation strict: scalar_coercions strict
  by unfold_locales (simp_all add: strict_def)

text \<open>
  C29. The schema. Whatever is accepted is a well-formed schedule, and writing it out as data and
  reading it again gives the same schedule; every well-formed schedule can be written down. Every
  rejection is a \<open>ValidationError\<close>, and a mapping with a key the model does not have, or without one
  of the five required keys, is rejected. The chemistry is any text: a schedule for a chemistry
  that does not exist is accepted. So is a step whose end condition is empty, which no reading of
  the channel and no time ever ends.
\<close>

theorem schedule_schema:
  assumes "scalar_coercions co"
  shows "(model_validate co v = Inr s \<longrightarrow> schedule_ok s \<and> model_validate co (schedule_data s) = Inr s) \<and>
    (schedule_ok t \<longrightarrow> model_validate co (schedule_data t) = Inr t \<and>
       model_validate co (schedule_data (t\<lparr>sch_chemistry := name\<rparr>)) = Inr (t\<lparr>sch_chemistry := name\<rparr>)) \<and>
    (model_validate co v = Inl e \<longrightarrow> e = ValidationErr) \<and>
    (model_validate co (YMap kvs) = Inr u \<longrightarrow> fst ` set kvs \<subseteq> set schedule_keys \<and>
       {''schedule_id'', ''chemistry'', ''bench'', ''steps'', ''cycle''} \<subseteq> fst ` set kvs) \<and>
    (\<exists>c. read_step co (YMap [(''name'', YStr nm), (''type'', YStr ''cc''), (''rate_c'', YFloat r), (''end_when'', YMap [])]) = Inr (CCStep nm r c) \<and>
       (\<forall>volt amp elapsed cap. \<not> end_condition_met (CCStep nm r c) volt amp elapsed cap))"
proof -
  note rt = scalar_coercions.read_schedule_data [OF assms]
  let ?c = "\<lparr>voltage_v_above = None, voltage_v_below = None, current_a_below_c_rate = None, max_duration_s = None\<rparr>"
  have "read_step co (YMap [(''name'', YStr nm), (''type'', YStr ''cc''), (''rate_c'', YFloat r), (''end_when'', YMap [])]) = Inr (CCStep nm r ?c)"
    using scalar_coercions.scalars [OF assms]
    by (simp add: read_step_def read_cc_def field_def field_or_def read_end_condition_def)
  moreover have "\<not> end_condition_met (CCStep nm r ?c) volt amp elapsed cap" for volt amp elapsed cap
    by (simp add: condition_met_def)
  moreover have "schedule_ok (t\<lparr>sch_chemistry := name\<rparr>)" if "schedule_ok t"
    using that by (simp add: schedule_ok_def)
  ultimately show ?thesis
    using rt model_validate_ok [of co v s] model_validate_error model_validate_fields by blast
qed

lemma schedule_schema_witness:
  "model_validate strict (schedule_data
     \<lparr>schedule_id = ''formation'', sch_chemistry = ''LFP'', sch_chassis = [1, 2], sch_channels_per_chassis = 32,
      sch_setpoint_c = 25, sch_soak_seconds = 0, sch_steps = [RestStep ''rest'' 60], sch_repeat = 3\<rparr>) =
   Inr \<lparr>schedule_id = ''formation'', sch_chemistry = ''LFP'', sch_chassis = [1, 2], sch_channels_per_chassis = 32,
      sch_setpoint_c = 25, sch_soak_seconds = 0, sch_steps = [RestStep ''rest'' 60], sch_repeat = 3\<rparr>"
proof -
  let ?t = "\<lparr>schedule_id = ''formation'', sch_chemistry = ''NMC'', sch_chassis = [1, 2], sch_channels_per_chassis = 32,
      sch_setpoint_c = 25, sch_soak_seconds = 0, sch_steps = [RestStep ''rest'' 60], sch_repeat = 3\<rparr>"
  have "schedule_ok ?t" by (simp add: schedule_ok_def MAX_CHASSIS_def MAX_CHANNELS_PER_CHASSIS_def)
  with schedule_schema [OF strict.scalar_coercions_axioms, of YNull ?t ?t "''LFP''"] show ?thesis by simp
qed

end
