(* ===== verification/Health.thy ===== *)
theory Health
  imports Config Effects
begin

section \<open>Simulated time, liveness and health checks\<close>

text \<open>
  \<open>batterylab/time.py\<close>, \<open>alive.py\<close>, \<open>fdpressure.py\<close> and the health checks of the containers. The
  operating system (clock, \<open>touch\<close>, \<open>stat\<close>, the list of open files) and the database answer as
  parameters; what is modelled is what the code makes of the answers.
\<close>

subsection \<open>Simulated time\<close>

definition sim_factor :: "(string \<Rightarrow> exn + real) \<Rightarrow> environ \<Rightarrow> exn + real" where
  "sim_factor fl env = env_float fl env ''SIM_TIME_FACTOR'' 10"

definition now_sim_of :: "real \<Rightarrow> real \<Rightarrow> real" where
  "now_sim_of factor monotonic = monotonic * factor"

text \<open>The wall seconds that \<open>SimTime.sleep\<close> hands to \<open>asyncio.sleep\<close>, if it does.\<close>

definition wall_sleep :: "real \<Rightarrow> real \<Rightarrow> real option" where
  "wall_sleep factor sim_seconds = (let wall = sim_seconds / factor in if 0 < wall then Some wall else None)"

lemma sleep_advances_sim:
  "0 < factor \<Longrightarrow> 0 < dt \<Longrightarrow> \<exists>wall. wall_sleep factor dt = Some wall \<and> now_sim_of factor (t + wall) = now_sim_of factor t + dt"
  by (intro exI [of _ "dt / factor"]) (simp add: wall_sleep_def now_sim_of_def Let_def distrib_right)

subsection \<open>The liveness file\<close>

definition DEFAULT_PERIOD_S :: real where "DEFAULT_PERIOD_S = 5"
definition DEFAULT_MAX_AGE_S :: real where "DEFAULT_MAX_AGE_S = 30"

text \<open>
  One turn of \<open>alive_writer\<close> at a time of the clock: a touch that succeeds sets the modification time, an
  \<open>OSError\<close> is logged, another exception ends the writer. \<open>None\<close> is a missing file.
\<close>

definition alive_turn :: "real \<times> (exn + unit) \<Rightarrow> (real option, unit) act" where
  "alive_turn t =
     catch_act (case snd t of Inl e \<Rightarrow> raise e | Inr _ \<Rightarrow> mod_act (\<lambda>_. Some (fst t))) (\<lambda>e. e = OSErr) (\<lambda>_. ret ())"

definition alive_writer :: "(real \<times> (exn + unit)) list \<Rightarrow> (real option, unit) act" where
  "alive_writer turns = for_act alive_turn turns"

text \<open>The stat fails with \<open>OSError\<close> when the file is missing or unreadable.\<close>

definition is_alive :: "exn + real \<Rightarrow> real \<Rightarrow> real \<Rightarrow> exn + bool" where
  "is_alive stat now max_age_s =
     (case stat of Inl e \<Rightarrow> if e = OSErr then Inr False else Inl e | Inr mtime \<Rightarrow> Inr (now - mtime \<le> max_age_s))"

definition stat_of :: "real option \<Rightarrow> exn + real" where
  "stat_of f = (case f of None \<Rightarrow> Inl OSErr | Some t \<Rightarrow> Inr t)"

definition alive_check :: "real option \<Rightarrow> real \<Rightarrow> int" where
  "alive_check f now = (case is_alive (stat_of f) now 30 of Inr True \<Rightarrow> 0 | _ \<Rightarrow> 1)"

definition touched :: "(real \<times> (exn + unit)) list \<Rightarrow> real list" where
  "touched turns = map fst (filter (\<lambda>t. snd t = Inr ()) turns)"

lemma alive_writer_run:
  assumes "\<forall>t \<in> set turns. snd t \<in> {Inr (), Inl OSErr}"
  shows "alive_writer turns f = (Inr (), if touched turns = [] then f else Some (last (touched turns)))"
  using assms
proof (induction turns arbitrary: f)
  case (Cons t ts)
  obtain c r where t: "t = (c, r)" by (cases t)
  from Cons.prems t have r: "r = Inr () \<or> r = Inl OSErr" by auto
  have turn: "alive_turn t f = (Inr (), if r = Inr () then Some c else f)"
    using r by (elim disjE) (simp_all add: alive_turn_def t run_simps)
  have ts: "\<forall>t \<in> set ts. snd t \<in> {Inr (), Inl OSErr}" using Cons.prems by simp
  have "alive_writer (t # ts) f = alive_writer ts (if r = Inr () then Some c else f)"
    by (simp add: alive_writer_def seq_act_def turn)
  moreover have "touched (t # ts) = (if r = Inr () then [c] else []) @ touched ts" by (simp add: touched_def t)
  ultimately show ?case using Cons.IH [OF ts] by simp
qed (simp add: alive_writer_def touched_def run_simps)

lemma sorted_le_last: "sorted xs \<Longrightarrow> x \<in> set xs \<Longrightarrow> x \<le> last (xs :: real list)"
  by (induction xs) auto

text \<open>
  The health check of the cycler and the chamber. Whatever touches fail with an \<open>OSError\<close>, the writer
  goes on, and the check passes exactly when the last successful touch is at most 30 s old;
  a missing file fails it. With a turn every 5 s, five failures in a row are survived and a
  process that stands still fails the check after 30 s.
\<close>

theorem alive_check_exact:
  assumes "\<forall>t \<in> set turns. snd t \<in> {Inr (), Inl OSErr}" and "sorted (map fst turns)"
  defines "f \<equiv> snd (alive_writer turns None)"
  shows "fst (alive_writer turns None) = Inr () \<and>
    (alive_check f now = 0 \<longleftrightarrow> (\<exists>t \<in> set turns. snd t = Inr () \<and> now - fst t \<le> 30)) \<and>
    (\<forall>t0 ok. turns = map (\<lambda>i. (t0 + 5 * real i, ok i)) [0..<length turns] \<and> 6 \<le> length turns \<and>
      (\<exists>i \<in> {length turns - 6..<length turns}. ok i = Inr ()) \<and> now \<le> fst (last turns) + 5 \<longrightarrow> alive_check f now = 0) \<and>
    (turns \<noteq> [] \<and> fst (last turns) + 30 < now \<longrightarrow> alive_check f now = 1)"
proof -
  note run = alive_writer_run [OF assms(1), of None]
  have f: "f = (if touched turns = [] then None else Some (last (touched turns)))" by (simp add: f_def run)
  have s: "sorted (touched turns)"
    unfolding touched_def by (rule sorted_filter [OF assms(2), unfolded filter_map o_def])
  have exact: "alive_check f now = 0 \<longleftrightarrow> (\<exists>t \<in> set turns. snd t = Inr () \<and> now - fst t \<le> 30)" for now
  proof (cases "touched turns = []")
    case True
    then have "\<forall>t \<in> set turns. snd t \<noteq> Inr ()" by (simp add: touched_def filter_empty_conv)
    with True show ?thesis by (auto simp: f alive_check_def is_alive_def stat_of_def)
  next
    case False
    have "(\<exists>t \<in> set turns. snd t = Inr () \<and> now - fst t \<le> 30) \<longleftrightarrow> (\<exists>t \<in> set (touched turns). now - t \<le> 30)"
      unfolding touched_def set_map set_filter by blast
    also have "\<dots> \<longleftrightarrow> now - last (touched turns) \<le> 30"
    proof
      assume "\<exists>t \<in> set (touched turns). now - t \<le> 30"
      then obtain t where "t \<in> set (touched turns)" "now - t \<le> 30" by blast
      moreover have "t \<le> last (touched turns)" if "t \<in> set (touched turns)" for t
        using s that by (rule sorted_le_last)
      ultimately show "now - last (touched turns) \<le> 30" by force
    qed (use False in auto)
    finally show ?thesis using False by (auto simp: f alive_check_def is_alive_def stat_of_def split: bool.splits)
  qed
  have periodic: "alive_check f now = 0"
    if t: "turns = map (\<lambda>i. (t0 + 5 * real i, ok i)) [0..<length turns]" "6 \<le> length turns"
      "\<exists>i \<in> {length turns - 6..<length turns}. ok i = Inr ()" "now \<le> fst (last turns) + 5" for t0 ok
  proof -
    from t(3) obtain i where i: "length turns - 6 \<le> i" "i < length turns" "ok i = Inr ()" by auto
    have e: "turns ! j = (t0 + 5 * real j, ok j)" if "j < length turns" for j
      using that by (subst t(1)) simp
    have "last turns = turns ! (length turns - 1)" using t(2) by (intro last_conv_nth) auto
    then have "fst (last turns) = t0 + 5 * real (length turns - 1)" using e [of "length turns - 1"] t(2) by simp
    moreover have "real (length turns - 1) \<le> real i + 5" using i(1) t(2) by linarith
    ultimately have "now - fst (turns ! i) \<le> 30" using t(4) e [OF i(2)] by simp
    moreover have "turns ! i \<in> set turns" using i(2) by (rule nth_mem)
    moreover have "snd (turns ! i) = Inr ()" using i(2, 3) e [OF i(2)] by simp
    ultimately show ?thesis unfolding exact by blast
  qed
  have stale: "alive_check f now = 1" if "turns \<noteq> []" "fst (last turns) + 30 < now"
  proof -
    have "fst t \<le> fst (last turns)" if "t \<in> set turns" for t
      using sorted_le_last [OF assms(2), of "fst t"] that \<open>turns \<noteq> []\<close> by (simp add: last_map)
    with that(2) have "\<not> (\<exists>t \<in> set turns. snd t = Inr () \<and> now - fst t \<le> 30)" by fastforce
    then have "alive_check f now \<noteq> 0" unfolding exact .
    then show ?thesis by (auto simp: alive_check_def split: sum.splits bool.splits)
  qed
  show ?thesis
    by (intro conjI allI impI exact; (elim conjE)?) (simp add: run, rule periodic, assumption+, rule stale, assumption+)
qed

lemma alive_check_exact_witness:
  "alive_check (snd (alive_writer [(0, Inl OSErr), (5, Inr ()), (10, Inl OSErr)] None)) 35 = 0 \<and>
   alive_check (snd (alive_writer [(0, Inl OSErr), (5, Inr ()), (10, Inl OSErr)] None)) 36 \<noteq> 0"
proof -
  have t: "\<forall>t \<in> set [(0 :: real, Inl OSErr :: exn + unit), (5, Inr ()), (10, Inl OSErr)]. snd t \<in> {Inr (), Inl OSErr}"
    and s: "sorted (map fst [(0 :: real, Inl OSErr :: exn + unit), (5, Inr ()), (10, Inl OSErr)])" by simp_all
  from alive_check_exact [OF t s, of 35] alive_check_exact [OF t s, of 36] show ?thesis by simp
qed

subsection \<open>Open files\<close>

definition DEFAULT_THRESHOLD_RATIO :: real where "DEFAULT_THRESHOLD_RATIO = 0.8"

text \<open>\<open>len(os.listdir("/proc/self/fd"))\<close>, -1 on an \<open>OSError\<close>.\<close>

definition open_fd_count :: "exn + nat \<Rightarrow> exn + int" where
  "open_fd_count listing = (case listing of Inl e \<Rightarrow> if e = OSErr then Inr (- 1) else Inl e | Inr n \<Rightarrow> Inr (int n))"

text \<open>One poll: whether it warns. The soft limit is the answer of \<open>getrlimit\<close>.\<close>

definition fd_pressure_poll :: "real \<Rightarrow> exn + int \<Rightarrow> exn + nat \<Rightarrow> exn + bool" where
  "fd_pressure_poll threshold_ratio soft listing =
     (case soft of
        Inl e \<Rightarrow> if e \<in> {OSErr, ValueErr} then Inr False else Inl e
      | Inr soft \<Rightarrow> bind_sum (open_fd_count listing) (\<lambda>count.
          if count < 0 \<or> soft \<le> 0 then Inr False else Inr (threshold_ratio \<le> real_of_int count / real_of_int soft)))"

lemma fd_pressure_warns:
  "fd_pressure_poll r (Inr soft) (Inr n) = Inr True \<longleftrightarrow> 0 < soft \<and> r * real_of_int soft \<le> real n"
  by (auto simp: fd_pressure_poll_def open_fd_count_def field_simps)

subsection \<open>Database health checks\<close>

text \<open>
  \<open>asyncpg.connect\<close> and \<open>SELECT 1\<close> answer as parameters; the connection is closed either way. An
  exception that is not caught ends the check with exit code 1, as Python does.
\<close>

definition ping :: "exn + unit \<Rightarrow> exn + int \<Rightarrow> exn + int" where
  "ping connect select_1 =
     (case connect of
        Inl e \<Rightarrow> if e \<in> {PostgresErr, OSErr} then Inr 1 else Inl e
      | Inr _ \<Rightarrow> bind_sum select_1 (\<lambda>result. Inr (if result = 1 then 0 else 1)))"

definition exit_code :: "exn + int \<Rightarrow> int" where
  "exit_code r = (case r of Inl _ \<Rightarrow> 1 | Inr c \<Rightarrow> c)"

text \<open>Watchdog and exporter ask one database, analytics both.\<close>

definition watchdog_check :: "(string \<Rightarrow> exn + unit) \<Rightarrow> (string \<Rightarrow> exn + int) \<Rightarrow> environ \<Rightarrow> exn + int" where
  "watchdog_check connect select_1 env =
     bind_sum (read_pg env) (\<lambda>pg. ping (connect (dsn_of pg)) (select_1 (dsn_of pg)))"

definition exporter_check :: "(string \<Rightarrow> exn + unit) \<Rightarrow> (string \<Rightarrow> exn + int) \<Rightarrow> environ \<Rightarrow> exn + int" where
  "exporter_check connect select_1 env =
     bind_sum (read_tsdb env) (\<lambda>tsdb. ping (connect (dsn_of tsdb)) (select_1 (dsn_of tsdb)))"

text \<open>Here the ports stay texts.\<close>

definition env_dsn :: "environ \<Rightarrow> string \<Rightarrow> string \<Rightarrow> string \<Rightarrow> string" where
  "env_dsn env prefix default_host default_db =
     make_dsn (env_str env (prefix @ ''_USER'') ''lab'') (env_str env (prefix @ ''_PASSWORD'') ''lab'')
       (env_str env (prefix @ ''_HOST'') default_host) (env_str env (prefix @ ''_PORT'') ''5432'') (env_str env (prefix @ ''_DB'') default_db)"

definition analytics_check :: "(string \<Rightarrow> exn + unit) \<Rightarrow> (string \<Rightarrow> exn + int) \<Rightarrow> environ \<Rightarrow> exn + int" where
  "analytics_check connect select_1 env =
     (let pg = env_dsn env ''PG'' ''postgres'' ''lab''; tsdb = env_dsn env ''TSDB'' ''timescaledb'' ''telemetry''
      in bind_sum (ping (connect pg) (select_1 pg)) (\<lambda>rc1.
         bind_sum (ping (connect tsdb) (select_1 tsdb)) (\<lambda>rc2. Inr (if rc1 \<noteq> 0 then rc1 else rc2))))"

lemma ping_healthy: "ping connect select_1 = Inr 0 \<longleftrightarrow> connect = Inr () \<and> select_1 = Inr 1"
proof (cases connect)
  case (Inl e)
  then show ?thesis by (simp add: ping_def)
next
  case (Inr u)
  then show ?thesis by (cases select_1) (simp_all add: ping_def)
qed

lemma ping_code: "exit_code (ping connect select_1) \<in> {0, 1}"
  by (cases connect; cases select_1) (simp_all add: ping_def exit_code_def)

text \<open>A container is healthy exactly when its databases answer.\<close>

lemma watchdog_healthy:
  "exit_code (watchdog_check connect select_1 env) = 0 \<longleftrightarrow>
    (\<exists>pg. read_pg env = Inr pg \<and> connect (dsn_of pg) = Inr () \<and> select_1 (dsn_of pg) = Inr 1)"
proof (cases "read_pg env")
  case (Inl e)
  then show ?thesis by (simp add: watchdog_check_def exit_code_def)
next
  case (Inr pg)
  have "exit_code r = 0 \<longleftrightarrow> r = Inr 0" for r by (cases r) (simp_all add: exit_code_def)
  with Inr show ?thesis by (simp add: watchdog_check_def ping_healthy)
qed

end
