(* ===== verification/Publisher_Queue.thy ===== *)
theory Publisher_Queue
  imports Orch_World "HOL-Library.Multiset"
begin

section \<open>The outgoing queues of the orchestrator under concurrency\<close>

text \<open>
  \<open>context.py\<close> and \<open>events.py\<close> each have one bounded \<open>asyncio.Queue\<close>, filled by the executor with
  \<open>put_nowait\<close> and emptied by one publisher task, which awaits twice: the publish, and after a
  broker error the \<open>put\<close> of the message it holds. While it awaits, the executor goes on. A step of
  the relation is what runs between two awaits; \<open>publisher_step\<close> of theory Orch_World is the
  special case without interference.
\<close>

datatype 'a hand = Ready | InFlight 'a | PuttingBack 'a | Backoff

record 'a outbox =
  ob_queue :: "'a list"
  ob_hand :: "'a hand"
  ob_delivered :: "'a list"
  ob_dropped :: "'a list"
  ob_enqueued :: "'a list"

definition outbox_new :: "'a outbox" where
  "outbox_new = \<lparr>ob_queue = [], ob_hand = Ready, ob_delivered = [], ob_dropped = [], ob_enqueued = []\<rparr>"

definition enqueue_step :: "'a \<Rightarrow> 'a outbox \<Rightarrow> 'a outbox" where
  "enqueue_step x s =
     s\<lparr>ob_queue := put_nowait x (ob_queue s),
       ob_dropped := (if length (ob_queue s) < QUEUE_MAX then ob_dropped s else ob_dropped s @ [x]),
       ob_enqueued := ob_enqueued s @ [x]\<rparr>"

text \<open>
  The broker takes the message, refuses it, or takes it while the acknowledgement is lost; the \<open>put\<close>
  completes only when the queue has room; then follow the backoff and a new session.
\<close>

inductive outbox_step :: "'a outbox \<Rightarrow> 'a outbox \<Rightarrow> bool" where
  enqueue: "outbox_step s (enqueue_step x s)"
| get: "ob_hand s = Ready \<Longrightarrow> ob_queue s = x # q \<Longrightarrow> outbox_step s (s\<lparr>ob_queue := q, ob_hand := InFlight x\<rparr>)"
| sent: "ob_hand s = InFlight x \<Longrightarrow> outbox_step s (s\<lparr>ob_hand := Ready, ob_delivered := ob_delivered s @ [x]\<rparr>)"
| refused: "ob_hand s = InFlight x \<Longrightarrow> outbox_step s (s\<lparr>ob_hand := PuttingBack x\<rparr>)"
| unacked: "ob_hand s = InFlight x \<Longrightarrow> outbox_step s (s\<lparr>ob_hand := PuttingBack x, ob_delivered := ob_delivered s @ [x]\<rparr>)"
| put_back: "ob_hand s = PuttingBack x \<Longrightarrow> length (ob_queue s) < QUEUE_MAX \<Longrightarrow>
    outbox_step s (s\<lparr>ob_queue := ob_queue s @ [x], ob_hand := Backoff\<rparr>)"
| reconnected: "ob_hand s = Backoff \<Longrightarrow> outbox_step s (s\<lparr>ob_hand := Ready\<rparr>)"

inductive_cases outbox_stepE: "outbox_step s t"

abbreviation outbox_steps :: "'a outbox \<Rightarrow> 'a outbox \<Rightarrow> bool" where
  "outbox_steps \<equiv> outbox_step\<^sup>*\<^sup>*"

definition held :: "'a hand \<Rightarrow> 'a multiset" where
  "held h = (case h of InFlight x \<Rightarrow> {#x#} | PuttingBack x \<Rightarrow> {#x#} | _ \<Rightarrow> {#})"

text \<open>Nothing disappears, and the queue keeps its bound.\<close>

definition outbox_inv :: "'a outbox \<Rightarrow> bool" where
  "outbox_inv s \<longleftrightarrow> length (ob_queue s) \<le> QUEUE_MAX \<and>
     mset (ob_enqueued s) \<subseteq># mset (ob_delivered s) + mset (ob_queue s) + held (ob_hand s) + mset (ob_dropped s)"

lemma subset_add_right: "A \<subseteq># B \<Longrightarrow> A \<subseteq># add_mset x (B :: 'a multiset)"
  by (metis add_mset_add_single mset_subset_eq_add_left subset_mset.order_trans)

lemma outbox_step_inv: "outbox_step s t \<Longrightarrow> outbox_inv s \<Longrightarrow> outbox_inv t"
  by (induction rule: outbox_step.induct)
    (auto simp: outbox_inv_def enqueue_step_def put_nowait_def held_def add.assoc intro: subset_add_right)

lemma outbox_steps_inv: "outbox_steps s t \<Longrightarrow> outbox_inv s \<Longrightarrow> outbox_inv t"
  by (induction rule: rtranclp_induct) (auto intro: outbox_step_inv)

text \<open>Stuck: the publisher waits for room in the queue that only it could make.\<close>

definition stuck :: "'a \<Rightarrow> 'a outbox \<Rightarrow> bool" where
  "stuck x s \<longleftrightarrow> ob_hand s = PuttingBack x \<and> QUEUE_MAX \<le> length (ob_queue s)"

lemma stuck_step: "outbox_step s t \<Longrightarrow> stuck x s \<Longrightarrow> stuck x t \<and> ob_delivered t = ob_delivered s \<and> ob_queue t = ob_queue s"
  by (induction rule: outbox_step.induct) (auto simp: stuck_def enqueue_step_def put_nowait_def)

lemma stuck_steps: "outbox_steps s t \<Longrightarrow> stuck x s \<Longrightarrow> stuck x t \<and> ob_delivered t = ob_delivered s \<and> ob_queue t = ob_queue s"
  by (induction rule: rtranclp_induct) (auto dest: stuck_step)

lemma fill_queue:
  "outbox_steps s (fold enqueue_step xs s) \<and> ob_hand (fold enqueue_step xs s) = ob_hand s \<and>
    (length (ob_queue s) + length xs \<le> QUEUE_MAX \<longrightarrow> ob_queue (fold enqueue_step xs s) = ob_queue s @ xs)"
proof (induction xs arbitrary: s)
  case (Cons x xs)
  from Cons.IH [of "enqueue_step x s"] outbox_step.enqueue [of s x] show ?case
    by (auto simp: enqueue_step_def put_nowait_def intro: converse_rtranclp_into_rtranclp)
qed simp

lemma reaches_stuck:
  assumes "ob_hand s = InFlight x" "ob_queue s = []"
  shows "\<exists>t. outbox_steps s t \<and> stuck x t"
proof -
  let ?s = "fold enqueue_step (replicate QUEUE_MAX x) s"
  have f: "outbox_steps s ?s" "ob_hand ?s = InFlight x" "length (ob_queue ?s) = QUEUE_MAX"
    using fill_queue [of s "replicate QUEUE_MAX x"] assms by simp_all
  from outbox_step.refused [OF f(2)] have "outbox_steps s (?s\<lparr>ob_hand := PuttingBack x\<rparr>)" using f(1) by simp
  moreover have "stuck x (?s\<lparr>ob_hand := PuttingBack x\<rparr>)" using f(3) by (simp add: stuck_def)
  ultimately show ?thesis by blast
qed

text \<open>A refused message comes after one that was enqueued while it was in flight.\<close>

lemma overtaken: "\<exists>s. outbox_steps outbox_new s \<and> ob_enqueued s = [a, b] \<and> ob_delivered s = [b, a] \<and> ob_queue s = [] \<and> ob_hand s = Ready"
proof -
  let ?s1 = "enqueue_step a outbox_new"
  let ?s2 = "?s1\<lparr>ob_queue := [], ob_hand := InFlight a\<rparr>"
  let ?s3 = "enqueue_step b ?s2"
  let ?s4 = "?s3\<lparr>ob_hand := PuttingBack a\<rparr>"
  let ?s5 = "?s4\<lparr>ob_queue := ob_queue ?s4 @ [a], ob_hand := Backoff\<rparr>"
  let ?s6 = "?s5\<lparr>ob_hand := Ready\<rparr>"
  let ?s7 = "?s6\<lparr>ob_queue := [a], ob_hand := InFlight b\<rparr>"
  let ?s8 = "?s7\<lparr>ob_hand := Ready, ob_delivered := ob_delivered ?s7 @ [b]\<rparr>"
  let ?s9 = "?s8\<lparr>ob_queue := [], ob_hand := InFlight a\<rparr>"
  let ?s10 = "?s9\<lparr>ob_hand := Ready, ob_delivered := ob_delivered ?s9 @ [a]\<rparr>"
  note defs = enqueue_step_def put_nowait_def outbox_new_def QUEUE_MAX_def
  have "outbox_step outbox_new ?s1" by (rule outbox_step.enqueue)
  moreover have "outbox_step ?s1 ?s2" by (rule outbox_step.get) (simp_all add: defs)
  moreover have "outbox_step ?s2 ?s3" by (rule outbox_step.enqueue)
  moreover have "outbox_step ?s3 ?s4" by (rule outbox_step.refused) (simp add: defs)
  moreover have "outbox_step ?s4 ?s5" by (rule outbox_step.put_back) (simp_all add: defs)
  moreover have "outbox_step ?s5 ?s6" by (rule outbox_step.reconnected) simp
  moreover have "outbox_step ?s6 ?s7" by (rule outbox_step.get) (simp_all add: defs)
  moreover have "outbox_step ?s7 ?s8" by (rule outbox_step.sent) simp
  moreover have "outbox_step ?s8 ?s9" by (rule outbox_step.get) (simp_all add: defs)
  moreover have "outbox_step ?s9 ?s10" by (rule outbox_step.sent) simp
  ultimately have "outbox_steps outbox_new ?s10"
    by (meson converse_rtranclp_into_rtranclp rtranclp.rtrancl_refl)
  then show ?thesis by (rule exI [of _ ?s10, OF conjI]) (simp add: defs)
qed

text \<open>
  C15. The outgoing queues. In every interleaving of executor and publisher a queue keeps its bound and
  every message enqueued is delivered, queued, in the publisher's hands or was dropped because the
  queue was full. But a publish that is refused after the queue has filled up leaves the publisher
  waiting for room that only it could make: from then on nothing is delivered, whatever happens,
  and every publish in flight can end there. And a refused message is delivered after a later one of the
  same channel, so that the broker retains the older of the two.
\<close>

theorem outgoing_queue:
  fixes a b :: 'a
  shows "(\<forall>s. outbox_steps (outbox_new :: 'a outbox) s \<longrightarrow> outbox_inv s) \<and>
    (\<forall>(s :: 'a outbox) t x. stuck x s \<and> outbox_steps s t \<longrightarrow> stuck x t \<and> ob_delivered t = ob_delivered s \<and> ob_queue t = ob_queue s) \<and>
    (\<exists>s. outbox_steps outbox_new s \<and> stuck a s) \<and>
    (\<exists>s. outbox_steps outbox_new s \<and> ob_enqueued s = [a, b] \<and> ob_delivered s = [b, a] \<and> ob_queue s = [] \<and> ob_hand s = Ready)"
proof (intro conjI allI impI)
  show "outbox_inv s" if "outbox_steps (outbox_new :: 'a outbox) s" for s
    by (rule outbox_steps_inv [OF that]) (simp add: outbox_inv_def outbox_new_def held_def)
  show "stuck x t" "ob_delivered t = ob_delivered s" "ob_queue t = ob_queue s" if "stuck x s \<and> outbox_steps s t" for s t :: "'a outbox" and x
    using stuck_steps [of s t x] that by simp_all
  let ?s1 = "enqueue_step a outbox_new"
  let ?s2 = "?s1\<lparr>ob_queue := [], ob_hand := InFlight a\<rparr>"
  have 1: "outbox_step outbox_new ?s1" by (rule outbox_step.enqueue)
  have 2: "outbox_step ?s1 ?s2"
    by (rule outbox_step.get) (simp_all add: enqueue_step_def put_nowait_def outbox_new_def QUEUE_MAX_def)
  obtain t where t: "outbox_steps ?s2 t" "stuck a t" using reaches_stuck [of ?s2 a] by auto
  have "outbox_steps outbox_new t"
    by (rule converse_rtranclp_into_rtranclp [OF 1 converse_rtranclp_into_rtranclp [OF 2 t(1)]])
  with t(2) show "\<exists>s. outbox_steps outbox_new s \<and> stuck a s" by (intro exI conjI)
  show "\<exists>s. outbox_steps outbox_new s \<and> ob_enqueued s = [a, b] \<and> ob_delivered s = [b, a] \<and> ob_queue s = [] \<and> ob_hand s = Ready"
    by (rule overtaken)
qed

lemma outgoing_queue_witness:
  "let s = \<lparr>ob_queue = replicate QUEUE_MAX 1, ob_hand = PuttingBack (7 :: nat), ob_delivered = [2], ob_dropped = [], ob_enqueued = []\<rparr>
   in stuck 7 s \<and> stuck 7 (enqueue_step 9 s) \<and> ob_delivered (enqueue_step 9 s) = [2]"
proof -
  let ?s = "\<lparr>ob_queue = replicate QUEUE_MAX 1, ob_hand = PuttingBack (7 :: nat), ob_delivered = [2], ob_dropped = [], ob_enqueued = []\<rparr>"
  note st = conjunct1 [OF conjunct2 [OF outgoing_queue [of 0 "0 :: nat"]]]
  have s: "stuck 7 ?s" by (simp add: stuck_def)
  have t: "outbox_steps ?s (enqueue_step 9 ?s)" by (rule r_into_rtranclp, rule outbox_step.enqueue)
  note r = mp [OF spec [OF spec [OF spec [OF st, of ?s], of "enqueue_step 9 ?s"], of 7] conjI [OF s t]]
  have "ob_delivered (enqueue_step 9 ?s) = [2]" using conjunct1 [OF conjunct2 [OF r]] by (simp only: outbox.select_convs)
  with s conjunct1 [OF r] show ?thesis unfolding Let_def by (intro conjI)
qed

end
