(* ===== verification/Spec2Isabelle.thy ===== *)
theory Spec2Isabelle
  imports Cycler_Props Orch_Props Orch_Faults Orch_Progress Orch_Interleave Watchdog Chamber Models Pipeline Lifecycle Watchdog_Process Services
    Schedule_Data Health Publisher_Queue
begin

text \<open>
  Verification of the battery-lab simulator.

  \<^bold>\<open>The program.\<close> A bench of battery cyclers is simulated by containers that talk over Modbus, MQTT and a
  TimescaleDB database. Each \<open>cycler\<close> container is one chassis of up to 32 channels; a channel steps an
  electro-thermal cell model, obeys commands written to its Modbus registers and halts itself on a hazard or
  when its dead man is not kicked. Two \<open>chamber\<close> containers give the ambient temperature. The
  \<open>orchestrator\<close> walks every experiment through the steps of its schedule: it reads a channel, decides whether
  the step has ended, journals the transition in the database and writes the next command. The
  \<open>ingester\<close> joins the telemetry of the cyclers with the experiment context of the orchestrator and copies the
  rows into the database; \<open>analytics\<close> computes features of each finished cycle; \<open>parquet_export\<close> moves
  old hours to an object store and drops them from the database; the \<open>watchdog\<close> raises alerts. What they share
  (register map, chemistries, cell, schedules, time, liveness) is the library \<open>batterylab\<close>.

  \<^bold>\<open>Theories and sources.\<close> Paths are under \<open>src/\<close>; \<open>lib/\<close> stands for
  \<open>libs/batterylab/src/batterylab/\<close>, \<open>X/\<close> for \<open>services/X/src/X/\<close>. A record field, a constructor or a
  definition has the name it has in the source, with a prefix where HOL or another record uses the name.

  Shared ground:

  \<^item> \<open>Prelude\<close>: the exceptions the sources raise and catch (\<open>exn\<close>), and lemmas on lists, maps and
    results. \<open>Effects\<close>: actions that raise and keep what was done before (\<open>bind_act\<close>, \<open>catch_act\<close>,
    \<open>zoom\<close>), and the triples by which everything with effects is proved.
  \<^item> \<open>Text\<close>: the methods of \<open>str\<close> the sources use. \<open>Json\<close>: decoded JSON values, indexing and conversion.
    \<open>Calendar\<close>: UTC dates and the object name of an hour.
  \<^item> \<open>Config\<close>: environment variables and \<open>lib/db.py\<close>. \<open>Health\<close>: \<open>lib/time.py\<close>, \<open>lib/alive.py\<close>,
    \<open>lib/fdpressure.py\<close> and the five \<open>healthcheck.py\<close>.

  Cycler:

  \<^item> \<open>F32\<close> and \<open>Modbus_Maps\<close>: \<open>lib/modbus_maps.py\<close>, with what \<open>struct\<close> does to a float.
  \<^item> \<open>Chemistry\<close>, \<open>Degradation\<close>, \<open>Ecm\<close>: the modules of \<open>lib/\<close> of these names, and the range checks
    of \<open>CellState\<close> in \<open>lib/models.py\<close>. \<open>ecm_step\<close> is one physics tick. \<open>Models\<close>: the two carriers of
    \<open>lib/models.py\<close> that no service uses, and how they match what the services do.
  \<^item> \<open>Channel\<close>, \<open>Safety\<close>, \<open>Chassis_Block\<close>: \<open>cycler/channel.py\<close>, \<open>cycler/safety.py\<close>,
    \<open>cycler/modbus_server.py\<close>; \<open>Telemetry\<close>: \<open>cycler/telemetry.py\<close>.
  \<^item> \<open>Chassis\<close>: the interleavings of the loops of one container (\<open>chassis_exec\<close>, \<open>chassis_run\<close>).
    \<open>Cycler_Process\<close>: \<open>cycler/main.py\<close> from the environment on, \<open>cycler/ambient.py\<close> and the publisher of
    the chamber.
  \<^item> \<open>Cycler_Client\<close>: \<open>orchestrator/cycler_client.py\<close>. \<open>Cycler_Props\<close>: the properties of client and
    chassis together.

  Orchestrator:

  \<^item> \<open>Schedule\<close>: \<open>lib/schedule.py\<close>, \<open>Schedule_Data\<close>: its schema, from parsed YAML on. \<open>Orch_World\<close>: the database tables it uses, the experiment
    object, \<open>context.py\<close> and \<open>events.py\<close>. \<open>Executor\<close>: \<open>executor.py\<close>. \<open>Orch_Main\<close>: \<open>main.py\<close>,
    \<open>heartbeat.py\<close>, \<open>channel_keepalive.py\<close>.
  \<^item> \<open>Orch_Life\<close>: the automaton of an experiment row and its refinement. \<open>Orch_Props\<close>: a tick over the
    wire. \<open>Orch_Progress\<close>: experiments complete. \<open>Orch_Faults\<close>: reactions to failures. \<open>Publisher_Queue\<close>: the bounded queues under every
    interleaving, as a step relation. \<open>Orch_Interleave\<close>: the keepalive sweep under every interleaving.

  Other services:

  \<^item> \<open>Watchdog\<close>: \<open>alerts.py\<close>, \<open>dedupe.py\<close> and the four monitors; \<open>Watchdog_Process\<close>:
    \<open>watchdog/main.py\<close>. \<open>Chamber\<close>: \<open>chamber/thermal.py\<close>, \<open>modbus_server.py\<close> and the loops of
    \<open>main.py\<close>.
  \<^item> \<open>Ingester\<close>: \<open>ingester/main.py\<close>. \<open>Parquet_Export\<close> and \<open>Export_Safety\<close>: \<open>parquet_export/\<close>;
    \<open>Parquet_Batch\<close>: \<open>TELEMETRY_SCHEMA\<close> and \<open>_records_to_batch\<close> of its \<open>export.py\<close>.
    \<open>Features\<close> and \<open>Pipeline\<close>: \<open>analytics/features.py\<close>, \<open>pipeline.py\<close> and \<open>main.py\<close>.
  \<^item> \<open>Services\<close>: what is left of the mains (settings and start of orchestrator, chamber, analytics, ingester
    and exporter, the loop of the exporter), the loading of schedule files and the two tools of \<open>scripts/\<close>.
    \<open>Lifecycle\<close>: the \<open>_run\<close> and \<open>main\<close> of cycler, chamber, orchestrator, analytics, watchdog and exporter as far
    as tasks, signals and exit codes go. A task group is \<open>asyncio.TaskGroup\<close>, of the standard library.

  \<^bold>\<open>What is shown.\<close>

  \<^item> Safety of a channel: a pass of the safety loop latches exactly on a hazard; no interleaving of loops and
    writes clears a latch except a change of chemistry; silence of the client idles channels, one by one and for
    the whole chassis; a cell at most reaches 80 degrees within the stated currents, ambients and steps; no
    input ends the container but an ambient message without a usable temperature that raises \<open>TypeError\<close>.
  \<^item> The wire: a command reaches the addressed channel and no other, a repeated one changes nothing, a
    snapshot shows the channel at register resolution, setpoints survive binary32.
  \<^item> Experiments: the whole orchestrator refines the automaton pending, running, completed or failed
    through any faults and restarts; a crash in the middle of a tick resumes at the old position or the next; on
    a channel that answers, an experiment completes within a stated number of ticks and journals every step of
    its schedule once per cycle, in order; errors of database, chassis and schedule have exactly the stated
    reach; what the schema accepts is a well-formed schedule, and every such schedule can be written and read.
  \<^item> Data: telemetry reaches the table with the labels of its experiment, in order and at most once; an export
    loses no row that was copied in time, and the batches of an object read back are the rows of its hour; binning loses no charge; features are finite and of the right sign,
    and processing an event again changes nothing.
  \<^item> Alerts: raised exactly at a rising edge, within and across broker sessions; stored or kept for retry, and
    where two emitters interleave not so.
  \<^item> Start and end: the settings a service reads, the numbering of the bench, the address of the database; which
    events end a process and with which exit code, and that analytics and watchdog ignore a signal as long as
    their broker session lasts.

  \<^bold>\<open>How it is modelled.\<close>

  \<^item> Coroutines of one event loop interleave only where they await. Where an interleaving matters (the loops
    of a chassis, the mirror, two emitters of alerts, executor and publisher) a run is a list of events or a step
    relation, and every order is covered. The sweeps of the orchestrator over the chassis run one after
    another, which is one of the schedules \<open>asyncio.gather\<close> allows; for the keepalive sweep every other schedule is
    shown to end in the same world.
  \<^item> A statement of the database asks a list of faults: it commits, is rejected without effect, or takes
    effect and its answer is lost. A raised \<open>Killed\<close> is the end of the process at that point; no handler
    catches it. Statements about faults hold for every such list.
  \<^item> Python floats are reals, except on the wire, where they are binary32. Python integers are \<open>int\<close>, register
    values are \<open>int\<close> with the clamps and two's complement of the source. Times are seconds, and \<open>datetime\<close>
    values microseconds since the epoch.
  \<^item> Code that is not under \<open>src/\<close> is a parameter: \<open>numpy.interp\<close> (locale \<open>linear_interpolation\<close>), the
    pymodbus store (\<open>sparse_block\<close>, extended by \<open>loaded_block\<close>) and client (\<open>modbus_link\<close>),
    \<open>scipy.signal.find_peaks\<close> (\<open>peak_finder\<close>), the scalar conversions of pydantic
    (\<open>scalar_coercions\<close>), pyarrow (\<open>record_batches\<close>), \<open>json.loads\<close>, \<open>float\<close> and \<open>str\<close>, the YAML loader, the
    broker, clocks and the file system. The locale \<open>dedupe\<close> is the contract of the edge trigger between the
    monitors and \<open>dedupe.py\<close>, \<open>answering_channel\<close> what progress needs of a channel, which every link to a
    chassis gives. Every locale is interpreted on the definitions that provide it.
  \<^item> No definition takes fuel. The bound on the ticks of an experiment, \<open>schedule_ticks\<close>, is the sum over the
    steps of their time limit divided by the pause between two ticks, times the repeats. Loops over data are recursions with a termination proof; the endless loops of
    the services are functions of the list of their inputs, one per turn.

  \<^bold>\<open>Not modelled.\<close>

  \<^item> \<open>lib/log.py\<close> and every log line; \<open>lib/errors.py\<close>, whose classes have no behaviour.
  \<^item> The YAML parser, the coercions pydantic makes between scalar types, the git process behind the hash of a
    schedule, the Parquet encoding of a record batch and the S3 client behind the object store: they are
    parameters.
  \<^item> The command lines and \<open>argparse\<close>; the sleeps between the turns of a loop; the SQL files, the dashboards and
    the tests.
  \<^item> Rounding of binary64 and of the \<open>REAL\<close> columns; infinities and NaNs that come in over the wire or in JSON.
    A NaN that the analytics produce by themselves is modelled.
\<close>

end
